(* ===== verification/Prelude.thy ===== *)
theory Prelude
  imports Complex_Main "HOL-Library.Word"
begin

text \<open>
  Shared vocabulary of the development: the types that stand for Go's built-in types, the parts
  of Go's run-time and standard library that several components use (64-bit arithmetic,
  \<^verbatim>\<open>time.Time\<close>, \<^verbatim>\<open>strings\<close>), the collections of simplification rules, and generic lemmas
  on lists, maps and sums.

  \<^item> A Go \<^verbatim>\<open>string\<close> or \<^verbatim>\<open>[]byte\<close> is a \<open>string\<close>: a list of bytes (\<open>char\<close>).
  \<^item> \<^verbatim>\<open>int\<close>, \<^verbatim>\<open>int64\<close> are \<open>int\<close>; \<open>wrap64\<close> is the wrap-around of two's complement and is
    written wherever a sum or product may leave the range.
  \<^item> \<^verbatim>\<open>time.Time\<close> is the number of nanoseconds since Go's zero time (1 January of year 1 UTC), so the
    zero value is \<open>0\<close>; \<^verbatim>\<open>time.Duration\<close> is a number of nanoseconds.
  \<^item> A Go error return is the left summand of \<open>'e + 'a\<close>.
\<close>

section \<open>Types and rule collections\<close>

type_synonym bytes = string
type_synonym time = int
type_synonym duration = int

named_theorems go_simps \<open>definitions of the modelled run-time and standard library\<close>

section \<open>Definitions\<close>

subsection \<open>64-bit integers\<close>

abbreviation MaxInt64 :: int where "MaxInt64 \<equiv> 9223372036854775807"
abbreviation MinInt64 :: int where "MinInt64 \<equiv> - 9223372036854775808"

definition int64_ok :: "int \<Rightarrow> bool" where
  "int64_ok x \<longleftrightarrow> MinInt64 \<le> x \<and> x \<le> MaxInt64"

definition wrap64 :: "int \<Rightarrow> int" where
  "wrap64 x = (x + 9223372036854775808) mod 18446744073709551616 - 9223372036854775808"

text \<open>Go's integer quotient and remainder truncate towards zero.\<close>

definition go_div :: "int \<Rightarrow> int \<Rightarrow> int" where
  "go_div a b = sgn a * sgn b * (\<bar>a\<bar> div \<bar>b\<bar>)"

definition go_mod :: "int \<Rightarrow> int \<Rightarrow> int" where
  "go_mod a b = sgn a * (\<bar>a\<bar> mod \<bar>b\<bar>)"

subsection \<open>Time\<close>

abbreviation Second :: duration where "Second \<equiv> 1000000000"
abbreviation Millisecond :: duration where "Millisecond \<equiv> 1000000"
abbreviation Minute :: duration where "Minute \<equiv> 60000000000"
abbreviation Hour :: duration where "Hour \<equiv> 3600000000000"

text \<open>\<^verbatim>\<open>t.Sub(u)\<close> saturates at the range of \<^verbatim>\<open>time.Duration\<close>.\<close>

definition time_sub :: "time \<Rightarrow> time \<Rightarrow> duration" where
  "time_sub t u = max MinInt64 (min MaxInt64 (t - u))"

text \<open>\<^verbatim>\<open>t.Unix()\<close>: whole seconds since 1970, rounded down.\<close>

definition time_unix :: "time \<Rightarrow> int" where
  "time_unix t = t div Second - 62135596800"

subsection \<open>Strings\<close>

definition has_prefix :: "string \<Rightarrow> string \<Rightarrow> bool" where
  "has_prefix s p \<longleftrightarrow> take (length p) s = p"

definition has_suffix :: "string \<Rightarrow> string \<Rightarrow> bool" where
  "has_suffix s p \<longleftrightarrow> length p \<le> length s \<and> drop (length s - length p) s = p"

definition trim_prefix :: "string \<Rightarrow> string \<Rightarrow> string" where
  "trim_prefix s p = (if has_prefix s p then drop (length p) s else s)"

definition trim_suffix :: "string \<Rightarrow> string \<Rightarrow> string" where
  "trim_suffix s p = (if has_suffix s p then take (length s - length p) s else s)"

text \<open>\<^verbatim>\<open>strings.Split(s, sep)\<close> for a one-byte separator: always at least one part.\<close>

fun split_on :: "char \<Rightarrow> string \<Rightarrow> string list" where
  "split_on c [] = [[]]"
| "split_on c (x # xs) =
     (if x = c then [] # split_on c xs
      else case split_on c xs of [] \<Rightarrow> [[x]] | p # ps \<Rightarrow> (x # p) # ps)"

text \<open>\<^verbatim>\<open>strings.Join(parts, sep)\<close> for a one-byte separator.\<close>

fun join_with :: "char \<Rightarrow> string list \<Rightarrow> string" where
  "join_with c [] = []"
| "join_with c [p] = p"
| "join_with c (p # q # ps) = p @ c # join_with c (q # ps)"

definition byte_of :: "char \<Rightarrow> nat" where
  "byte_of c = of_char c"

definition is_lower :: "char \<Rightarrow> bool" where
  "is_lower c \<longleftrightarrow> 97 \<le> byte_of c \<and> byte_of c \<le> 122"

definition is_upper :: "char \<Rightarrow> bool" where
  "is_upper c \<longleftrightarrow> 65 \<le> byte_of c \<and> byte_of c \<le> 90"

definition is_digit :: "char \<Rightarrow> bool" where
  "is_digit c \<longleftrightarrow> 48 \<le> byte_of c \<and> byte_of c \<le> 57"

definition to_lower :: "char \<Rightarrow> char" where
  "to_lower c = (if is_upper c then char_of (byte_of c + 32) else c)"

text \<open>The digits of lower-case hexadecimal.\<close>

definition hex_digit :: "nat \<Rightarrow> char" where
  "hex_digit n = (if n < 10 then char_of (48 + n) else char_of (87 + n))"

text \<open>\<^verbatim>\<open>strings.EqualFold\<close> on ASCII input.\<close>

definition equal_fold :: "string \<Rightarrow> string \<Rightarrow> bool" where
  "equal_fold s t \<longleftrightarrow> map to_lower s = map to_lower t"

subsection \<open>Errors\<close>

fun bind_sum :: "'e + 'a \<Rightarrow> ('a \<Rightarrow> 'e + 'b) \<Rightarrow> 'e + 'b" where
  "bind_sum (Inl e) f = Inl e"
| "bind_sum (Inr a) f = f a"

definition guard_sum :: "bool \<Rightarrow> 'e \<Rightarrow> 'e + unit" where
  "guard_sum b e = (if b then Inr () else Inl e)"

section \<open>Lemmas\<close>

subsection \<open>64-bit integers\<close>

lemma wrap64_range: "int64_ok (wrap64 x)"
  by (simp add: wrap64_def int64_ok_def)

lemma wrap64_id [simp]: "int64_ok x \<Longrightarrow> wrap64 x = x"
  by (simp add: wrap64_def int64_ok_def)

lemma go_mod_nonneg: "0 \<le> a \<Longrightarrow> 0 < b \<Longrightarrow> go_mod a b = a mod b"
  by (cases "a = 0") (simp_all add: go_mod_def)

lemma go_mod_bound: "0 < b \<Longrightarrow> \<bar>go_mod a b\<bar> < b"
  by (cases "a = 0") (auto simp: go_mod_def abs_mult abs_sgn_eq)

lemma go_div_mult: "0 < b \<Longrightarrow> a - go_mod a b = b * go_div a b"
proof -
  assume b: "0 < b"
  have "sgn a * \<bar>a\<bar> = a" by (simp add: sgn_mult_abs)
  moreover have "\<bar>a\<bar> = b * (\<bar>a\<bar> div b) + \<bar>a\<bar> mod b" by simp
  ultimately have "a = sgn a * (b * (\<bar>a\<bar> div b)) + sgn a * (\<bar>a\<bar> mod b)"
    by (metis distrib_left)
  then show ?thesis using b by (simp add: go_mod_def go_div_def algebra_simps)
qed

subsection \<open>Time\<close>

lemma time_sub_exact: "int64_ok (t - u) \<Longrightarrow> time_sub t u = t - u"
  by (simp add: time_sub_def int64_ok_def)

lemma time_sub_pos: "u < t \<Longrightarrow> 0 < time_sub t u"
  by (simp add: time_sub_def)

lemma time_unix_mono: "t \<le> u \<Longrightarrow> time_unix t \<le> time_unix u"
  by (simp add: time_unix_def zdiv_mono1)

subsection \<open>Strings\<close>

lemma byte_of_char_of [simp]: "byte_of (char_of n) = n mod 256"
  by (simp add: byte_of_def)

lemma byte_of_less [simp]: "byte_of c < 256"
  by (simp add: byte_of_def)

lemma char_of_byte_of [simp]: "char_of (byte_of c) = c"
  by (simp add: byte_of_def)

lemma split_on_nonempty [simp]: "split_on c s \<noteq> []"
  by (cases s) (auto split: list.splits)

lemma split_on_no_sep: "c \<notin> set s \<Longrightarrow> split_on c s = [s]"
  by (induction s) auto

lemma split_on_append_sep:
  "c \<notin> set s \<Longrightarrow> split_on c (s @ c # t) = s # split_on c t"
  by (induction s) (auto split: list.splits)

lemma split_on_parts: "p \<in> set (split_on c s) \<Longrightarrow> c \<notin> set p"
proof (induction s arbitrary: p)
  case (Cons x xs)
  obtain q qs where q: "split_on c xs = q # qs"
    by (cases "split_on c xs") auto
  with Cons show ?case by (auto split: if_splits)
qed simp

lemma join_split [simp]: "join_with c (split_on c s) = s"
proof (induction s)
  case (Cons x xs)
  obtain q qs where q: "split_on c xs = q # qs"
    by (cases "split_on c xs") auto
  then have "join_with c ((x # q) # qs) = x # join_with c (q # qs)"
    by (cases qs) auto
  with Cons q show ?case by (cases qs) auto
qed simp

lemma has_prefix_append [simp]: "has_prefix (p @ s) p"
  by (simp add: has_prefix_def)

lemma trim_prefix_append [simp]: "trim_prefix (p @ s) p = s"
  by (simp add: trim_prefix_def)

lemma has_prefix_iff: "has_prefix s p \<longleftrightarrow> (\<exists>t. s = p @ t)"
  by (auto simp: has_prefix_def) (metis append_take_drop_id)

lemma has_suffix_iff: "has_suffix s p \<longleftrightarrow> (\<exists>t. s = t @ p)"
  by (auto simp: has_suffix_def) (metis append_take_drop_id)

lemma trim_suffix_append [simp]: "trim_suffix (s @ p) p = s"
  by (simp add: trim_suffix_def has_suffix_def)

subsection \<open>Sums\<close>

lemma bind_sum_Inr: "bind_sum m f = Inr b \<longleftrightarrow> (\<exists>a. m = Inr a \<and> f a = Inr b)"
  by (cases m) auto

lemma bind_sum_Inl: "bind_sum m f = Inl e \<longleftrightarrow> m = Inl e \<or> (\<exists>a. m = Inr a \<and> f a = Inl e)"
  by (cases m) auto

lemma guard_sum_simps [simp]:
  "guard_sum b e = Inr u \<longleftrightarrow> b"
  "guard_sum b e = Inl e' \<longleftrightarrow> \<not> b \<and> e = e'"
  by (auto simp: guard_sum_def)

subsection \<open>Lists\<close>

lemma length_filter_mono:
  "(\<And>x. x \<in> set xs \<Longrightarrow> P x \<Longrightarrow> Q x) \<Longrightarrow> length (filter P xs) \<le> length (filter Q xs)"
  by (induction xs) (auto simp: le_SucI)

text \<open>A linear scan for the least element keeps the first of those that nothing else is below.\<close>

lemma foldl_argmin_aux:
  fixes lt :: "'b \<Rightarrow> 'b \<Rightarrow> bool" and f :: "'a \<Rightarrow> 'b"
  assumes "\<And>a b. a \<in> A \<Longrightarrow> b \<in> A \<Longrightarrow> lt (f a) (f b) \<Longrightarrow> \<not> lt (f b) (f a)"
    and "\<And>a b c. a \<in> A \<Longrightarrow> b \<in> A \<Longrightarrow> c \<in> A \<Longrightarrow> \<not> lt (f a) (f b) \<Longrightarrow> \<not> lt (f b) (f c) \<Longrightarrow> \<not> lt (f a) (f c)"
    and "x \<in> A" "set xs \<subseteq> A" "S \<subseteq> A" "\<forall>j\<in>S. \<not> lt (f j) (f x)"
  shows "foldl (\<lambda>b i. if lt (f i) (f b) then i else b) x xs \<in> insert x (set xs) \<and>
         (\<forall>j\<in>S \<union> set xs. \<not> lt (f j) (f (foldl (\<lambda>b i. if lt (f i) (f b) then i else b) x xs)))"
  using assms(3-)
proof (induction xs arbitrary: x S)
  case (Cons y ys)
  define x' where "x' = (if lt (f y) (f x) then y else x)"
  have irr: "\<not> lt (f a) (f a)" if "a \<in> A" for a using assms(1) [OF that that] by blast
  have x': "x' \<in> A" "x' \<in> {x, y}" using Cons.prems by (auto simp: x'_def)
  have "\<forall>j\<in>insert y S. \<not> lt (f j) (f x')"
  proof
    fix j assume "j \<in> insert y S"
    then consider "j = y" | "j \<in> S" by blast
    then show "\<not> lt (f j) (f x')"
    proof cases
      case 1
      then show ?thesis using irr [of y] Cons.prems by (simp add: x'_def)
    next
      case 2
      then have "j \<in> A" "x \<in> A" "y \<in> A" "\<not> lt (f j) (f x)" using Cons.prems by auto
      then show ?thesis using assms(1) [of y x] assms(2) [of j x y] by (simp add: x'_def)
    qed
  qed
  moreover have "insert y S \<subseteq> A" "set ys \<subseteq> A" using Cons.prems by auto
  ultimately have IH: "foldl (\<lambda>b i. if lt (f i) (f b) then i else b) x' ys \<in> insert x' (set ys) \<and>
      (\<forall>j\<in>insert y S \<union> set ys. \<not> lt (f j) (f (foldl (\<lambda>b i. if lt (f i) (f b) then i else b) x' ys)))"
    using Cons.IH [of x' "insert y S"] x'(1) by blast
  have "foldl (\<lambda>b i. if lt (f i) (f b) then i else b) x (y # ys) =
      foldl (\<lambda>b i. if lt (f i) (f b) then i else b) x' ys" by (simp add: x'_def)
  with IH x'(2) show ?case by (simp only:) auto
qed simp

lemma foldl_argmin_on:
  fixes lt :: "'b \<Rightarrow> 'b \<Rightarrow> bool" and f :: "'a \<Rightarrow> 'b"
  assumes asym: "\<And>a b. a \<in> A \<Longrightarrow> b \<in> A \<Longrightarrow> lt (f a) (f b) \<Longrightarrow> \<not> lt (f b) (f a)"
    and trans: "\<And>a b c. a \<in> A \<Longrightarrow> b \<in> A \<Longrightarrow> c \<in> A \<Longrightarrow> \<not> lt (f a) (f b) \<Longrightarrow> \<not> lt (f b) (f c) \<Longrightarrow> \<not> lt (f a) (f c)"
    and sub: "set (x # xs) \<subseteq> A"
  shows "foldl (\<lambda>b i. if lt (f i) (f b) then i else b) x xs \<in> set (x # xs)"
    and "j \<in> set (x # xs) \<Longrightarrow> \<not> lt (f j) (f (foldl (\<lambda>b i. if lt (f i) (f b) then i else b) x xs))"
proof -
  have x: "x \<in> A" using sub by simp
  have "\<forall>j\<in>{x}. \<not> lt (f j) (f x)" using asym [OF x x] by blast
  from foldl_argmin_aux [where f = f and lt = lt and xs = xs, OF asym trans x _ _ this] sub x
  have *: "foldl (\<lambda>b i. if lt (f i) (f b) then i else b) x xs \<in> insert x (set xs) \<and>
     (\<forall>j\<in>{x} \<union> set xs. \<not> lt (f j) (f (foldl (\<lambda>b i. if lt (f i) (f b) then i else b) x xs)))"
    by simp
  from * show "foldl (\<lambda>b i. if lt (f i) (f b) then i else b) x xs \<in> set (x # xs)" by simp
  from * show "j \<in> set (x # xs) \<Longrightarrow> \<not> lt (f j) (f (foldl (\<lambda>b i. if lt (f i) (f b) then i else b) x xs))"
    by (auto simp del: foldl.simps)
qed

lemma foldl_argmin:
  fixes f :: "'a \<Rightarrow> 'b::linorder"
  shows "foldl (\<lambda>b i. if f i < f b then i else b) x xs \<in> set (x # xs)"
    and "j \<in> set (x # xs) \<Longrightarrow> f (foldl (\<lambda>b i. if f i < f b then i else b) x xs) \<le> f j"
  by (rule foldl_argmin_on [of UNIV "(<)" f x xs]; simp)
    (subst not_less [symmetric], rule foldl_argmin_on [of UNIV "(<)" f x xs]; simp)

lemma foldl_argmax:
  fixes f :: "'a \<Rightarrow> 'b::linorder"
  shows "foldl (\<lambda>b i. if f b < f i then i else b) x xs \<in> set (x # xs)"
    and "j \<in> set (x # xs) \<Longrightarrow> f j \<le> f (foldl (\<lambda>b i. if f b < f i then i else b) x xs)"
  by (rule foldl_argmin_on [of UNIV "\<lambda>a b. b < a" f x xs]; simp)
    (subst not_less [symmetric], rule foldl_argmin_on [of UNIV "\<lambda>a b. b < a" f x xs]; simp)

subsection \<open>Finite maps\<close>

lemma finite_dom_upd [simp]: "finite (dom (m(k \<mapsto> v))) \<longleftrightarrow> finite (dom m)"
  by simp

lemma card_dom_upd_le: "finite (dom m) \<Longrightarrow> card (dom (m(k \<mapsto> v))) \<le> Suc (card (dom m))"
  by (simp add: card_insert_if)

lemma card_dom_delete: "finite (dom m) \<Longrightarrow> m k = Some v \<Longrightarrow> Suc (card (dom (m(k := None)))) = card (dom m)"
  using card_Suc_Diff1 [of "dom m" k] by (simp add: domI)

end
