(* ===== verification/Float64.thy ===== *)
theory Float64
  imports Prelude "HOL-Library.Log_Nat"
begin

text \<open>
  Go's \<^verbatim>\<open>float64\<close>: IEEE 754 binary64 with round-to-nearest-even, gradual underflow, infinities and
  NaN. A finite value is kept as the rational it denotes (the sign of zero is not kept: no modelled
  expression divides by zero). The token buckets of the limiter and the weighted scores of the
  router compute with these operations.

  The lemmas give what the components rely on: rounding is monotone, leaves small integers alone,
  and comparisons with NaN are false.
\<close>

section \<open>Definitions\<close>

datatype float64 = Fin rat | PInf | NInf | NaN

text \<open>The exponent of the binade of a positive rational: the floor of its binary logarithm.\<close>

definition ilog2 :: "rat \<Rightarrow> int" where
  "ilog2 x =
     (let (p, q) = quotient_of x; e = bitlen p - bitlen q
      in if 2 powi e \<le> x then e else e - 1)"

definition round_half_even :: "rat \<Rightarrow> int" where
  "round_half_even y =
     (let f = \<lfloor>y\<rfloor>; d = y - of_int f
      in if d < 1 / 2 then f else if 1 / 2 < d then f + 1 else if even f then f else f + 1)"

text \<open>The exponent of the unit in the last place: 52 below the binade, and never below \<open>-1074\<close>.\<close>

definition ulp_exp :: "rat \<Rightarrow> int" where
  "ulp_exp x = max (ilog2 \<bar>x\<bar> - 52) (- 1074)"

definition round_rat :: "rat \<Rightarrow> rat" where
  "round_rat x =
     (if x = 0 then 0
      else of_int (round_half_even (x / 2 powi ulp_exp x)) * 2 powi ulp_exp x)"

definition f64 :: "rat \<Rightarrow> float64" where
  "f64 x =
     (let r = round_rat x
      in if 2 ^ 1024 \<le> r then PInf else if r \<le> - (2 ^ 1024) then NInf else Fin r)"

fun f64_lt :: "float64 \<Rightarrow> float64 \<Rightarrow> bool" where
  "f64_lt (Fin a) (Fin b) = (a < b)"
| "f64_lt (Fin a) PInf = True"
| "f64_lt NInf (Fin b) = True"
| "f64_lt NInf PInf = True"
| "f64_lt _ _ = False"

fun f64_eq :: "float64 \<Rightarrow> float64 \<Rightarrow> bool" where
  "f64_eq (Fin a) (Fin b) = (a = b)"
| "f64_eq PInf PInf = True"
| "f64_eq NInf NInf = True"
| "f64_eq _ _ = False"

definition f64_le :: "float64 \<Rightarrow> float64 \<Rightarrow> bool" where
  "f64_le a b \<longleftrightarrow> f64_lt a b \<or> f64_eq a b"

fun f64_neg :: "float64 \<Rightarrow> float64" where
  "f64_neg (Fin a) = Fin (- a)"
| "f64_neg PInf = NInf"
| "f64_neg NInf = PInf"
| "f64_neg NaN = NaN"

fun f64_add :: "float64 \<Rightarrow> float64 \<Rightarrow> float64" where
  "f64_add (Fin a) (Fin b) = f64 (a + b)"
| "f64_add PInf NInf = NaN"
| "f64_add NInf PInf = NaN"
| "f64_add NaN _ = NaN"
| "f64_add _ NaN = NaN"
| "f64_add PInf _ = PInf"
| "f64_add _ PInf = PInf"
| "f64_add NInf _ = NInf"
| "f64_add _ NInf = NInf"

definition f64_sub :: "float64 \<Rightarrow> float64 \<Rightarrow> float64" where
  "f64_sub a b = f64_add a (f64_neg b)"

definition f64_inf :: "int \<Rightarrow> float64" where
  "f64_inf s = (if s = 0 then NaN else if 0 < s then PInf else NInf)"

fun f64_sgn :: "float64 \<Rightarrow> int" where
  "f64_sgn (Fin a) = (if 0 < a then 1 else if a < 0 then - 1 else 0)"
| "f64_sgn PInf = 1"
| "f64_sgn NInf = - 1"
| "f64_sgn NaN = 0"

fun f64_mul :: "float64 \<Rightarrow> float64 \<Rightarrow> float64" where
  "f64_mul (Fin a) (Fin b) = f64 (a * b)"
| "f64_mul NaN _ = NaN"
| "f64_mul _ NaN = NaN"
| "f64_mul a b = f64_inf (f64_sgn a * f64_sgn b)"

text \<open>Division; a finite value by zero is an infinity of the dividend's sign.\<close>

fun f64_div :: "float64 \<Rightarrow> float64 \<Rightarrow> float64" where
  "f64_div (Fin a) (Fin b) = (if b = 0 then f64_inf (f64_sgn (Fin a)) else f64 (a / b))"
| "f64_div NaN _ = NaN"
| "f64_div _ NaN = NaN"
| "f64_div (Fin a) _ = Fin 0"
| "f64_div a (Fin b) = f64_inf (f64_sgn a * (if b < 0 then - 1 else 1))"
| "f64_div _ _ = NaN"

text \<open>\<^verbatim>\<open>float64(n)\<close>.\<close>

definition f64_of_int :: "int \<Rightarrow> float64" where
  "f64_of_int n = f64 (of_int n)"

definition trunc_rat :: "rat \<Rightarrow> int" where
  "trunc_rat x = (if 0 \<le> x then \<lfloor>x\<rfloor> else \<lceil>x\<rceil>)"

text \<open>
  \<^verbatim>\<open>int64(x)\<close> truncates; out of range Go leaves the result to the implementation, and the value
  here is the one amd64 gives.
\<close>

fun f64_to_int :: "float64 \<Rightarrow> int" where
  "f64_to_int (Fin a) =
     (if int64_ok (trunc_rat a) then trunc_rat a else MinInt64)"
| "f64_to_int _ = MinInt64"

text \<open>\<^verbatim>\<open>d.Seconds()\<close>: whole seconds plus the remaining nanoseconds divided by \<open>1e9\<close>.\<close>

definition dur_seconds :: "duration \<Rightarrow> float64" where
  "dur_seconds d =
     f64_add (f64_of_int (go_div d Second)) (f64_div (f64_of_int (go_mod d Second)) (f64_of_int Second))"

section \<open>Rounding\<close>

lemma ilog2_bounds:
  assumes "0 < x"
  shows "2 powi (ilog2 x) \<le> x" and "x < 2 powi (ilog2 x + 1)"
proof -
  obtain p q where pq: "quotient_of x = (p, q)" by (cases "quotient_of x")
  then have q: "0 < q" and x: "x = of_int p / of_int q"
    by (auto simp: quotient_of_denom_pos quotient_of_div)
  from assms q x have p: "0 < p" by (simp add: zero_less_divide_iff)
  have bp: "1 \<le> bitlen p" "1 \<le> bitlen q"
    using p q bitlen_nonneg [of p] bitlen_nonneg [of q] bitlen_eq_zero_iff [of p]
      bitlen_eq_zero_iff [of q] by linarith+
  have pow: "(2::rat) powi k = of_int (2 ^ nat k)" if "0 \<le> k" for k
    using that by (simp add: power_int_def)
  have up: "of_int z < (2::rat) powi bitlen z" if "0 < z" for z :: int
    using bitlen_bounds [OF that] bitlen_nonneg [of z]
    by (simp only: pow of_int_less_iff)
  have lo: "(2::rat) powi (bitlen z - 1) \<le> of_int z" if "0 < z" "1 \<le> bitlen z" for z :: int
    using bitlen_bounds [OF that(1)] that(2) by (simp add: pow del: of_int_power)
  let ?e = "bitlen p - bitlen q"
  have "x < 2 powi bitlen p / 2 powi (bitlen q - 1)"
    unfolding x using up [OF p] lo [OF q bp(2)] p q by (intro frac_less) auto
  also have "\<dots> = 2 powi (?e + 1)" by (simp add: power_int_diff [symmetric] algebra_simps)
  finally have hi: "x < 2 powi (?e + 1)" .
  have "2 powi (?e - 1) = (2::rat) powi (bitlen p - 1) / 2 powi bitlen q"
    by (simp add: power_int_diff [symmetric] algebra_simps)
  also have "\<dots> \<le> x" unfolding x using up [OF q] lo [OF p bp(1)] p q by (intro frac_le) auto
  finally have low: "2 powi (?e - 1) \<le> x" .
  show "2 powi (ilog2 x) \<le> x" "x < 2 powi (ilog2 x + 1)"
    using hi low by (auto simp: ilog2_def pq Let_def)
qed

lemma ilog2_mono:
  assumes "0 < x" "x \<le> y"
  shows "ilog2 x \<le> ilog2 y"
proof (rule ccontr)
  assume "\<not> ilog2 x \<le> ilog2 y"
  then have "(2::rat) powi (ilog2 y + 1) \<le> 2 powi (ilog2 x)"
    by (intro power_int_increasing) auto
  with ilog2_bounds(1) [of x] ilog2_bounds(2) [of y] assms show False by simp
qed

lemma round_half_even_int [simp]: "round_half_even (of_int n) = n"
  by (simp add: round_half_even_def)

lemma round_half_even_mono: "x \<le> y \<Longrightarrow> round_half_even x \<le> round_half_even y"
proof -
  assume le: "x \<le> y"
  have fl: "\<lfloor>x\<rfloor> \<le> \<lfloor>y\<rfloor>" using le by (rule floor_mono)
  have b: "\<lfloor>z\<rfloor> \<le> round_half_even z \<and> round_half_even z \<le> \<lfloor>z\<rfloor> + 1" for z
    by (simp add: round_half_even_def Let_def)
  show ?thesis
  proof (cases "\<lfloor>x\<rfloor> = \<lfloor>y\<rfloor>")
    case True
    then show ?thesis using le by (auto simp: round_half_even_def Let_def)
  next
    case False
    with fl b [of x] b [of y] show ?thesis by linarith
  qed
qed

lemma round_half_even_minus: "round_half_even (- y) = - round_half_even y"
proof (cases "y = of_int \<lfloor>y\<rfloor>")
  case True
  then show ?thesis by (metis of_int_minus round_half_even_int)
next
  case False
  then have "\<lfloor>- y\<rfloor> = - \<lfloor>y\<rfloor> - 1"
    by (simp add: floor_minus ceiling_altdef)
  then show ?thesis by (auto simp: round_half_even_def Let_def)
qed

lemma round_rat_minus: "round_rat (- x) = - round_rat x"
  by (simp add: round_rat_def ulp_exp_def round_half_even_minus)

lemma ulp_exp_minus [simp]: "ulp_exp (- x) = ulp_exp x"
  by (simp add: ulp_exp_def)

text \<open>A multiple of the unit in the last place that bounds a value bounds its rounding.\<close>

lemma round_rat_le_mult:
  assumes "x \<le> of_int n * 2 powi ulp_exp x" "x \<noteq> 0"
  shows "round_rat x \<le> of_int n * 2 powi ulp_exp x"
proof -
  have "x / 2 powi ulp_exp x \<le> of_int n" using assms(1) by (simp add: field_simps)
  from round_half_even_mono [OF this] have "round_half_even (x / 2 powi ulp_exp x) \<le> n" by simp
  then show ?thesis using assms(2) by (simp add: round_rat_def)
qed

lemma round_rat_ge_mult:
  assumes "of_int n * 2 powi ulp_exp x \<le> x" "x \<noteq> 0"
  shows "of_int n * 2 powi ulp_exp x \<le> round_rat x"
proof -
  have "of_int n \<le> x / 2 powi ulp_exp x" using assms(1) by (simp add: field_simps)
  from round_half_even_mono [OF this] have "n \<le> round_half_even (x / 2 powi ulp_exp x)" by simp
  then show ?thesis using assms(2) by (simp add: round_rat_def)
qed

lemma round_rat_0 [simp]: "round_rat 0 = 0"
  by (simp add: round_rat_def)

lemma round_rat_nonneg: "0 \<le> x \<Longrightarrow> 0 \<le> round_rat x"
  using round_rat_ge_mult [of 0 x] by (cases "x = 0") auto

lemma powi_multiple: "u \<le> k \<Longrightarrow> (2::rat) powi k = of_int (2 ^ nat (k - u)) * 2 powi u"
  by (simp add: power_int_add [symmetric] flip: power_int_of_nat)

lemma round_rat_mono_pos:
  assumes "0 < x" "x \<le> y"
  shows "round_rat x \<le> round_rat y"
proof (cases "ulp_exp x = ulp_exp y")
  case True
  have "x / 2 powi ulp_exp y \<le> y / 2 powi ulp_exp y" using assms by (simp add: divide_right_mono)
  from round_half_even_mono [OF this] show ?thesis using assms True by (simp add: round_rat_def)
next
  case False
  have m: "ilog2 x \<le> ilog2 y" using assms by (rule ilog2_mono)
  with False assms have lt: "ilog2 x < ilog2 y" and ux: "ulp_exp x \<le> ilog2 y" and uy: "ulp_exp y \<le> ilog2 y"
    by (auto simp: ulp_exp_def)
  have "x \<le> 2 powi (ilog2 x + 1)" using ilog2_bounds(2) [of x] assms by simp
  also have "\<dots> \<le> 2 powi (ilog2 y)" using lt by (intro power_int_increasing) auto
  finally have "round_rat x \<le> 2 powi (ilog2 y)"
    using round_rat_le_mult [of x "2 ^ nat (ilog2 y - ulp_exp x)"] assms powi_multiple [OF ux] by simp
  also have "\<dots> \<le> round_rat y"
    using round_rat_ge_mult [of "2 ^ nat (ilog2 y - ulp_exp y)" y] ilog2_bounds(1) [of y] assms
      powi_multiple [OF uy] by simp
  finally show ?thesis .
qed

lemma round_rat_mono: "x \<le> y \<Longrightarrow> round_rat x \<le> round_rat y"
proof (cases "0 < x")
  case True
  then show "x \<le> y \<Longrightarrow> ?thesis" by (rule round_rat_mono_pos)
next
  case False
  assume le: "x \<le> y"
  show ?thesis
  proof (cases "0 \<le> y")
    case True
    have "0 \<le> round_rat (- x)" using False by (intro round_rat_nonneg) simp
    with True show ?thesis using round_rat_nonneg [of y] by (simp add: round_rat_minus)
  next
    case y: False
    with le have "round_rat (- y) \<le> round_rat (- x)" by (intro round_rat_mono_pos) auto
    then show ?thesis by (simp add: round_rat_minus)
  qed
qed

lemma round_rat_int_pos:
  assumes "0 < n" "n \<le> 2 ^ 53"
  shows "round_rat (of_int n) = of_int n"
proof -
  let ?e = "ilog2 (of_int n)" and ?u = "ulp_exp (of_int n)"
  have "(2::rat) powi ?e \<le> of_int n" using ilog2_bounds(1) [of "of_int n"] assms by simp
  also have "\<dots> \<le> of_int (2 ^ 53)" using assms(2) by (simp only: of_int_le_iff)
  also have "\<dots> = 2 powi 53" by simp
  finally have le: "2 powi ?e \<le> (2::rat) powi 53" and n: "2 powi ?e \<le> rat_of_int n"
    using ilog2_bounds(1) [of "of_int n"] assms by auto
  from power_int_le_imp_le_exp [OF _ le] have e: "?e \<le> 53" by simp
  have k: "\<exists>k. rat_of_int n = of_int k * 2 powi ?u"
  proof (cases "?e = 53")
    case True
    with n have "rat_of_int (2 ^ 53) \<le> of_int n" by simp
    then have "n = 2 ^ 53" using assms(2) by (simp only: of_int_le_iff)
    then show ?thesis using True by (intro exI [of _ "2 ^ 52"]) (simp add: ulp_exp_def)
  next
    case False
    with e assms(1) have "?u \<le> 0" by (auto simp: ulp_exp_def)
    from powi_multiple [OF this] have "rat_of_int n = of_int (n * 2 ^ nat (- ?u)) * 2 powi ?u" by simp
    then show ?thesis by blast
  qed
  then obtain k where k: "rat_of_int n = of_int k * 2 powi ?u" by blast
  then have "rat_of_int n / 2 powi ?u = of_int k" by (simp add: field_simps)
  then show ?thesis using assms k by (simp add: round_rat_def)
qed

lemma round_rat_int:
  assumes "\<bar>n\<bar> \<le> 2 ^ 53"
  shows "round_rat (of_int n) = of_int n"
proof (cases "0 < n")
  case True
  with assms show ?thesis by (intro round_rat_int_pos) auto
next
  case False
  with assms show ?thesis
    using round_rat_int_pos [of "- n"] round_rat_minus [of "of_int n"] by (cases "n = 0") auto
qed

section \<open>Operations\<close>

lemma f64_le_simps [simp]:
  "f64_le (Fin a) (Fin b) = (a \<le> b)"
  "f64_le NaN x = False" "f64_le x NaN = False"
  "f64_le x PInf = (x \<noteq> NaN)" "f64_le NInf x = (x \<noteq> NaN)"
  "f64_le PInf (Fin b) = False" "f64_le (Fin b) NInf = False" "f64_le PInf NInf = False"
  by (cases x; auto simp: f64_le_def)+

lemma f64_nan [simp]: "\<not> f64_lt NaN x" "\<not> f64_lt x NaN"
  by (cases x; simp)+

lemma f64_add_nan [simp]: "f64_add NaN x = NaN" "f64_add x NaN = NaN"
  by (cases x; simp)+

lemma f64_mul_nan [simp]: "f64_mul x NaN = NaN"
  by (cases x; simp)

lemma small_int_less: "\<bar>n\<bar> \<le> 2 ^ 53 \<Longrightarrow> \<bar>rat_of_int n\<bar> < 2 ^ 1024"
proof -
  assume n: "\<bar>n\<bar> \<le> 2 ^ 53"
  have "(of_int \<bar>n\<bar> :: rat) \<le> of_int (2 ^ 53)" using n by (simp only: of_int_le_iff)
  also have "\<dots> < 2 ^ 1024" by simp
  finally show ?thesis by simp
qed

text \<open>A value between two small integers rounds to a finite value between them.\<close>

lemma f64_between:
  assumes "of_int i \<le> x" "x \<le> of_int j" "\<bar>i\<bar> \<le> 2 ^ 53" "\<bar>j\<bar> \<le> 2 ^ 53"
  shows "\<exists>r. f64 x = Fin r \<and> of_int i \<le> r \<and> r \<le> of_int j"
proof -
  have "of_int i \<le> round_rat x" "round_rat x \<le> of_int j"
    using round_rat_mono [OF assms(1)] round_rat_mono [OF assms(2)]
      round_rat_int [OF assms(3)] round_rat_int [OF assms(4)] by auto
  then show ?thesis
    using small_int_less [OF assms(3)] small_int_less [OF assms(4)]
    by (auto simp: f64_def Let_def abs_less_iff)
qed

lemma f64_of_int_exact: "\<bar>n\<bar> \<le> 2 ^ 53 \<Longrightarrow> f64_of_int n = Fin (of_int n)"
  using small_int_less [of n] round_rat_int [of n] by (auto simp: f64_of_int_def f64_def Let_def abs_less_iff)

lemma f64_nonneg: "0 \<le> x \<Longrightarrow> f64 x = PInf \<or> (\<exists>r. f64 x = Fin r \<and> 0 \<le> r)"
  using round_rat_nonneg [of x] by (auto simp: f64_def Let_def)

end
