(* ===== verification/Auth.thy ===== *)
theory Auth
  imports Float64
begin

text \<open>
  API keys and the key store (\<^verbatim>\<open>src/internal/auth\<close>): the key grammar with \<^verbatim>\<open>Generate\<close> and
  \<^verbatim>\<open>Parse\<close>, the encoding of stored hashes, the users file and its validation, the in-memory store
  and \<^verbatim>\<open>Lookup\<close>.

  Parameters: \<open>hmac\<close> is HMAC-SHA-256 (only its result is used), \<open>check\<close>/\<open>decode\<close> stand for the
  YAML package, random bytes are arguments (\<open>None\<close> when the source of randomness fails), and the
  current time is an argument.
\<close>

section \<open>Definitions\<close>

subsection \<open>Records of the users file\<close>

record key_limits =
  RequestsPerSecond :: float64
  Burst :: int
  ConcurrentRequests :: int
  TokensPerHour :: int
  TokensPerDay :: int

record key =
  ID :: string
  Name :: string
  SecretHash :: string
  Enabled :: bool
  ExpiresAt :: "time option"
  Models :: "string list"
  Limits :: key_limits

record users_file =
  Version :: int
  Keys :: "key list"

definition ModelWildcard :: string where
  "ModelWildcard = ''*''"

definition Allows :: "key \<Rightarrow> string \<Rightarrow> bool" where
  "Allows k model \<longleftrightarrow> (\<exists>m \<in> set (Models k). m = model \<or> m = ModelWildcard)"

subsection \<open>The key grammar\<close>

definition Prefix :: string where "Prefix = ''sk''"
definition keyIDBytes :: nat where "keyIDBytes = 8"
definition secretBytes :: nat where "secretBytes = 32"
definition MaxRawKeyBytes :: nat where "MaxRawKeyBytes = 117"

fun usernamePattern :: "string \<Rightarrow> bool" where
  "usernamePattern [] = False"
| "usernamePattern (c # cs) =
     (is_lower c \<and> length cs \<le> 31 \<and> list_all (\<lambda>c. is_lower c \<or> is_digit c \<or> c = CHR ''_'') cs)"

definition lower_hex_char :: "char \<Rightarrow> bool" where
  "lower_hex_char c \<longleftrightarrow> is_digit c \<or> (97 \<le> byte_of c \<and> byte_of c \<le> 102)"

definition isLowerHex :: "string \<Rightarrow> nat \<Rightarrow> bool" where
  "isLowerHex s n \<longleftrightarrow> length s = n \<and> list_all lower_hex_char s"

text \<open>\<^verbatim>\<open>hex.EncodeToString\<close>.\<close>

definition hex_encode :: "bytes \<Rightarrow> string" where
  "hex_encode bs = concat (map (\<lambda>b. [hex_digit (byte_of b div 16), hex_digit (byte_of b mod 16)]) bs)"

datatype key_error = InvalidUsername | RandomID | RandomSecret | InvalidFormat

definition dash :: char where "dash = CHR ''-''"

definition Generate :: "string \<Rightarrow> bytes option \<Rightarrow> bytes option \<Rightarrow> key_error + (string \<times> string)" where
  "Generate username idb sb =
     (if \<not> usernamePattern username then Inl InvalidUsername
      else case idb of None \<Rightarrow> Inl RandomID
      | Some ib \<Rightarrow> (let kid = hex_encode ib in
          case sb of None \<Rightarrow> Inl RandomSecret
          | Some s \<Rightarrow> Inr (Prefix @ dash # username @ dash # kid @ dash # hex_encode s, kid)))"

record parsed =
  Raw :: string
  PID :: string
  Username :: string

definition Parse :: "string \<Rightarrow> key_error + parsed" where
  "Parse raw =
     (if MaxRawKeyBytes < length raw then Inl InvalidFormat
      else case split_on dash raw of
        [prefix, username, kid, secret] \<Rightarrow>
          (if prefix \<noteq> Prefix \<or> \<not> usernamePattern username
              \<or> \<not> isLowerHex kid (keyIDBytes * 2) \<or> \<not> isLowerHex secret (secretBytes * 2)
           then Inl InvalidFormat
           else Inr \<lparr>Raw = raw, PID = kid, Username = username\<rparr>)
      | _ \<Rightarrow> Inl InvalidFormat)"

subsection \<open>Unpadded base64 (\<^verbatim>\<open>base64.RawStdEncoding\<close>)\<close>

definition b64_char :: "nat \<Rightarrow> char" where
  "b64_char n =
     (if n < 26 then char_of (65 + n)
      else if n < 52 then char_of (71 + n)
      else if n < 62 then char_of (n - 4)
      else if n = 62 then CHR ''+'' else CHR 0x2F)"

definition b64_val :: "char \<Rightarrow> nat option" where
  "b64_val c =
     (let b = byte_of c in
      if 65 \<le> b \<and> b \<le> 90 then Some (b - 65)
      else if 97 \<le> b \<and> b \<le> 122 then Some (b - 71)
      else if 48 \<le> b \<and> b \<le> 57 then Some (b + 4)
      else if b = 43 then Some 62 else if b = 47 then Some 63 else None)"

fun b64_encode :: "nat list \<Rightarrow> nat list" where
  "b64_encode (a # b # c # r) =
     (a div 4) # (a mod 4 * 16 + b div 16) # (b mod 16 * 4 + c div 64) # (c mod 64) # b64_encode r"
| "b64_encode [a, b] = [a div 4, a mod 4 * 16 + b div 16, b mod 16 * 4]"
| "b64_encode [a] = [a div 4, a mod 4 * 16]"
| "b64_encode [] = []"

fun b64_decode :: "nat list \<Rightarrow> nat list option" where
  "b64_decode (a # b # c # d # r) =
     map_option (\<lambda>bs. (a * 4 + b div 16) # (b mod 16 * 16 + c div 4) # (c mod 4 * 64 + d) # bs)
       (b64_decode r)"
| "b64_decode [a, b, c] = Some [a * 4 + b div 16, b mod 16 * 16 + c div 4]"
| "b64_decode [a, b] = Some [a * 4 + b div 16]"
| "b64_decode [a] = None"
| "b64_decode [] = Some []"

text \<open>Carriage returns and line feeds are skipped by the decoder.\<close>

definition base64_decode :: "string \<Rightarrow> bytes option" where
  "base64_decode s =
     (let vs = map b64_val (filter (\<lambda>c. c \<noteq> CHR 0x0A \<and> c \<noteq> CHR 0x0D) s)
      in if None \<in> set vs then None
         else map_option (map char_of) (b64_decode (map the vs)))"

definition base64_encode :: "bytes \<Rightarrow> string" where
  "base64_encode bs = map b64_char (b64_encode (map byte_of bs))"

subsection \<open>Stored hashes\<close>

datatype hash_error = UnsupportedEncoding | MalformedHash

definition hash_prefix :: string where "hash_prefix = ''hmac-sha256:''"

definition ParseHashValue :: "string \<Rightarrow> hash_error + bytes" where
  "ParseHashValue stored =
     (if \<not> has_prefix stored hash_prefix then Inl UnsupportedEncoding
      else case base64_decode (trim_prefix stored hash_prefix) of
        None \<Rightarrow> Inl MalformedHash
      | Some raw \<Rightarrow> if length raw \<noteq> 32 then Inl MalformedHash else Inr raw)"

definition FormatHashValue :: "bytes \<Rightarrow> string" where
  "FormatHashValue h = hash_prefix @ base64_encode h"

definition Hash :: "(bytes \<Rightarrow> bytes \<Rightarrow> bytes) \<Rightarrow> bytes \<Rightarrow> string \<Rightarrow> bytes" where
  "Hash hmac pepper fullKey = hmac pepper fullKey"

subsection \<open>Validation of the users file\<close>

datatype limit_error = NegConcurrent | NegRate | NegBurst | NegHour | NegDay

definition validateLimits :: "key_limits \<Rightarrow> limit_error + unit" where
  "validateLimits l =
     (if ConcurrentRequests l < 0 then Inl NegConcurrent
      else if f64_lt (RequestsPerSecond l) (Fin 0) then Inl NegRate
      else if Burst l < 0 then Inl NegBurst
      else if TokensPerHour l < 0 then Inl NegHour
      else if TokensPerDay l < 0 then Inl NegDay
      else Inr ())"

datatype users_error =
    BadVersion int | BadID nat | DuplicateID string | NoName string | BadName string
  | BadHash string hash_error | NoModels string | BadLimits string limit_error
  | BadYAML | Unreadable | EditRefused string

text \<open>The body of the loop over \<^verbatim>\<open>uf.Keys\<close> for the key at index \<open>i\<close>, with the IDs seen so far.\<close>

definition validateKey :: "string list \<Rightarrow> nat \<Rightarrow> key \<Rightarrow> users_error + unit" where
  "validateKey seen i k =
     (if \<not> isLowerHex (ID k) 16 then Inl (BadID i)
      else if ID k \<in> set seen then Inl (DuplicateID (ID k))
      else if Name k = [] then Inl (NoName (ID k))
      else if \<not> usernamePattern (Name k) then Inl (BadName (ID k))
      else case ParseHashValue (SecretHash k) of
        Inl e \<Rightarrow> Inl (BadHash (ID k) e)
      | Inr _ \<Rightarrow>
          (if Models k = [] then Inl (NoModels (ID k))
           else case validateLimits (Limits k) of
             Inl e \<Rightarrow> Inl (BadLimits (ID k) e)
           | Inr _ \<Rightarrow> Inr ()))"

fun validateKeys :: "string list \<Rightarrow> nat \<Rightarrow> key list \<Rightarrow> users_error + unit" where
  "validateKeys seen i [] = Inr ()"
| "validateKeys seen i (k # ks) =
     (case validateKey seen i k of
        Inl e \<Rightarrow> Inl e
      | Inr _ \<Rightarrow> validateKeys (ID k # seen) (Suc i) ks)"

definition validateUsers :: "users_file \<Rightarrow> users_error + unit" where
  "validateUsers uf =
     (if Version uf \<noteq> 1 then Inl (BadVersion (Version uf)) else validateKeys [] 0 (Keys uf))"

text \<open>\<open>check\<close> is the tree and single-document check, \<open>decode\<close> the strict YAML decoder.\<close>

definition ParseUsers :: "(bytes \<Rightarrow> bool) \<Rightarrow> (bytes \<Rightarrow> users_file option) \<Rightarrow> bytes \<Rightarrow> users_error + users_file" where
  "ParseUsers check decode data =
     (if \<not> check data then Inl BadYAML
      else case decode data of
        None \<Rightarrow> Inl BadYAML
      | Some uf \<Rightarrow> (case validateUsers uf of Inl e \<Rightarrow> Inl e | Inr _ \<Rightarrow> Inr uf))"

text \<open>
  \<^verbatim>\<open>Update\<close> under its lock: \<open>loaded\<close> is the result of reading the file (\<open>Inr None\<close> when it does
  not exist), \<open>fn\<close> the edit; the result is the users file handed to the atomic replacement.
\<close>

definition Update ::
  "users_error + users_file option \<Rightarrow> (users_file \<Rightarrow> users_error + users_file) \<Rightarrow> users_error + users_file" where
  "Update loaded fn =
     (case loaded of
        Inl e \<Rightarrow> Inl e
      | Inr found \<Rightarrow>
          (let uf = (case found of None \<Rightarrow> \<lparr>Version = 1, Keys = []\<rparr> | Some u \<Rightarrow> u) in
           case fn uf of
             Inl e \<Rightarrow> Inl e
           | Inr uf' \<Rightarrow> (case validateUsers uf' of Inl e \<Rightarrow> Inl e | Inr _ \<Rightarrow> Inr uf')))"

definition ValidatePepper :: "bytes \<Rightarrow> bool" where
  "ValidatePepper pepper \<longleftrightarrow> 16 \<le> length pepper"

fun trim_right_crlf :: "string \<Rightarrow> string" where
  "trim_right_crlf s = rev (dropWhile (\<lambda>c. c = CHR 0x0A \<or> c = CHR 0x0D) (rev s))"

definition LoadPepper :: "bytes option \<Rightarrow> bytes option" where
  "LoadPepper content =
     (case content of None \<Rightarrow> None
      | Some d \<Rightarrow> (let p = trim_right_crlf d in if ValidatePepper p then Some p else None))"

subsection \<open>The store\<close>

definition DefaultConcurrentRequests :: int where "DefaultConcurrentRequests = 8"

record store =
  byID :: "string \<rightharpoonup> key"
  pepper :: bytes
  dummyHash :: bytes

definition normalizeKey :: "key \<Rightarrow> key" where
  "normalizeKey k =
     (if ConcurrentRequests (Limits k) = 0
      then k\<lparr>Limits := (Limits k)\<lparr>ConcurrentRequests := DefaultConcurrentRequests\<rparr>\<rparr>
      else k)"

fun fill_store :: "(string \<rightharpoonup> key) \<Rightarrow> key list \<Rightarrow> (string \<rightharpoonup> key)" where
  "fill_store m [] = m"
| "fill_store m (k # ks) = fill_store (m(ID k \<mapsto> normalizeKey k)) ks"

definition NewStore :: "users_file \<Rightarrow> bytes \<Rightarrow> bytes option \<Rightarrow> store option" where
  "NewStore uf pep rnd =
     (if pep = [] then None
      else case rnd of None \<Rightarrow> None
      | Some d \<Rightarrow> Some \<lparr>byID = fill_store Map.empty (Keys uf), pepper = pep, dummyHash = d\<rparr>)"

definition HasID :: "store \<Rightarrow> string \<Rightarrow> bool" where
  "HasID s i \<longleftrightarrow> byID s i \<noteq> None"

datatype lookup_error = ErrUnknownKey | ErrDisabled | ErrExpired

text \<open>
  \<^verbatim>\<open>Lookup\<close>. The dummy HMAC of the malformed case has no result and is not represented; for an
  unknown ID the comparison runs against the dummy hash and its outcome is discarded.
\<close>

definition Lookup ::
  "(bytes \<Rightarrow> bytes \<Rightarrow> bytes) \<Rightarrow> store \<Rightarrow> time \<Rightarrow> string \<Rightarrow> lookup_error + key" where
  "Lookup hmac s now rawKey =
     (case Parse rawKey of
        Inl _ \<Rightarrow> Inl ErrUnknownKey
      | Inr p \<Rightarrow>
          (case byID s (PID p) of
             None \<Rightarrow> Inl ErrUnknownKey
           | Some rec \<Rightarrow>
               (case ParseHashValue (SecretHash rec) of
                  Inl _ \<Rightarrow> Inl ErrUnknownKey
                | Inr stored \<Rightarrow>
                    (if Hash hmac (pepper s) (Raw p) \<noteq> stored then Inl ErrUnknownKey
                     else if Username p \<noteq> Name rec then Inl ErrUnknownKey
                     else if \<not> Enabled rec then Inl ErrDisabled
                     else case ExpiresAt rec of
                            Some t \<Rightarrow> if t < now then Inl ErrExpired else Inr rec
                          | None \<Rightarrow> Inr rec))))"

subsection \<open>Specifications\<close>

text \<open>The shape of a raw key, as one predicate: the abstract grammar \<open>Parse\<close> decides.\<close>

definition key_shape :: "string \<Rightarrow> string \<Rightarrow> string \<Rightarrow> string \<Rightarrow> bool" where
  "key_shape raw u i s \<longleftrightarrow>
     raw = ''sk-'' @ u @ ''-'' @ i @ ''-'' @ s \<and>
     usernamePattern u \<and> isLowerHex i 16 \<and> isLowerHex s 64"

text \<open>
  What a presented key must satisfy to be the stored record \<open>rec\<close>: the grammar, the ID, the
  keyed hash of the whole raw key, and the username.
\<close>

definition proves_key :: "(bytes \<Rightarrow> bytes \<Rightarrow> bytes) \<Rightarrow> store \<Rightarrow> string \<Rightarrow> key \<Rightarrow> bool" where
  "proves_key hmac s raw rec \<longleftrightarrow>
     (\<exists>i sec. key_shape raw (Name rec) i sec \<and> byID s i = Some rec \<and>
        ParseHashValue (SecretHash rec) = Inr (hmac (pepper s) raw))"

definition unexpired :: "time \<Rightarrow> key \<Rightarrow> bool" where
  "unexpired now rec \<longleftrightarrow> (case ExpiresAt rec of None \<Rightarrow> True | Some t \<Rightarrow> now \<le> t)"

section \<open>The key grammar\<close>

lemmas key_grammar_defs = Prefix_def keyIDBytes_def secretBytes_def MaxRawKeyBytes_def dash_def

lemma byte_dash [simp]: "byte_of (CHR ''-'') = 45" "byte_of (CHR ''_'') = 95"
  by (simp_all add: byte_of_def)

lemma usernamePattern_no_dash: "usernamePattern u \<Longrightarrow> dash \<notin> set u"
  by (cases u) (auto simp: dash_def is_lower_def is_digit_def list_all_iff)

lemma usernamePattern_length: "usernamePattern u \<Longrightarrow> 1 \<le> length u \<and> length u \<le> 32"
  by (cases u) auto

lemma lower_hex_no_dash: "isLowerHex s n \<Longrightarrow> dash \<notin> set s"
  by (auto simp: isLowerHex_def list_all_iff lower_hex_char_def dash_def is_digit_def)

lemma hex_digit_lower: "n < 16 \<Longrightarrow> lower_hex_char (hex_digit n)"
  by (auto simp: hex_digit_def lower_hex_char_def is_digit_def)

lemma hex_encode_isLowerHex: "isLowerHex (hex_encode bs) (2 * length bs)"
proof (induction bs)
  case (Cons b bs)
  have "byte_of b div 16 < 16" using byte_of_less [of b] by linarith
  with Cons show ?case by (simp add: isLowerHex_def hex_encode_def hex_digit_lower)
qed (simp add: isLowerHex_def hex_encode_def)

lemma key_shape_split: "key_shape raw u i s \<Longrightarrow> split_on dash raw = [''sk'', u, i, s]"
proof -
  assume k: "key_shape raw u i s"
  then have "raw = ''sk'' @ dash # u @ dash # i @ dash # s" by (simp add: key_shape_def dash_def)
  moreover have "dash \<notin> set ''sk''" by (simp add: dash_def)
  moreover have "dash \<notin> set u" "dash \<notin> set i" "dash \<notin> set s"
    using k usernamePattern_no_dash lower_hex_no_dash by (auto simp: key_shape_def)
  ultimately show ?thesis by (metis split_on_append_sep split_on_no_sep)
qed

lemma key_shape_length: "key_shape raw u i s \<Longrightarrow> length raw \<le> 117"
  using usernamePattern_length [of u] by (auto simp: key_shape_def isLowerHex_def)

lemma key_shape_Parse:
  "key_shape raw u i s \<Longrightarrow> Parse raw = Inr \<lparr>Raw = raw, PID = i, Username = u\<rparr>"
  using key_shape_length [of raw u i s] key_shape_split [of raw u i s]
  by (simp add: Parse_def key_grammar_defs(1-4) key_shape_def)

lemma Parse_key_shape:
  assumes "Parse raw = Inr p"
  shows "\<exists>s. key_shape raw (Username p) (PID p) s \<and> Raw p = raw"
proof -
  from assms obtain u i s where sp: "split_on dash raw = [''sk'', u, i, s]"
    and ok: "usernamePattern u" "isLowerHex i 16" "isLowerHex s 64"
    and p: "p = \<lparr>Raw = raw, PID = i, Username = u\<rparr>"
    by (auto simp: Parse_def key_grammar_defs(1-4) split: if_splits list.splits)
  have "raw = join_with dash [''sk'', u, i, s]" using join_split [of dash raw] sp by simp
  with ok p show ?thesis by (auto simp: key_shape_def dash_def)
qed

section \<open>Base64\<close>

lemma b64_val_char: "n < 64 \<Longrightarrow> b64_val (b64_char n) = Some n"
  by (auto simp: b64_val_def b64_char_def Let_def byte_of_def)

lemma b64_char_not_newline: "n < 64 \<Longrightarrow> b64_char n \<noteq> CHR 0x0A \<and> b64_char n \<noteq> CHR 0x0D"
proof -
  assume n: "n < 64"
  have v: "b64_val (CHR 0x0A) = None" "b64_val (CHR 0x0D) = None"
    by (simp_all add: b64_val_def byte_of_def)
  show ?thesis using b64_val_char [OF n] v by auto
qed

lemma b64_encode_range: "\<forall>b \<in> set bs. b < 256 \<Longrightarrow> \<forall>v \<in> set (b64_encode bs). v < 64"
proof (induction bs rule: b64_encode.induct)
  case (1 a b c r)
  then have "a div 4 < 64" "b div 16 < 16" "c div 64 < 4" by auto
  with 1 show ?case by auto
qed auto

lemma b64_roundtrip: "\<forall>b \<in> set bs. b < 256 \<Longrightarrow> b64_decode (b64_encode bs) = Some bs"
proof (induction bs rule: b64_encode.induct)
  case (1 a b c r)
  then have "b div 16 < 16" "c div 64 < 4" by auto
  with 1 show ?case by (simp add: div_add1_eq)
next
  case (2 a b)
  then have "b div 16 < 16" by auto
  with 2 show ?case by (simp add: div_add1_eq)
qed auto

lemma base64_roundtrip: "base64_decode (base64_encode bs) = Some bs"
proof -
  let ?vs = "b64_encode (map byte_of bs)"
  have r: "\<forall>v \<in> set ?vs. v < 64" by (rule b64_encode_range) auto
  then have f: "filter (\<lambda>c. c \<noteq> CHR 0x0A \<and> c \<noteq> CHR 0x0D) (map b64_char ?vs) = map b64_char ?vs"
    by (auto simp: filter_id_conv b64_char_not_newline)
  have m: "map b64_val (map b64_char ?vs) = map Some ?vs"
    using r by (simp add: b64_val_char)
  have d: "b64_decode ?vs = Some (map byte_of bs)" by (rule b64_roundtrip) auto
  show ?thesis
    unfolding base64_decode_def base64_encode_def Let_def f m
    by (auto simp: d comp_def)
qed

section \<open>Validation and the store\<close>

lemma validateKey_Inr:
  "validateKey seen i k = Inr u \<longleftrightarrow>
     isLowerHex (ID k) 16 \<and> ID k \<notin> set seen \<and> usernamePattern (Name k) \<and>
     (\<exists>h. ParseHashValue (SecretHash k) = Inr h) \<and> Models k \<noteq> [] \<and> validateLimits (Limits k) = Inr ()"
  by (cases "Name k") (auto simp: validateKey_def split: sum.splits)

lemma validateKeys_Inr:
  "validateKeys seen i ks = Inr u \<Longrightarrow>
     distinct (map ID ks) \<and> set (map ID ks) \<inter> set seen = {} \<and> (\<forall>k \<in> set ks. \<exists>s j. validateKey s j k = Inr ())"
proof (induction ks arbitrary: seen i)
  case (Cons k ks)
  from Cons.prems have k: "validateKey seen i k = Inr ()" and ks: "validateKeys (ID k # seen) (Suc i) ks = Inr u"
    by (auto split: sum.splits)
  from Cons.IH [OF ks] k show ?case by (auto simp: validateKey_Inr)
qed simp

lemma fill_store_notin: "i \<notin> set (map ID ks) \<Longrightarrow> fill_store m ks i = m i"
  by (induction ks arbitrary: m) auto

lemma normalizeKey_ID [simp]: "ID (normalizeKey k) = ID k"
  by (simp add: normalizeKey_def)

lemma fill_store_in:
  "distinct (map ID ks) \<Longrightarrow> k \<in> set ks \<Longrightarrow> fill_store m ks (ID k) = Some (normalizeKey k)"
  by (induction ks arbitrary: m) (auto simp: fill_store_notin)

lemma fill_store_Some:
  "fill_store m ks i = Some r \<Longrightarrow> (\<exists>k \<in> set ks. ID k = i \<and> r = normalizeKey k) \<or> m i = Some r"
  by (induction ks arbitrary: m) (fastforce split: if_splits)+

section \<open>Properties\<close>

text \<open>
  a raw key is accepted by \<^verbatim>\<open>Parse\<close> exactly when it is
  \<^verbatim>\<open>sk-<username>-<16 lowercase hex>-<64 lowercase hex>\<close> with a valid username, and then the three
  fields of the result are the raw key and those two segments; the length bound never refuses a
  well-formed key.
\<close>

theorem Parse_iff_grammar:
  "Parse raw = Inr p \<longleftrightarrow>
     (\<exists>u i s. key_shape raw u i s \<and> p = \<lparr>Raw = raw, PID = i, Username = u\<rparr>)"
  using Parse_key_shape [of raw p] key_shape_Parse [of raw]
  by (metis (full_types) parsed.surjective old.unit.exhaust)

lemma Lookup_not_proved: "\<not> (\<exists>rec. proves_key hmac s raw rec) \<Longrightarrow> Lookup hmac s now raw = Inl ErrUnknownKey"
  by (auto simp: Lookup_def proves_key_def Hash_def split: sum.splits option.splits dest!: Parse_key_shape)
    blast+

lemma Lookup_proved:
  "proves_key hmac s raw rec \<Longrightarrow>
   Lookup hmac s now raw =
     (if \<not> Enabled rec then Inl ErrDisabled else if unexpired now rec then Inr rec else Inl ErrExpired)"
  by (auto simp: Lookup_def proves_key_def Hash_def unexpired_def dest!: key_shape_Parse split: option.splits)

lemma proves_key_unique: "proves_key hmac s raw r1 \<Longrightarrow> proves_key hmac s raw r2 \<Longrightarrow> r1 = r2"
  by (auto simp: proves_key_def dest!: key_shape_Parse)

text \<open>
  C5: authentication. \<^verbatim>\<open>Lookup\<close> returns a record exactly when the presented key proves that record
  (grammar, ID, keyed hash of the whole raw key, username) and the record is enabled and not
  expired; it says "disabled" or "expired" only to a caller who proved the key, and every other
  input gets the one answer "unknown key".
\<close>

theorem Lookup_spec:
  "Lookup hmac s now raw =
     (if \<exists>rec. proves_key hmac s raw rec
      then let rec = (THE rec. proves_key hmac s raw rec)
           in if \<not> Enabled rec then Inl ErrDisabled
              else if unexpired now rec then Inr rec else Inl ErrExpired
      else Inl ErrUnknownKey)"
proof (cases "\<exists>rec. proves_key hmac s raw rec")
  case True
  then obtain rec where r: "proves_key hmac s raw rec" by blast
  then have "(THE rec. proves_key hmac s raw rec) = rec"
    using proves_key_unique by blast
  with r show ?thesis by (auto simp: Lookup_proved Let_def)
next
  case False
  then show ?thesis by (simp add: Lookup_not_proved)
qed

lemma Generate_shape:
  assumes "Generate u (Some ib) (Some sb) = Inr (raw, kid)" "length ib = 8" "length sb = 32"
  shows "key_shape raw u kid (hex_encode sb)"
proof -
  from assms(1) have u: "usernamePattern u" and kid: "kid = hex_encode ib"
    and raw: "raw = Prefix @ dash # u @ dash # kid @ dash # hex_encode sb"
    by (auto simp: Generate_def Let_def split: if_splits)
  moreover have "isLowerHex (hex_encode ib) 16" "isLowerHex (hex_encode sb) 64"
    using hex_encode_isLowerHex [of ib] hex_encode_isLowerHex [of sb] assms(2,3) by simp_all
  ultimately show ?thesis by (simp add: key_shape_def Prefix_def dash_def)
qed

lemma ParseHashValue_Format: "length h = 32 \<Longrightarrow> ParseHashValue (FormatHashValue h) = Inr h"
  by (simp add: ParseHashValue_def FormatHashValue_def base64_roundtrip)

lemma generated_key_lookup:
  assumes "Generate u (Some ib) (Some sb) = Inr (raw, kid)" "length ib = 8" "length sb = 32"
    and "\<And>p m. length (hmac p m) = 32"
    and "NewStore uf pep (Some d) = Some st"
    and "k \<in> set (Keys uf)" "distinct (map ID (Keys uf))"
    and "ID k = kid" "Name k = u" "SecretHash k = FormatHashValue (Hash hmac pep raw)"
    and "Enabled k" "unexpired now k"
  shows "Lookup hmac st now raw = Inr (normalizeKey k)"
proof -
  have st: "byID st = fill_store Map.empty (Keys uf)" "pepper st = pep"
    using assms(5) by (auto simp: NewStore_def split: if_splits)
  have "byID st kid = Some (normalizeKey k)"
    using fill_store_in [OF assms(7,6)] assms(8) st by simp
  moreover have "ParseHashValue (SecretHash k) = Inr (hmac pep raw)"
    using assms(4,10) by (simp add: ParseHashValue_Format Hash_def)
  ultimately have "proves_key hmac st raw (normalizeKey k)"
    using Generate_shape [OF assms(1,2,3)] assms(9) st
    by (auto simp: proves_key_def normalizeKey_def)
  then show ?thesis using assms(11,12) by (simp add: Lookup_proved normalizeKey_def unexpired_def)
qed

text \<open>
  C34: a key made by \<^verbatim>\<open>Generate\<close> and entered in a users file as \<^verbatim>\<open>FormatHashValue\<close> of its keyed hash
  under its ID and username is authenticated by the store built from that file, as the record of
  that entry with the store's concurrency default filled in.
\<close>

theorem generated_key_authenticates:
  assumes "Generate u (Some ib) (Some sb) = Inr (raw, kid)" "length ib = 8" "length sb = 32"
    and "\<And>p m. length (hmac p m) = 32"
    and "NewStore uf pep (Some d) = Some st"
    and "k \<in> set (Keys uf)" "distinct (map ID (Keys uf))"
    and "ID k = kid" "Name k = u" "SecretHash k = FormatHashValue (Hash hmac pep raw)"
    and "Enabled k" "unexpired now k"
  shows "Lookup hmac st now raw = Inr (normalizeKey k)"
  by (rule generated_key_lookup) (fact assms)+

text \<open>
  in a store built from a users file that validates, every record comes from an entry of the
  file with that ID, and no record is unbounded: each allows at least one and a bounded number of
  concurrent requests, an entry without a limit gets the default of 8.
\<close>

theorem validated_store_bounded:
  assumes "validateUsers uf = Inr ()" "NewStore uf pep (Some d) = Some st" "byID st i = Some rec"
  shows "(\<exists>k \<in> set (Keys uf). ID k = i \<and> rec = normalizeKey k) \<and> 1 \<le> ConcurrentRequests (Limits rec)"
proof -
  have "fill_store Map.empty (Keys uf) i = Some rec"
    using assms(2,3) by (auto simp: NewStore_def split: if_splits)
  then obtain k where k: "k \<in> set (Keys uf)" "ID k = i" "rec = normalizeKey k"
    by (auto dest: fill_store_Some)
  have "validateKeys [] 0 (Keys uf) = Inr ()"
    using assms(1) by (simp add: validateUsers_def split: if_splits)
  from validateKeys_Inr [OF this] k have "0 \<le> ConcurrentRequests (Limits k)"
    by (auto simp: validateKey_Inr validateLimits_def split: if_splits)
  with k show ?thesis by (auto simp: normalizeKey_def DefaultConcurrentRequests_def)
qed

subsection \<open>Witnesses\<close>

definition ex_hmac :: "bytes \<Rightarrow> bytes \<Rightarrow> bytes" where
  "ex_hmac p m = take 32 (rev m @ replicate 32 (CHR ''0''))"

definition ex_id :: bytes where "ex_id = replicate 8 (CHR ''a'')"
definition ex_secret :: bytes where "ex_secret = replicate 32 (CHR ''b'')"
definition ex_raw :: string where
  "ex_raw = ''sk-alice-'' @ hex_encode ex_id @ ''-'' @ hex_encode ex_secret"

definition ex_key :: key where
  "ex_key = \<lparr>ID = hex_encode ex_id, Name = ''alice'',
     SecretHash = FormatHashValue (Hash ex_hmac (replicate 16 (CHR ''p'')) ex_raw),
     Enabled = True, ExpiresAt = Some 100, Models = [''*''],
     Limits = \<lparr>RequestsPerSecond = Fin 0, Burst = 0, ConcurrentRequests = 0, TokensPerHour = 0, TokensPerDay = 0\<rparr>\<rparr>"

definition ex_users :: users_file where
  "ex_users = \<lparr>Version = 1, Keys = [ex_key]\<rparr>"

definition ex_store :: store where
  "ex_store = \<lparr>byID = fill_store Map.empty [ex_key], pepper = replicate 16 (CHR ''p''), dummyHash = []\<rparr>"

lemma ex_store_New: "NewStore ex_users (replicate 16 (CHR ''p'')) (Some []) = Some ex_store"
  by (simp add: NewStore_def ex_users_def ex_store_def)

lemma ex_Generate: "Generate ''alice'' (Some ex_id) (Some ex_secret) = Inr (ex_raw, hex_encode ex_id)"
  by (simp add: Generate_def Let_def ex_raw_def Prefix_def dash_def is_lower_def byte_of_def)

theorem generated_key_authenticates_witness: "Lookup ex_hmac ex_store 50 ex_raw = Inr (normalizeKey ex_key)"
  by (rule generated_key_authenticates [OF ex_Generate _ _ _ ex_store_New])
    (simp_all add: ex_id_def ex_secret_def ex_hmac_def ex_users_def ex_key_def unexpired_def)

lemma ex_users_valid: "validateUsers ex_users = Inr ()"
proof -
  have "isLowerHex (hex_encode ex_id) 16"
    using hex_encode_isLowerHex [of ex_id] by (simp add: ex_id_def)
  moreover have "ParseHashValue (SecretHash ex_key) = Inr (ex_hmac (replicate 16 (CHR ''p'')) ex_raw)"
    by (simp add: ex_key_def Hash_def ParseHashValue_Format ex_hmac_def)
  moreover have "usernamePattern ''alice''" by (simp add: is_lower_def byte_of_def)
  ultimately have "validateKey [] 0 ex_key = Inr ()"
    by (auto simp: validateKey_Inr ex_key_def validateLimits_def)
  then show ?thesis by (simp add: validateUsers_def ex_users_def)
qed

theorem validated_store_bounded_witness:
  "\<exists>rec. byID ex_store (ID ex_key) = Some rec \<and> 1 \<le> ConcurrentRequests (Limits rec)"
  using validated_store_bounded [OF ex_users_valid ex_store_New, of "ID ex_key"]
  by (simp add: ex_store_def)

end
