(* ===== verification/Slots.thy ===== *)
theory Slots
  imports Prelude
begin

text \<open>
  The interface of a pool of slots taken without waiting: what Go's buffered channels give where the
  program uses them as counting semaphores (the per-key concurrency bound, the global in-flight
  bound, the concurrency channel of a backend's admission). A client that gives back only what it
  took can rely on the pool never being over-committed, whatever the order of the operations.
\<close>

datatype slot_op = Take | Give

locale slot_pool =
  fixes inv :: "'s \<Rightarrow> bool"
    and limit :: "'s \<Rightarrow> int"
    and held :: "'s \<Rightarrow> int"
    and acquire :: "'s \<Rightarrow> 's \<times> bool"
    and release :: "'s \<Rightarrow> 's"
  assumes bound: "inv s \<Longrightarrow> 0 \<le> held s \<and> held s \<le> limit s"
    and acquire_free: "inv s \<Longrightarrow> held s < limit s \<Longrightarrow>
      \<exists>s'. acquire s = (s', True) \<and> inv s' \<and> held s' = held s + 1 \<and> limit s' = limit s"
    and acquire_full: "inv s \<Longrightarrow> held s = limit s \<Longrightarrow> acquire s = (s, False)"
    and release_held: "inv s \<Longrightarrow> 0 < held s \<Longrightarrow>
      inv (release s) \<and> held (release s) = held s - 1 \<and> limit (release s) = limit s"
begin

text \<open>A script of clients: \<open>n\<close> slots are out; a \<open>Give\<close> with none out is no operation.\<close>

fun script :: "'s \<Rightarrow> nat \<Rightarrow> slot_op list \<Rightarrow> 's \<times> nat" where
  "script s n [] = (s, n)"
| "script s n (Take # ops) = (case acquire s of (s', ok) \<Rightarrow> script s' (if ok then n + 1 else n) ops)"
| "script s n (Give # ops) = (if n = 0 then script s n ops else script (release s) (n - 1) ops)"

lemma acquire_cases:
  assumes "inv s"
  obtains (free) s' where "acquire s = (s', True)" "inv s'" "held s' = held s + 1" "limit s' = limit s" "held s < limit s"
    | (full) "acquire s = (s, False)" "held s = limit s"
  using bound [OF assms] acquire_free [OF assms] acquire_full [OF assms] by fastforce

lemma script_inv:
  assumes "inv s" "held s = int n"
  shows "case script s n ops of (s', n') \<Rightarrow> inv s' \<and> held s' = int n' \<and> limit s' = limit s"
  using assms
proof (induction ops arbitrary: s n)
  case (Cons p ops)
  show ?case
  proof (cases p)
    case Take
    from Cons.prems(1) show ?thesis
    proof (cases rule: acquire_cases)
      case (free s')
      with Cons.IH [of s' "n + 1"] Cons.prems Take show ?thesis by auto
    next
      case full
      with Cons.IH [of s n] Cons.prems Take show ?thesis by auto
    qed
  next
    case Give
    show ?thesis
    proof (cases n)
      case 0
      with Cons.IH [of s n] Cons.prems Give show ?thesis by auto
    next
      case (Suc m)
      with Cons.prems have "0 < held s" by simp
      from release_held [OF Cons.prems(1) this] Suc Give Cons.IH [of "release s" m] Cons.prems
      show ?thesis by auto
    qed
  qed
qed simp

lemma script_bound:
  assumes "inv s" "held s = int n" "script s n ops = (s', n')"
  shows "int n' \<le> limit s"
  using script_inv [OF assms(1,2), of ops] bound [of s'] assms(3) by auto

lemma refused_iff_full: "inv s \<Longrightarrow> \<not> snd (acquire s) \<longleftrightarrow> held s = limit s"
  by (erule acquire_cases) auto

end

end
