(* ===== verification/Limiter.thy ===== *)
theory Limiter
  imports Auth Slots
begin

text \<open>
  Admission limits (\<^verbatim>\<open>src/internal/limiter/limiter.go\<close>): token buckets, per-key concurrency bounds, the
  per-key registry with its carry-over across reloads, and the bounded per-source registry.

  Buckets and concurrency bounds are Go pointers shared between generations of the registry and by
  the release closures of requests in flight, so they live in an explicit heap and the registry
  holds their addresses. Every method body runs under its mutex and is one function here. The
  order in which Go ranges over a map is an argument of the operations that depend on it.
\<close>

section \<open>Definitions\<close>

subsection \<open>Token bucket\<close>

record bucket =
  b_rate :: float64
  b_cap :: float64
  b_avail :: float64
  b_last :: time

definition NewBucket :: "float64 \<Rightarrow> int \<Rightarrow> bucket option" where
  "NewBucket rate burst =
     (if f64_le rate (Fin 0) then None
      else let burst' = (if burst < 1 then 1 else burst)
           in Some \<lparr>b_rate = rate, b_cap = f64_of_int burst', b_avail = Fin 0, b_last = 0\<rparr>)"

text \<open>The lazy refill at the head of \<^verbatim>\<open>Bucket.Allow\<close>.\<close>

definition refill :: "bucket \<Rightarrow> time \<Rightarrow> bucket" where
  "refill b now =
     (if b_last b < now then
        let elapsed = dur_seconds (time_sub now (b_last b));
            avail = f64_add (b_avail b) (f64_mul elapsed (b_rate b))
        in b\<lparr>b_last := now, b_avail := (if f64_lt (b_cap b) avail then b_cap b else avail)\<rparr>
      else b)"

definition bucket_allow :: "bucket \<Rightarrow> time \<Rightarrow> bucket \<times> bool \<times> duration" where
  "bucket_allow b now =
     (let b = refill b now in
      if f64_le (Fin 1) (b_avail b) then (b\<lparr>b_avail := f64_sub (b_avail b) (Fin 1)\<rparr>, True, 0)
      else (b, False,
            f64_to_int (f64_div (f64_mul (f64_of_int Second) (f64_sub (Fin 1) (b_avail b))) (b_rate b))))"

definition bucket_match :: "bucket \<Rightarrow> float64 \<Rightarrow> int \<Rightarrow> bool" where
  "bucket_match b rate burst \<longleftrightarrow> f64_eq (b_rate b) rate \<and> f64_eq (b_cap b) (f64_of_int burst)"

subsection \<open>Concurrency bound\<close>

text \<open>\<open>c_bounded\<close> says that the channel is not nil, \<open>c_held\<close> is the number of tokens in it.\<close>

record concurrency =
  c_bounded :: bool
  c_limit :: int
  c_held :: int

definition NewConcurrency :: "int \<Rightarrow> concurrency" where
  "NewConcurrency limit =
     (if limit < 1 then \<lparr>c_bounded = False, c_limit = 0, c_held = 0\<rparr>
      else \<lparr>c_bounded = True, c_limit = limit, c_held = 0\<rparr>)"

definition conc_acquire :: "concurrency \<Rightarrow> concurrency \<times> bool" where
  "conc_acquire c =
     (if \<not> c_bounded c then (c, True)
      else if c_held c < c_limit c then (c\<lparr>c_held := c_held c + 1\<rparr>, True)
      else (c, False))"

text \<open>The release closure of a successful acquire: it receives from the channel if there is one.\<close>

definition conc_release :: "concurrency \<Rightarrow> concurrency" where
  "conc_release c = (if c_bounded c then c\<lparr>c_held := c_held c - 1\<rparr> else c)"

subsection \<open>The per-key registry\<close>

type_synonym addr = nat

record limit_heap =
  buckets :: "addr \<rightharpoonup> bucket"
  concs :: "addr \<rightharpoonup> concurrency"
  next_addr :: addr

record key_state =
  ks_bucket :: "addr option"
  ks_concur :: addr

record registry =
  r_keys :: "string \<rightharpoonup> key_state"
  r_carry :: "string \<rightharpoonup> addr"
  r_carryConc :: "string \<rightharpoonup> addr"

definition empty_heap :: limit_heap where
  "empty_heap = \<lparr>buckets = Map.empty, concs = Map.empty, next_addr = 0\<rparr>"

definition alloc_bucket :: "limit_heap \<Rightarrow> bucket \<Rightarrow> limit_heap \<times> addr" where
  "alloc_bucket h b = (h\<lparr>buckets := (buckets h)(next_addr h \<mapsto> b), next_addr := next_addr h + 1\<rparr>, next_addr h)"

definition alloc_conc :: "limit_heap \<Rightarrow> concurrency \<Rightarrow> limit_heap \<times> addr" where
  "alloc_conc h c = (h\<lparr>concs := (concs h)(next_addr h \<mapsto> c), next_addr := next_addr h + 1\<rparr>, next_addr h)"

definition NewRegistry :: registry where
  "NewRegistry = \<lparr>r_keys = Map.empty, r_carry = Map.empty, r_carryConc = Map.empty\<rparr>"

text \<open>
  \<^verbatim>\<open>NewRegistryCarrying\<close>: the carried snapshot of the previous generation, in which materialized
  state supersedes older carried state key by key, restricted to the keys \<open>keep\<close> accepts
  (\<open>None\<close> is the nil function). The loop over \<^verbatim>\<open>prev.keys\<close> touches one key per iteration, so its effect
  is given per key.
\<close>

definition NewRegistryCarrying :: "registry option \<Rightarrow> (string \<Rightarrow> bool) option \<Rightarrow> registry" where
  "NewRegistryCarrying prev keep =
     (case prev of
        None \<Rightarrow> NewRegistry
      | Some p \<Rightarrow>
          (let carry = (\<lambda>i. case r_keys p i of Some ks \<Rightarrow> ks_bucket ks | None \<Rightarrow> r_carry p i);
               carryConc = (\<lambda>i. case r_keys p i of Some ks \<Rightarrow> Some (ks_concur ks) | None \<Rightarrow> r_carryConc p i);
               kept = (case keep of None \<Rightarrow> UNIV | Some f \<Rightarrow> {i. f i})
           in \<lparr>r_keys = Map.empty, r_carry = carry |` kept, r_carryConc = carryConc |` kept\<rparr>))"

definition derivedBurst :: "float64 \<Rightarrow> int \<Rightarrow> int" where
  "derivedBurst rate burst = (if burst < 1 then max (f64_to_int rate) 1 else burst)"

definition reg_build :: "limit_heap \<Rightarrow> registry \<Rightarrow> key \<Rightarrow> limit_heap \<times> key_state" where
  "reg_build h r k =
     (let want = (if ConcurrentRequests (Limits k) < 1 then 0 else ConcurrentRequests (Limits k));
          reuse = (case r_carryConc r (ID k) of
                     None \<Rightarrow> None
                   | Some a \<Rightarrow> (case concs h a of
                                  None \<Rightarrow> None
                                | Some c \<Rightarrow> if c_limit c \<noteq> want then None else Some a));
          (h1, ca) = (case reuse of
                        Some a \<Rightarrow> (h, a)
                      | None \<Rightarrow> alloc_conc h (NewConcurrency (ConcurrentRequests (Limits k))))
      in if f64_lt (Fin 0) (RequestsPerSecond (Limits k)) then
           (case NewBucket (RequestsPerSecond (Limits k))
                   (derivedBurst (RequestsPerSecond (Limits k)) (Burst (Limits k))) of
              None \<Rightarrow> (h1, \<lparr>ks_bucket = None, ks_concur = ca\<rparr>)
            | Some b \<Rightarrow> (let (h2, ba) = alloc_bucket h1 b in (h2, \<lparr>ks_bucket = Some ba, ks_concur = ca\<rparr>)))
         else (h1, \<lparr>ks_bucket = None, ks_concur = ca\<rparr>))"

definition reg_for :: "limit_heap \<Rightarrow> registry \<Rightarrow> key \<Rightarrow> limit_heap \<times> registry \<times> key_state" where
  "reg_for h r k =
     (case r_keys r (ID k) of
        Some ks \<Rightarrow> (h, r, ks)
      | None \<Rightarrow>
          (let (h1, ks) = reg_build h r k;
               burst = derivedBurst (RequestsPerSecond (Limits k)) (Burst (Limits k));
               ks' = (case r_carry r (ID k) of
                        None \<Rightarrow> ks
                      | Some a \<Rightarrow>
                          (case buckets h1 a of
                             None \<Rightarrow> ks
                           | Some b \<Rightarrow> if bucket_match b (RequestsPerSecond (Limits k)) burst
                                       then ks\<lparr>ks_bucket := Some a\<rparr> else ks))
           in (h1, r\<lparr>r_keys := (r_keys r)(ID k \<mapsto> ks')\<rparr>, ks')))"

definition AllowRate :: "limit_heap \<Rightarrow> key_state \<Rightarrow> time \<Rightarrow> limit_heap \<times> bool \<times> duration" where
  "AllowRate h ks now =
     (case ks_bucket ks of
        None \<Rightarrow> (h, True, 0)
      | Some a \<Rightarrow>
          (case buckets h a of
             None \<Rightarrow> (h, True, 0)
           | Some b \<Rightarrow> (let (b', ok, ra) = bucket_allow b now in (h\<lparr>buckets := (buckets h)(a \<mapsto> b')\<rparr>, ok, ra))))"

definition AcquireConcurrency :: "limit_heap \<Rightarrow> key_state \<Rightarrow> limit_heap \<times> bool" where
  "AcquireConcurrency h ks =
     (case concs h (ks_concur ks) of
        None \<Rightarrow> (h, False)
      | Some c \<Rightarrow> (let (c', ok) = conc_acquire c in (h\<lparr>concs := (concs h)(ks_concur ks \<mapsto> c')\<rparr>, ok)))"

definition ReleaseConcurrency :: "limit_heap \<Rightarrow> addr \<Rightarrow> limit_heap" where
  "ReleaseConcurrency h a =
     (case concs h a of None \<Rightarrow> h | Some c \<Rightarrow> h\<lparr>concs := (concs h)(a \<mapsto> conc_release c)\<rparr>)"

subsection \<open>The per-source registry\<close>

record source_state =
  s_rate :: bucket
  s_last :: time

record source_registry =
  sr_cap :: int
  sr_rate :: float64
  sr_burst :: int
  sr_srcs :: "string \<rightharpoonup> source_state"

definition NewSourceRegistry :: "float64 \<Rightarrow> int \<Rightarrow> int \<Rightarrow> source_registry option" where
  "NewSourceRegistry rate burst cap =
     (if f64_le rate (Fin 0) then None
      else Some \<lparr>sr_cap = (if cap < 1 then 1 else cap), sr_rate = rate,
                 sr_burst = (if burst < 1 then 1 else burst), sr_srcs = Map.empty\<rparr>)"

definition evictProbeBudget :: nat where "evictProbeBudget = 64"

text \<open>
  The probing loop of \<^verbatim>\<open>evictOldest\<close> over the map in range order \<open>order\<close>, as the source it keeps
  (\<open>None\<close> while \<^verbatim>\<open>first\<close> holds).
\<close>

fun probe_oldest :: "(string \<rightharpoonup> source_state) \<Rightarrow> (string \<times> time) option \<Rightarrow> string list \<Rightarrow> (string \<times> time) option" where
  "probe_oldest srcs best [] = best"
| "probe_oldest srcs best (ip # ips) =
     (case srcs ip of
        None \<Rightarrow> probe_oldest srcs best ips
      | Some st \<Rightarrow>
          (case best of
             None \<Rightarrow> probe_oldest srcs (Some (ip, s_last st)) ips
           | Some (o', t) \<Rightarrow>
               probe_oldest srcs (if s_last st < t then Some (ip, s_last st) else Some (o', t)) ips))"

definition evictOldest :: "string list \<Rightarrow> source_registry \<Rightarrow> source_registry" where
  "evictOldest order r =
     (let oldest = (case probe_oldest (sr_srcs r) None (take evictProbeBudget order) of
                      None \<Rightarrow> [] | Some (ip, _) \<Rightarrow> ip)
      in r\<lparr>sr_srcs := (sr_srcs r)(oldest := None)\<rparr>)"

definition source_allow ::
  "string list \<Rightarrow> source_registry \<Rightarrow> string \<Rightarrow> time \<Rightarrow> source_registry \<times> bool \<times> duration" where
  "source_allow order r ip now =
     (let r1 = (case sr_srcs r ip of
             Some _ \<Rightarrow> r
           | None \<Rightarrow> if sr_cap r \<le> int (card (dom (sr_srcs r))) then evictOldest order r else r);
          bkt = (case sr_srcs r ip of
             Some st \<Rightarrow> Some (s_rate st)
           | None \<Rightarrow> NewBucket (sr_rate r1) (sr_burst r1))
      in case bkt of
           None \<Rightarrow> (r1, True, 0)
         | Some b \<Rightarrow>
             (let (b', ok, ra) = bucket_allow b now
              in (r1\<lparr>sr_srcs := (sr_srcs r1)(ip \<mapsto> \<lparr>s_rate = b', s_last = now\<rparr>)\<rparr>, ok, ra)))"

subsection \<open>Invariants and runs\<close>

text \<open>A bucket in use: a finite positive rate, an integral capacity, tokens between zero and it.\<close>

definition bucket_ok :: "int \<Rightarrow> bucket \<Rightarrow> bool" where
  "bucket_ok c b \<longleftrightarrow>
     1 \<le> c \<and> c \<le> 2 ^ 53 \<and> b_cap b = Fin (of_int c) \<and>
     (\<exists>r. b_rate b = Fin r \<and> 0 < r) \<and> (\<exists>a. b_avail b = Fin a \<and> 0 \<le> a \<and> a \<le> of_int c)"

fun bucket_run :: "bucket \<Rightarrow> time list \<Rightarrow> bucket \<times> nat" where
  "bucket_run b [] = (b, 0)"
| "bucket_run b (t # ts) =
     (let r = bucket_allow b t; q = bucket_run (fst r) ts
      in (fst q, (if fst (snd r) then snd q + 1 else snd q)))"

definition conc_ok :: "concurrency \<Rightarrow> bool" where
  "conc_ok c \<longleftrightarrow> c_bounded c \<and> 1 \<le> c_limit c \<and> 0 \<le> c_held c \<and> c_held c \<le> c_limit c"

definition sources_ok :: "source_registry \<Rightarrow> bool" where
  "sources_ok r \<longleftrightarrow>
     1 \<le> sr_cap r \<and> finite (dom (sr_srcs r)) \<and> int (card (dom (sr_srcs r))) \<le> sr_cap r"

text \<open>
  Requests and reloads in sequence: the heap, the current generation, and the requests in flight
  as pairs of key ID and the concurrency bound their release closure is bound to. \<open>Admit\<close> is the
  part of \<^verbatim>\<open>routeBody\<close> that takes the key's state from the registry and a slot from it; \<open>Finish\<close> runs
  the release closure of the request at that position; \<open>Reload\<close> is \<^verbatim>\<open>ReloadStore\<close>.
\<close>

record limit_sys =
  ls_heap :: limit_heap
  ls_reg :: registry
  ls_live :: "(string \<times> addr) list"

datatype limit_event = Admit key | Finish nat | Reload "string \<Rightarrow> bool"

fun limit_step :: "limit_sys \<Rightarrow> limit_event \<Rightarrow> limit_sys" where
  "limit_step s (Admit k) =
     (let (h1, r1, ks) = reg_for (ls_heap s) (ls_reg s) k;
          (h2, ok) = AcquireConcurrency h1 ks
      in \<lparr>ls_heap = h2, ls_reg = r1,
          ls_live = (if ok then (ID k, ks_concur ks) # ls_live s else ls_live s)\<rparr>)"
| "limit_step s (Finish n) =
     (if n < length (ls_live s)
      then s\<lparr>ls_heap := ReleaseConcurrency (ls_heap s) (snd (ls_live s ! n)),
             ls_live := take n (ls_live s) @ drop (Suc n) (ls_live s)\<rparr>
      else s)"
| "limit_step s (Reload keep) = s\<lparr>ls_reg := NewRegistryCarrying (Some (ls_reg s)) (Some keep)\<rparr>"

definition limit_run :: "limit_event list \<Rightarrow> limit_sys" where
  "limit_run evs = fold (\<lambda>e s. limit_step s e) evs \<lparr>ls_heap = empty_heap, ls_reg = NewRegistry, ls_live = []\<rparr>"

definition in_flight :: "limit_sys \<Rightarrow> string \<Rightarrow> nat" where
  "in_flight s i = length (filter (\<lambda>p. fst p = i) (ls_live s))"

text \<open>Events that keep the concurrency limit of key \<open>i\<close> at \<open>L\<close> and keep the key in the store.\<close>

fun limit_stable :: "string \<Rightarrow> int \<Rightarrow> limit_event \<Rightarrow> bool" where
  "limit_stable i L (Admit k) = (ID k = i \<longrightarrow> ConcurrentRequests (Limits k) = L)"
| "limit_stable i L (Finish n) = True"
| "limit_stable i L (Reload keep) = keep i"

text \<open>The concurrency bound a request of key \<open>i\<close> would be given now.\<close>

definition cur_conc :: "registry \<Rightarrow> string \<Rightarrow> addr option" where
  "cur_conc r i = (case r_keys r i of Some ks \<Rightarrow> Some (ks_concur ks) | None \<Rightarrow> r_carryConc r i)"

text \<open>The states of a source registry: each step ranges over the map in some order.\<close>

inductive source_reach :: "source_registry \<Rightarrow> source_registry \<Rightarrow> bool" for r0 where
  start: "source_reach r0 r0"
| step: "source_reach r0 r \<Longrightarrow> set order = dom (sr_srcs r) \<Longrightarrow> distinct order \<Longrightarrow>
     source_allow order r ip now = (r', ok, ra) \<Longrightarrow> source_reach r0 r'"

definition want_limit :: "key \<Rightarrow> int" where
  "want_limit k = (if ConcurrentRequests (Limits k) < 1 then 0 else ConcurrentRequests (Limits k))"

definition conc_wf :: "concurrency \<Rightarrow> bool" where
  "conc_wf c \<longleftrightarrow> conc_ok c \<or> (\<not> c_bounded c \<and> c_limit c = 0)"

definition held_by :: "limit_sys \<Rightarrow> addr \<Rightarrow> nat" where
  "held_by s a = length (filter (\<lambda>p. snd p = a) (ls_live s))"

definition owned :: "limit_sys \<Rightarrow> string \<Rightarrow> addr set" where
  "owned s i = {a. (\<exists>ks. r_keys (ls_reg s) i = Some ks \<and> a = ks_concur ks) \<or>
     r_carryConc (ls_reg s) i = Some a \<or> (i, a) \<in> set (ls_live s)}"

text \<open>
  The invariant of requests and reloads: addresses are allocated, no bound is shared by two keys,
  and the tokens in a bound's channel are the requests in flight that will release to it.
\<close>

definition limit_inv :: "limit_sys \<Rightarrow> bool" where
  "limit_inv s \<longleftrightarrow>
     (\<forall>a. next_addr (ls_heap s) \<le> a \<longrightarrow> concs (ls_heap s) a = None) \<and>
     (\<forall>i. owned s i \<subseteq> dom (concs (ls_heap s))) \<and>
     (\<forall>i j. i \<noteq> j \<longrightarrow> owned s i \<inter> owned s j = {}) \<and>
     (\<forall>a c. concs (ls_heap s) a = Some c \<longrightarrow>
        conc_wf c \<and> (c_bounded c \<longrightarrow> c_held c = int (held_by s a)))"

definition key_inv :: "string \<Rightarrow> int \<Rightarrow> limit_sys \<Rightarrow> bool" where
  "key_inv i L s \<longleftrightarrow>
     (\<forall>a. (i, a) \<in> set (ls_live s) \<longrightarrow> cur_conc (ls_reg s) i = Some a) \<and>
     (\<forall>a c. cur_conc (ls_reg s) i = Some a \<longrightarrow> concs (ls_heap s) a = Some c \<longrightarrow> c_limit c = L)"

section \<open>Token bucket\<close>

lemma dur_seconds_fin:
  assumes "0 \<le> d" "d \<le> MaxInt64"
  obtains e where "dur_seconds d = Fin e" "0 \<le> e" "e \<le> 2 ^ 53"
proof -
  let ?q = "d div Second" and ?m = "d mod Second"
  have q: "go_div d Second = ?q" "0 \<le> ?q" "?q \<le> 9223372036"
    using assms by (auto simp: go_div_def sgn_if pos_imp_zdiv_nonneg_iff)
  have m: "go_mod d Second = ?m" "0 \<le> ?m" "?m < Second"
    using assms go_mod_nonneg [of d Second] by auto
  have fq: "f64_of_int ?q = Fin (of_int ?q)" using q by (intro f64_of_int_exact) auto
  have fm: "f64_of_int ?m = Fin (of_int ?m)" using m by (intro f64_of_int_exact) auto
  have fs: "f64_of_int Second = Fin (of_int Second)" by (intro f64_of_int_exact) simp
  have "of_int 0 \<le> (of_int ?m :: rat) / of_int Second" "(of_int ?m :: rat) / of_int Second \<le> of_int 1"
    using m by (simp_all add: divide_le_eq)
  from f64_between [OF this] obtain g where g: "f64 (of_int ?m / of_int Second) = Fin g" "0 \<le> g" "g \<le> 1"
    by auto
  have "(of_int ?q :: rat) \<le> of_int 9223372036" using q by (simp only: of_int_le_iff)
  then have "of_int 0 \<le> of_int ?q + g" "of_int ?q + g \<le> of_int (2 ^ 53)" using q g by auto
  from f64_between [OF this] obtain e where e: "f64 (of_int ?q + g) = Fin e" "0 \<le> e" "e \<le> 2 ^ 53"
    by auto
  have "dur_seconds d = Fin e"
    using q m fq fm fs g e by (simp add: dur_seconds_def)
  with e that show ?thesis by blast
qed

lemma refill_ok:
  assumes "bucket_ok c b"
  shows "bucket_ok c (refill b now)" and "b_last b \<le> b_last (refill b now)"
proof -
  from assms obtain r a where r: "b_rate b = Fin r" "0 < r"
    and a: "b_avail b = Fin a" "0 \<le> a" "a \<le> of_int c" and c: "b_cap b = Fin (of_int c)"
    by (auto simp: bucket_ok_def)
  show "bucket_ok c (refill b now)"
  proof (cases "b_last b < now")
    case True
    have "0 \<le> time_sub now (b_last b)" "time_sub now (b_last b) \<le> MaxInt64"
      using True by (auto simp: time_sub_def)
    then obtain e where e: "dur_seconds (time_sub now (b_last b)) = Fin e" "0 \<le> e"
      by (rule dur_seconds_fin)
    have x: "f64 (e * r) = PInf \<or> (\<exists>x. f64 (e * r) = Fin x \<and> 0 \<le> x)"
      using e r by (intro f64_nonneg) simp
    have y: "f64 (a + x) = PInf \<or> (\<exists>y. f64 (a + x) = Fin y \<and> 0 \<le> y)" if "0 \<le> x" for x
      using that a by (intro f64_nonneg) simp
    from x have "f64_add (Fin a) (f64 (e * r)) = PInf \<or> (\<exists>y. f64_add (Fin a) (f64 (e * r)) = Fin y \<and> 0 \<le> y)"
    proof (elim disjE exE conjE)
      fix z assume "f64 (e * r) = Fin z" "0 \<le> z"
      then show ?thesis using y [of z] by simp
    qed simp
    then show ?thesis
      using assms True r a c e by (auto simp: bucket_ok_def refill_def Let_def)
  qed (use assms in \<open>simp add: refill_def\<close>)
  show "b_last b \<le> b_last (refill b now)" by (simp add: refill_def Let_def)
qed

lemma consume_ok:
  assumes "bucket_ok c b" "f64_le (Fin 1) (b_avail b)" "b_avail b = Fin a" "a \<le> of_int k" "k \<le> c"
  obtains a' where "f64_sub (b_avail b) (Fin 1) = Fin a'" "0 \<le> a'" "a' \<le> of_int (k - 1)"
proof -
  have a: "1 \<le> a" using assms by simp
  then have "(1::rat) \<le> of_int k" using assms(4) by linarith
  then have "1 \<le> k" by simp
  then have k: "\<bar>k - 1\<bar> \<le> 2 ^ 53" using assms by (auto simp: bucket_ok_def)
  have "of_int 0 \<le> a + - 1" "a + - 1 \<le> of_int (k - 1)" using a assms(4) by auto
  from f64_between [OF this _ k] show ?thesis using that assms(3) by (auto simp: f64_sub_def)
qed

lemma bucket_allow_ok: "bucket_ok c b \<Longrightarrow> bucket_ok c (fst (bucket_allow b now))"
proof -
  assume b: "bucket_ok c b"
  let ?b = "refill b now"
  have rb: "bucket_ok c ?b" using refill_ok [OF b] by simp
  then obtain a where a: "b_avail ?b = Fin a" "a \<le> of_int c" by (auto simp: bucket_ok_def)
  show ?thesis
  proof (cases "f64_le (Fin 1) (b_avail ?b)")
    case True
    from consume_ok [OF rb True a order.refl] obtain a' where
      "f64_sub (b_avail ?b) (Fin 1) = Fin a'" "0 \<le> a'" "a' \<le> of_int (c - 1)" .
    with True rb show ?thesis by (auto simp: bucket_allow_def Let_def bucket_ok_def)
  qed (use rb in \<open>simp add: bucket_allow_def Let_def\<close>)
qed

lemma refill_past: "now \<le> b_last b \<Longrightarrow> refill b now = b"
  by (simp add: refill_def)

lemma bucket_allow_last: "b_last (fst (bucket_allow b now)) = max (b_last b) now"
  by (simp add: bucket_allow_def refill_def Let_def)

lemma bucket_allow_past:
  assumes "bucket_ok c b" "b_avail b = Fin a" "a \<le> of_int k" "k \<le> c" "now \<le> b_last b"
    and "bucket_allow b now = (b', ok, ra)"
  shows "bucket_ok c b' \<and> b_last b' = b_last b \<and>
    (\<exists>a'. b_avail b' = Fin a' \<and> a' \<le> of_int (if ok then k - 1 else k)) \<and> (ok \<longrightarrow> 1 \<le> k)"
proof -
  have b': "bucket_ok c b'" "b_last b' = b_last b"
    using bucket_allow_ok [OF assms(1), of now] bucket_allow_last [of b now] assms(5,6) by auto
  show ?thesis
  proof (cases "f64_le (Fin 1) (b_avail b)")
    case True
    then have "(1::rat) \<le> of_int k" using assms(2,3) by simp
    then have "1 \<le> k" by simp
    from True assms obtain a' where "f64_sub (b_avail b) (Fin 1) = Fin a'" "a' \<le> of_int (k - 1)"
      using consume_ok [OF assms(1) True assms(2,3,4)] by blast
    with True b' \<open>1 \<le> k\<close> assms(5,6) show ?thesis
      by (auto simp: bucket_allow_def refill_past Let_def)
  next
    case False
    with b' assms show ?thesis by (auto simp: bucket_allow_def refill_past Let_def)
  qed
qed

lemma bucket_run_past:
  "bucket_ok c b \<Longrightarrow> b_avail b = Fin a \<Longrightarrow> a \<le> of_int (int k) \<Longrightarrow> int k \<le> c \<Longrightarrow>
     \<forall>t \<in> set ts. t \<le> b_last b \<Longrightarrow> snd (bucket_run b ts) \<le> k"
proof (induction ts arbitrary: b a k)
  case (Cons t ts)
  obtain b' ok ra where al: "bucket_allow b t = (b', ok, ra)" by (cases "bucket_allow b t") auto
  from bucket_allow_past [OF Cons.prems(1,2,3,4) _ al] Cons.prems(5)
  obtain a' where b': "bucket_ok c b'" "b_last b' = b_last b" "b_avail b' = Fin a'"
    and a': "a' \<le> of_int (if ok then int k - 1 else int k)" and k: "ok \<Longrightarrow> 1 \<le> k" by auto
  let ?k = "if ok then k - 1 else k"
  have "snd (bucket_run b' ts) \<le> ?k"
    using Cons.prems(4,5) a' b' k by (intro Cons.IH [OF b'(1,3)]) (auto simp: of_nat_diff)
  then show ?case using al k by (auto simp: Let_def)
qed simp

lemma bucket_run_burst:
  assumes "bucket_ok c b"
  shows "int (snd (bucket_run b (replicate n now))) \<le> c"
proof (cases n)
  case (Suc m)
  let ?r = "refill b now"
  have ok: "bucket_ok c ?r" using refill_ok [OF assms] by simp
  have last: "now \<le> b_last ?r" by (simp add: refill_def Let_def)
  have idem: "bucket_allow b now = bucket_allow ?r now"
    using refill_past [OF last] by (simp add: bucket_allow_def)
  have run: "bucket_run b (replicate n now) = bucket_run ?r (replicate n now)"
    using Suc idem by (simp add: Let_def)
  from ok obtain a where a: "b_avail ?r = Fin a" "a \<le> of_int (int (nat c))" "int (nat c) \<le> c"
    by (auto simp: bucket_ok_def)
  have "snd (bucket_run ?r (replicate n now)) \<le> nat c"
    using last by (intro bucket_run_past [OF ok a]) auto
  with ok show ?thesis unfolding run bucket_ok_def by linarith
qed (use assms in \<open>simp add: bucket_ok_def\<close>)

lemma bucket_run_ok: "bucket_ok c b \<Longrightarrow> bucket_ok c (fst (bucket_run b ts))"
proof (induction ts arbitrary: b)
  case (Cons t ts)
  from Cons.IH [OF bucket_allow_ok [OF Cons.prems]] show ?case by (simp add: Let_def)
qed simp

lemma bucket_run_append:
  "snd (bucket_run b (ts @ us)) = snd (bucket_run b ts) + snd (bucket_run (fst (bucket_run b ts)) us)"
  by (induction ts arbitrary: b) (simp_all add: Let_def)

lemma NewBucket_ok:
  assumes "0 < r" "burst \<le> 2 ^ 53"
  shows "\<exists>b. NewBucket (Fin r) burst = Some b \<and> bucket_ok (max burst 1) b"
  using assms f64_of_int_exact [of "max burst 1"]
  by (auto simp: NewBucket_def bucket_ok_def Let_def max_def)

section \<open>Concurrency bound\<close>

interpretation key_slots: slot_pool conc_ok c_limit c_held conc_acquire conc_release
  by unfold_locales (auto simp: conc_ok_def conc_acquire_def conc_release_def)

lemma NewConcurrency_ok: "1 \<le> limit \<Longrightarrow> conc_ok (NewConcurrency limit)"
  by (simp add: NewConcurrency_def conc_ok_def)

section \<open>The per-source registry\<close>

lemma probe_oldest_Some:
  "probe_oldest srcs (Some (o', t)) ips = Some (o'', t') \<Longrightarrow>
     ((o'' = o' \<and> t' = t) \<or> (o'' \<in> set ips \<and> (\<exists>st. srcs o'' = Some st \<and> t' = s_last st))) \<and> t' \<le> t \<and> (\<forall>ip \<in> set ips. \<forall>st. srcs ip = Some st \<longrightarrow> t' \<le> s_last st)"
proof (induction ips arbitrary: o' t)
  case (Cons ip ips)
  show ?case
  proof (cases "srcs ip")
    case None
    with Cons show ?thesis by auto
  next
    case (Some st)
    show ?thesis
    proof (cases "s_last st < t")
      case True
      with Some Cons.prems have "probe_oldest srcs (Some (ip, s_last st)) ips = Some (o'', t')" by simp
      from Cons.IH [OF this] True Some show ?thesis by auto
    next
      case False
      with Some Cons.prems have "probe_oldest srcs (Some (o', t)) ips = Some (o'', t')" by simp
      from Cons.IH [OF this] False Some show ?thesis by auto
    qed
  qed
qed simp

lemma probe_oldest_total: "\<exists>p. probe_oldest srcs (Some q) ips = Some p"
  by (induction ips arbitrary: q) (auto split: option.splits prod.splits)

lemma probe_oldest_None:
  assumes "set ips \<subseteq> dom srcs" "ips \<noteq> []"
  obtains ip t st0 where "probe_oldest srcs None ips = Some (ip, t)" "ip \<in> set ips"
    and "srcs ip = Some st0" "t = s_last st0"
    and "\<And>j st. j \<in> set ips \<Longrightarrow> srcs j = Some st \<Longrightarrow> t \<le> s_last st"
proof -
  from assms obtain j js st where j: "ips = j # js" "srcs j = Some st" by (cases ips) auto
  obtain ip t where p: "probe_oldest srcs (Some (j, s_last st)) js = Some (ip, t)"
    using probe_oldest_total by (metis surj_pair)
  note P = probe_oldest_Some [OF p]
  obtain st0 where st0: "srcs ip = Some st0" "t = s_last st0" "ip \<in> set ips" using P j by auto
  show ?thesis
  proof (rule that [OF _ st0(3,1,2)])
    show "probe_oldest srcs None ips = Some (ip, t)" using j p by simp
    show "t \<le> s_last st'" if "k \<in> set ips" "srcs k = Some st'" for k st'
      using P j that by auto
  qed
qed

lemma evictOldest_card:
  assumes "finite (dom (sr_srcs r))" "set order = dom (sr_srcs r)" "dom (sr_srcs r) \<noteq> {}"
  shows "Suc (card (dom (sr_srcs (evictOldest order r)))) = card (dom (sr_srcs r))"
    and "dom (sr_srcs (evictOldest order r)) \<subseteq> dom (sr_srcs r)"
proof -
  let ?p = "take evictProbeBudget order"
  have "set ?p \<subseteq> dom (sr_srcs r)" using assms(2) set_take_subset by fastforce
  moreover have "?p \<noteq> []" using assms(2,3) by (metis evictProbeBudget_def empty_set take_eq_Nil zero_neq_numeral)
  ultimately obtain ip t where p: "probe_oldest (sr_srcs r) None ?p = Some (ip, t)" "ip \<in> set ?p"
    by (rule probe_oldest_None) blast
  then have ip: "ip \<in> dom (sr_srcs r)" using assms(2) in_set_takeD by fastforce
  have ev: "sr_srcs (evictOldest order r) = (sr_srcs r)(ip := None)"
    using p by (simp add: evictOldest_def)
  from ip obtain st where "sr_srcs r ip = Some st" by blast
  with assms(1) show "Suc (card (dom (sr_srcs (evictOldest order r)))) = card (dom (sr_srcs r))"
    unfolding ev by (rule card_dom_delete)
  show "dom (sr_srcs (evictOldest order r)) \<subseteq> dom (sr_srcs r)" unfolding ev by auto
qed

lemma source_allow_sources_ok:
  assumes "sources_ok r" "set order = dom (sr_srcs r)" "source_allow order r ip now = (r', ok, ra)"
  shows "sources_ok r'"
proof -
  let ?full = "sr_cap r \<le> int (card (dom (sr_srcs r)))"
  define r1 where "r1 = (case sr_srcs r ip of Some _ \<Rightarrow> r | None \<Rightarrow> if ?full then evictOldest order r else r)"
  have fields: "sr_cap (evictOldest order r) = sr_cap r" by (simp add: evictOldest_def)
  have fin: "finite (dom (sr_srcs r))" and c: "1 \<le> sr_cap r" "int (card (dom (sr_srcs r))) \<le> sr_cap r"
    using assms(1) by (auto simp: sources_ok_def)
  have ne: "dom (sr_srcs r) \<noteq> {}" if "?full"
  proof
    assume "dom (sr_srcs r) = {}"
    with that c show False by simp
  qed
  have r1: "finite (dom (sr_srcs r1))" "sr_cap r1 = sr_cap r" "sources_ok r1"
    "sr_srcs r ip = None \<Longrightarrow> int (card (dom (sr_srcs r1))) < sr_cap r"
    "sr_srcs r ip \<noteq> None \<Longrightarrow> r1 = r"
    using assms(1) fin c ne evictOldest_card [OF fin assms(2) ne] fields finite_subset
    by (auto simp: r1_def sources_ok_def split: option.splits)
  have "r' = r1 \<or> (\<exists>st. r' = r1\<lparr>sr_srcs := (sr_srcs r1)(ip \<mapsto> st)\<rparr>)"
    using assms(3) by (auto simp: source_allow_def r1_def Let_def split: option.splits prod.splits)
  moreover have "int (card (dom ((sr_srcs r1)(ip \<mapsto> st)))) \<le> sr_cap r" for st
    using r1 card_dom_upd_le [OF r1(1), of ip st] c by (cases "sr_srcs r ip") (auto simp: insert_absorb domI)
  ultimately show ?thesis using r1 c by (auto simp: sources_ok_def)
qed

section \<open>Reloads\<close>

lemma reg_build_conc:
  assumes "reg_build h r k = (h1, ks)"
  shows "(\<exists>a c. r_carryConc r (ID k) = Some a \<and> concs h a = Some c \<and> c_limit c = want_limit k \<and>
            ks_concur ks = a \<and> concs h1 = concs h \<and> next_addr h \<le> next_addr h1) \<or>
         (ks_concur ks = next_addr h \<and>
            concs h1 = (concs h)(next_addr h \<mapsto> NewConcurrency (ConcurrentRequests (Limits k))) \<and>
            next_addr h < next_addr h1 \<and>
            (\<forall>a c. r_carryConc r (ID k) = Some a \<longrightarrow> concs h a = Some c \<longrightarrow> c_limit c \<noteq> want_limit k))"
  using assms
  by (auto simp: reg_build_def want_limit_def alloc_conc_def alloc_bucket_def Let_def
      split: if_splits option.splits prod.splits)

lemma NewConcurrency_wf:
  "conc_wf (NewConcurrency l)" "c_held (NewConcurrency l) = 0"
  "c_limit (NewConcurrency l) = (if l < 1 then 0 else l)"
  by (auto simp: NewConcurrency_def conc_wf_def conc_ok_def)

text \<open>What \<open>reg_for\<close> does to the concurrency bounds: it finds, carries over or allocates one.\<close>

lemma reg_for_conc:
  assumes "reg_for h r k = (h1, r1, ks)"
  obtains (found) "h1 = h" "r1 = r" "r_keys r (ID k) = Some ks"
    | (carried) a c where "r_keys r (ID k) = None" "r_carryConc r (ID k) = Some a" "concs h a = Some c"
        "c_limit c = want_limit k" "ks_concur ks = a" "concs h1 = concs h" "next_addr h \<le> next_addr h1"
        "r1 = r\<lparr>r_keys := (r_keys r)(ID k \<mapsto> ks)\<rparr>"
    | (fresh) "r_keys r (ID k) = None" "ks_concur ks = next_addr h"
        "concs h1 = (concs h)(next_addr h \<mapsto> NewConcurrency (ConcurrentRequests (Limits k)))"
        "next_addr h < next_addr h1"
        "\<And>a c. r_carryConc r (ID k) = Some a \<Longrightarrow> concs h a = Some c \<Longrightarrow> c_limit c \<noteq> want_limit k"
        "r1 = r\<lparr>r_keys := (r_keys r)(ID k \<mapsto> ks)\<rparr>"
proof (cases "r_keys r (ID k)")
  case (Some ks')
  then show ?thesis using assms found by (simp add: reg_for_def)
next
  case None
  obtain h' ks' where b: "reg_build h r k = (h', ks')" by (cases "reg_build h r k")
  have "h1 = h'" "ks_concur ks = ks_concur ks'" "r1 = r\<lparr>r_keys := (r_keys r)(ID k \<mapsto> ks)\<rparr>"
    using assms None b by (auto simp: reg_for_def Let_def split: option.splits)
  with reg_build_conc [OF b] None show ?thesis using carried fresh by metis
qed

lemma AcquireConcurrency_cases:
  assumes "AcquireConcurrency h ks = (h2, ok)" "concs h (ks_concur ks) = Some c" "conc_wf c"
  obtains c' where "concs h2 = (concs h)(ks_concur ks \<mapsto> c')" "next_addr h2 = next_addr h"
    "conc_wf c'" "c_bounded c' = c_bounded c" "c_limit c' = c_limit c"
    "c_bounded c \<Longrightarrow> c_held c' = c_held c + (if ok then 1 else 0)"
  using assms
  by (auto simp: AcquireConcurrency_def conc_acquire_def conc_wf_def conc_ok_def split: if_splits)

lemma limit_invI:
  assumes "\<And>a. next_addr (ls_heap s) \<le> a \<Longrightarrow> concs (ls_heap s) a = None"
    and "\<And>i a. a \<in> owned s i \<Longrightarrow> \<exists>c. concs (ls_heap s) a = Some c"
    and "\<And>i j a. i \<noteq> j \<Longrightarrow> a \<in> owned s i \<Longrightarrow> a \<notin> owned s j"
    and "\<And>a c. concs (ls_heap s) a = Some c \<Longrightarrow> conc_wf c"
    and "\<And>a c. concs (ls_heap s) a = Some c \<Longrightarrow> c_bounded c \<Longrightarrow> c_held c = int (held_by s a)"
  shows "limit_inv s"
  using assms by (fastforce simp: limit_inv_def)

lemma limit_invD:
  assumes "limit_inv s"
  shows "next_addr (ls_heap s) \<le> a \<Longrightarrow> concs (ls_heap s) a = None"
    and "a \<in> owned s i \<Longrightarrow> \<exists>c. concs (ls_heap s) a = Some c"
    and "i \<noteq> j \<Longrightarrow> a \<in> owned s i \<Longrightarrow> a \<notin> owned s j"
    and "concs (ls_heap s) a = Some c \<Longrightarrow> conc_wf c"
    and "concs (ls_heap s) a = Some c \<Longrightarrow> c_bounded c \<Longrightarrow> c_held c = int (held_by s a)"
  using assms unfolding limit_inv_def by blast+

text \<open>The registry part of an admission keeps the invariant, with the key's bound in the heap.\<close>

lemma reg_for_inv:
  assumes inv: "limit_inv s" and f: "reg_for (ls_heap s) (ls_reg s) k = (h1, r1, ks)"
  shows "limit_inv (s\<lparr>ls_heap := h1, ls_reg := r1\<rparr>)"
    and "ks_concur ks \<in> dom (concs h1)" and "r_keys r1 (ID k) = Some ks"
proof -
  let ?s = "s\<lparr>ls_heap := h1, ls_reg := r1\<rparr>" and ?h = "ls_heap s"
  note D = limit_invD [OF inv]
  have nown: "next_addr ?h \<notin> owned s i" for i using D(1) [of "next_addr ?h"] D(2) [of "next_addr ?h" i] by auto
  then have nlive: "held_by s (next_addr ?h) = 0"
    by (fastforce simp: held_by_def owned_def filter_empty_conv)
  have held: "held_by ?s a = held_by s a" for a by (simp add: held_by_def)
  from f have "limit_inv ?s \<and> ks_concur ks \<in> dom (concs h1) \<and> r_keys r1 (ID k) = Some ks"
  proof (cases rule: reg_for_conc)
    case found
    then have "ks_concur ks \<in> owned s (ID k)" by (simp add: owned_def)
    from D(2) [OF this] found show ?thesis using inv by auto
  next
    case (carried a c)
    have o: "owned ?s i = owned s i" for i using carried by (auto simp: owned_def)
    have "limit_inv ?s" by (rule limit_invI) (use carried D o held in auto)
    with carried show ?thesis by auto
  next
    case fresh
    have o: "owned ?s i = (if i = ID k then insert (next_addr ?h) (owned s i) else owned s i)" for i
      using fresh by (auto simp: owned_def)
    have "limit_inv ?s"
    proof (rule limit_invI)
      show "i \<noteq> j \<Longrightarrow> a \<in> owned ?s i \<Longrightarrow> a \<notin> owned ?s j" for i j a
        using D(3) nown by (auto simp: o split: if_splits)
    qed (use fresh D o nlive held NewConcurrency_wf in \<open>auto split: if_splits\<close>)
    with fresh show ?thesis by auto
  qed
  then show "limit_inv ?s" "ks_concur ks \<in> dom (concs h1)" "r_keys r1 (ID k) = Some ks" by auto
qed

lemma admit_inv:
  assumes "limit_inv s" shows "limit_inv (limit_step s (Admit k))"
proof -
  obtain h1 r1 ks where f: "reg_for (ls_heap s) (ls_reg s) k = (h1, r1, ks)" by (cases "reg_for (ls_heap s) (ls_reg s) k") auto
  obtain h2 ok where a: "AcquireConcurrency h1 ks = (h2, ok)" by (cases "AcquireConcurrency h1 ks")
  let ?s1 = "s\<lparr>ls_heap := h1, ls_reg := r1\<rparr>"
  define s2 where "s2 = limit_step s (Admit k)"
  note I = reg_for_inv [OF assms f]
  note D = limit_invD [OF I(1)]
  have s2: "s2 = \<lparr>ls_heap = h2, ls_reg = r1, ls_live = (if ok then (ID k, ks_concur ks) # ls_live s else ls_live s)\<rparr>"
    using f a by (simp add: s2_def)
  from I(2) obtain c where c: "concs h1 (ks_concur ks) = Some c" by auto
  have "conc_wf c" using D(4) c by simp
  then obtain c' where c': "concs h2 = (concs h1)(ks_concur ks \<mapsto> c')" "next_addr h2 = next_addr h1"
    "conc_wf c'" "c_bounded c' = c_bounded c" "c_bounded c \<Longrightarrow> c_held c' = c_held c + (if ok then 1 else 0)"
    using AcquireConcurrency_cases [OF a c] by metis
  have o: "owned s2 i = owned ?s1 i" for i using I(3) by (auto simp: s2 owned_def split: if_splits)
  have h: "held_by s2 a = held_by ?s1 a + (if ok \<and> a = ks_concur ks then 1 else 0)" for a
    by (auto simp: s2 held_by_def)
  have "limit_inv s2"
  proof (rule limit_invI)
    show "concs (ls_heap s2) a = None" if "next_addr (ls_heap s2) \<le> a" for a
      using that D(1) [of a] c c' by (auto simp: s2)
    show "\<exists>c. concs (ls_heap s2) a = Some c" if "a \<in> owned s2 i" for a i
      using that D(2) [of a i] c' unfolding o by (auto simp: s2)
    show "a \<notin> owned s2 j" if "i \<noteq> j" "a \<in> owned s2 i" for i j a
      using that D(3) [of i j a] unfolding o by auto
    show "conc_wf d" if "concs (ls_heap s2) a = Some d" for a d
      using that D(4) [of a d] c' by (auto simp: s2 split: if_splits)
    show "c_held d = int (held_by s2 a)" if "concs (ls_heap s2) a = Some d" "c_bounded d" for a d
      using that D(5) [of a d] D(5) [of a c] c c' unfolding h by (auto simp: s2 split: if_splits)
  qed
  then show ?thesis by (simp add: s2_def)
qed

lemma ReleaseConcurrency_concs:
  "concs h a = Some c \<Longrightarrow> concs (ReleaseConcurrency h a) = (concs h)(a \<mapsto> conc_release c)"
  "next_addr (ReleaseConcurrency h a) = next_addr h"
  by (auto simp: ReleaseConcurrency_def split: option.splits)

lemma conc_release_fields [simp]:
  "c_bounded (conc_release c) = c_bounded c" "c_limit (conc_release c) = c_limit c"
  by (simp_all add: conc_release_def)

lemma finish_inv:
  assumes "limit_inv s" shows "limit_inv (limit_step s (Finish n))"
proof (cases "n < length (ls_live s)")
  case True
  obtain i a where ia: "ls_live s ! n = (i, a)" by (cases "ls_live s ! n")
  define s2 where "s2 = limit_step s (Finish n)"
  have s2: "s2 = s\<lparr>ls_heap := ReleaseConcurrency (ls_heap s) a,
      ls_live := take n (ls_live s) @ drop (Suc n) (ls_live s)\<rparr>"
    using True ia by (simp add: s2_def)
  note D = limit_invD [OF assms]
  have split: "ls_live s = take n (ls_live s) @ (i, a) # drop (Suc n) (ls_live s)"
    using id_take_nth_drop [OF True] ia by simp
  then have mem: "(i, a) \<in> set (ls_live s)" by (metis in_set_conv_decomp)
  then obtain c where c: "concs (ls_heap s) a = Some c" using D(2) [of a i] by (auto simp: owned_def)
  have h: "held_by s b = held_by s2 b + (if b = a then 1 else 0)" for b
    unfolding held_by_def by (subst split) (simp add: s2)
  have o: "owned s2 j \<subseteq> owned s j" for j
  proof -
    have "set (ls_live s2) \<subseteq> set (ls_live s)" by (subst split) (auto simp: s2)
    then show ?thesis by (auto simp: owned_def s2)
  qed
  have r: "concs (ls_heap s2) = (concs (ls_heap s))(a \<mapsto> conc_release c)" "next_addr (ls_heap s2) = next_addr (ls_heap s)"
    using ReleaseConcurrency_concs(1) [OF c] ReleaseConcurrency_concs(2) by (simp_all add: s2)
  have pos: "c_bounded c \<Longrightarrow> c_held c = int (held_by s2 a) + 1" using D(5) [OF c] h [of a] by simp
  have "limit_inv s2"
  proof (rule limit_invI)
    show "concs (ls_heap s2) b = None" if "next_addr (ls_heap s2) \<le> b" for b
      using that D(1) [of b] c r by auto
    show "\<exists>c. concs (ls_heap s2) b = Some c" if "b \<in> owned s2 j" for b j
      using that D(2) [of b j] o r by auto
    show "b \<notin> owned s2 k" if "j \<noteq> k" "b \<in> owned s2 j" for j k b
      using that D(3) [of j k b] o by blast
    show "conc_wf d" if "concs (ls_heap s2) b = Some d" for b d
      using that D(4) [of b d] D(4) [OF c] pos r
      by (auto simp: conc_wf_def conc_ok_def conc_release_def split: if_splits)
    show "c_held d = int (held_by s2 b)" if "concs (ls_heap s2) b = Some d" "c_bounded d" for b d
      using that D(5) [of b d] pos r h [of b] by (auto simp: conc_release_def split: if_splits)
  qed
  then show ?thesis by (simp add: s2_def)
qed (use assms in simp)

lemma reload_inv:
  assumes "limit_inv s" shows "limit_inv (limit_step s (Reload keep))"
proof -
  define s2 where "s2 = limit_step s (Reload keep)"
  have s2: "ls_heap s2 = ls_heap s" "ls_live s2 = ls_live s" by (simp_all add: s2_def)
  have o: "owned s2 j \<subseteq> owned s j" for j
    by (auto simp: s2_def owned_def NewRegistryCarrying_def restrict_map_def Let_def split: option.splits if_splits)
  note D = limit_invD [OF assms]
  have "limit_inv s2"
  proof (rule limit_invI)
    show "b \<notin> owned s2 k" if "j \<noteq> k" "b \<in> owned s2 j" for j k b
      using that D(3) [of j k b] o by blast
    show "\<exists>c. concs (ls_heap s2) b = Some c" if "b \<in> owned s2 j" for b j
      using that D(2) [of b j] o s2 by auto
  qed (use D s2 in \<open>auto simp: held_by_def\<close>)
  then show ?thesis by (simp add: s2_def)
qed

lemma limit_step_inv: "limit_inv s \<Longrightarrow> limit_inv (limit_step s e)"
  by (cases e) (simp_all only: admit_inv finish_inv reload_inv)

lemma cur_conc_owned: "cur_conc (ls_reg s) i = Some a \<Longrightarrow> a \<in> owned s i"
  by (auto simp: cur_conc_def owned_def split: option.splits)

lemma cur_conc_upd: "cur_conc (r\<lparr>r_keys := (r_keys r)(j \<mapsto> ks)\<rparr>) i = (if i = j then Some (ks_concur ks) else cur_conc r i)"
  by (simp add: cur_conc_def split: option.splits)

text \<open>Admission keeps the bound of key \<open>i\<close>: only a key without a usable bound gets a fresh one.\<close>

lemma reg_for_key_inv:
  assumes inv: "limit_inv s" and key: "key_inv i L s" and L: "1 \<le> L"
    and st: "ID k = i \<longrightarrow> ConcurrentRequests (Limits k) = L"
    and f: "reg_for (ls_heap s) (ls_reg s) k = (h1, r1, ks)"
  shows "key_inv i L (s\<lparr>ls_heap := h1, ls_reg := r1\<rparr>)"
proof -
  note D = limit_invD [OF inv]
  from key have live: "\<And>a. (i, a) \<in> set (ls_live s) \<Longrightarrow> cur_conc (ls_reg s) i = Some a"
    and lim: "\<And>a c. cur_conc (ls_reg s) i = Some a \<Longrightarrow> concs (ls_heap s) a = Some c \<Longrightarrow> c_limit c = L"
    by (auto simp: key_inv_def)
  from f show ?thesis
  proof (cases rule: reg_for_conc)
    case found
    with key show ?thesis by simp
  next
    case (carried a c)
    then have "ID k = i \<Longrightarrow> cur_conc (ls_reg s) i = Some a" by (simp add: cur_conc_def)
    with carried live lim st L show ?thesis by (auto simp: key_inv_def cur_conc_upd want_limit_def split: if_splits)
  next
    case fresh
    have none: "cur_conc (ls_reg s) i = None" if "ID k = i"
    proof (rule ccontr)
      assume "cur_conc (ls_reg s) i \<noteq> None"
      then obtain a where a: "cur_conc (ls_reg s) i = Some a" by auto
      from D(2) [OF cur_conc_owned [OF a]] obtain c where c: "concs (ls_heap s) a = Some c" by auto
      have "r_carryConc (ls_reg s) (ID k) = Some a" using a fresh(1) that by (simp add: cur_conc_def)
      from fresh(5) [OF this c] lim [OF a c] that st L show False by (simp add: want_limit_def)
    qed
    have other: "a \<noteq> next_addr (ls_heap s)" if "cur_conc (ls_reg s) i = Some a" for a
      using D(1) [of a] D(2) [OF cur_conc_owned [OF that]] by auto
    from fresh none other live lim st L NewConcurrency_wf(3) show ?thesis
      by (auto simp: key_inv_def cur_conc_upd split: if_splits)
  qed
qed

lemma admit_key_inv:
  assumes "limit_inv s" "key_inv i L s" "1 \<le> L" "limit_stable i L (Admit k)"
  shows "key_inv i L (limit_step s (Admit k))"
proof -
  obtain h1 r1 ks where f: "reg_for (ls_heap s) (ls_reg s) k = (h1, r1, ks)" by (cases "reg_for (ls_heap s) (ls_reg s) k") auto
  obtain h2 ok where a: "AcquireConcurrency h1 ks = (h2, ok)" by (cases "AcquireConcurrency h1 ks")
  note I = reg_for_inv [OF assms(1) f]
  from I(2) obtain c where c: "concs h1 (ks_concur ks) = Some c" by auto
  have "conc_wf c" using limit_invD(4) [OF I(1)] c by simp
  then obtain c' where c': "concs h2 = (concs h1)(ks_concur ks \<mapsto> c')" "c_limit c' = c_limit c"
    using AcquireConcurrency_cases [OF a c] by metis
  have "cur_conc r1 (ID k) = Some (ks_concur ks)" using I(3) by (simp add: cur_conc_def)
  with reg_for_key_inv [OF assms(1,2,3) _ f] assms(4) c c' show ?thesis
    by (auto simp: key_inv_def f a split: if_splits)
qed

lemma finish_key_inv:
  assumes "limit_inv s" "key_inv i L s" shows "key_inv i L (limit_step s (Finish n))"
proof (cases "n < length (ls_live s)")
  case True
  have sub: "set (take n (ls_live s) @ drop (Suc n) (ls_live s)) \<subseteq> set (ls_live s)"
    using set_take_subset set_drop_subset by fastforce
  have lim: "\<exists>c. concs (ls_heap s) a = Some c \<and> c_limit c = c_limit d"
    if "concs (ReleaseConcurrency (ls_heap s) b) a = Some d" for a b d
    using that by (auto simp: ReleaseConcurrency_def split: option.splits if_splits)
  from assms(2) sub lim True show ?thesis by (fastforce simp: key_inv_def)
qed (use assms in simp)

lemma cur_conc_reload: "keep i \<Longrightarrow> cur_conc (NewRegistryCarrying (Some r) (Some keep)) i = cur_conc r i"
  by (simp add: cur_conc_def NewRegistryCarrying_def Let_def)

lemma limit_step_key_inv:
  assumes "limit_inv s" "key_inv i L s" "1 \<le> L" "limit_stable i L e"
  shows "key_inv i L (limit_step s e)"
proof (cases e)
  case (Admit k)
  with assms show ?thesis by (metis admit_key_inv)
next
  case (Finish n)
  with assms show ?thesis by (metis finish_key_inv)
next
  case (Reload keep)
  with assms(2,4) show ?thesis by (simp add: key_inv_def cur_conc_reload)
qed

lemma in_flight_bound:
  assumes "limit_inv s" "key_inv i L s" "1 \<le> L"
  shows "int (in_flight s i) \<le> L"
proof (cases "cur_conc (ls_reg s) i")
  case None
  then have "filter (\<lambda>p. fst p = i) (ls_live s) = []"
    using assms(2) by (fastforce simp: key_inv_def filter_empty_conv)
  with assms(3) show ?thesis by (simp add: in_flight_def)
next
  case (Some a)
  note D = limit_invD [OF assms(1)]
  from D(2) [OF cur_conc_owned [OF Some]] obtain c where c: "concs (ls_heap s) a = Some c" by auto
  have "c_limit c = L" using assms(2) Some c by (simp add: key_inv_def)
  with D(4) [OF c] assms(3) have "conc_ok c" by (auto simp: conc_wf_def)
  then have "int (held_by s a) \<le> L" using D(5) [OF c] \<open>c_limit c = L\<close> by (simp add: conc_ok_def)
  moreover have "in_flight s i \<le> held_by s a"
    unfolding in_flight_def held_by_def
    using assms(2) Some by (intro length_filter_mono) (auto simp: key_inv_def)
  ultimately show ?thesis by simp
qed

lemma limit_run_inv: "limit_inv (limit_run evs)"
proof (induction evs rule: rev_induct)
  case Nil
  show ?case
    by (rule limit_invI) (auto simp: limit_run_def empty_heap_def NewRegistry_def owned_def)
next
  case (snoc e evs)
  then show ?case using limit_step_inv by (simp add: limit_run_def)
qed

lemma limit_run_key_inv:
  "1 \<le> L \<Longrightarrow> \<forall>e \<in> set evs. limit_stable i L e \<Longrightarrow> key_inv i L (limit_run evs)"
proof (induction evs rule: rev_induct)
  case Nil
  then show ?case by (simp add: limit_run_def key_inv_def empty_heap_def)
next
  case (snoc e evs)
  then have "key_inv i L (limit_run evs)" "limit_stable i L e" by auto
  then have "key_inv i L (limit_step (limit_run evs) e)"
    using limit_run_inv snoc.prems(1) by (intro limit_step_key_inv)
  then show ?case by (simp add: limit_run_def)
qed

lemma source_fields: "source_allow order r ip now = (r', ok, ra) \<Longrightarrow> sr_cap r' = sr_cap r"
  by (auto simp: source_allow_def evictOldest_def Let_def split: option.splits prod.splits if_splits)

section \<open>Properties\<close>



text \<open>
  C35: a rate limit is never exceeded in a burst. Whatever calls a bucket has served before, calls
  at one instant are admitted at most \<open>burst\<close> times (once for a burst below one), with the
  rounding of 64-bit floating-point arithmetic included; and the bucket stays well-formed: its
  tokens are a finite number between zero and its capacity.
\<close>

theorem bucket_burst_bound:
  assumes "NewBucket (Fin r) burst = Some b" "burst \<le> 2 ^ 53"
  shows "int (snd (bucket_run (fst (bucket_run b history)) (replicate n now))) \<le> max burst 1
    \<and> bucket_ok (max burst 1) (fst (bucket_run b history))"
proof -
  have "0 < r" using assms(1) by (auto simp: NewBucket_def split: if_splits)
  with NewBucket_ok [OF this assms(2)] assms(1) have "bucket_ok (max burst 1) b" by auto
  then have "bucket_ok (max burst 1) (fst (bucket_run b history))" by (rule bucket_run_ok)
  then show ?thesis using bucket_run_burst by blast
qed

theorem bucket_burst_bound_witness:
  "\<exists>b. NewBucket (Fin 5) 3 = Some b \<and>
     int (snd (bucket_run (fst (bucket_run b [1, 2])) (replicate 10 7))) \<le> 3"
  using bucket_burst_bound [of 5 3 _ "[1, 2]" 10 7] by (simp add: NewBucket_def)

text \<open>
  the per-source table is bounded. From \<^verbatim>\<open>NewSourceRegistry\<close> on, whatever addresses ask and in
  whatever order Go ranges over the map, it never holds more than \<open>cap\<close> sources (one for a cap
  below one).
\<close>

theorem source_table_bounded:
  assumes "NewSourceRegistry rate burst cap = Some r0" "source_reach r0 r"
  shows "finite (dom (sr_srcs r)) \<and> int (card (dom (sr_srcs r))) \<le> max cap 1"
proof -
  have r0: "sources_ok r0" "sr_cap r0 = max cap 1"
    using assms(1) by (auto simp: NewSourceRegistry_def sources_ok_def split: if_splits)
  from assms(2) have "sources_ok r \<and> sr_cap r = max cap 1"
  proof (induction rule: source_reach.induct)
    case start
    show ?case using r0 by simp
  next
    case (step r order ip now r' ok ra)
    then show ?case using source_allow_sources_ok source_fields by metis
  qed
  then show ?thesis by (auto simp: sources_ok_def)
qed

theorem source_table_bounded_witness:
  "\<exists>r0. NewSourceRegistry (Fin 1) 1 0 = Some r0 \<and> source_reach r0 r0 \<and> int (card (dom (sr_srcs r0))) \<le> 1"
  using source_table_bounded [of "Fin 1" 1 0] source_reach.start by (auto simp: NewSourceRegistry_def)

text \<open>
  when the table is full, admitting a new source drops exactly one source, whose last touch is
  no later than that of any of the first 64 sources in range order, and every other source keeps
  its state.
\<close>

theorem source_eviction_least_recent:
  assumes "set order = dom (sr_srcs r)" "order \<noteq> []" "sr_srcs r ip = None"
    and "sr_cap r \<le> int (card (dom (sr_srcs r)))" "\<not> f64_le (sr_rate r) (Fin 0)"
  shows "\<exists>v stv. v \<in> set (take 64 order) \<and> sr_srcs r v = Some stv \<and>
    (\<forall>j \<in> set (take 64 order). \<exists>st. sr_srcs r j = Some st \<and> s_last stv \<le> s_last st) \<and>
    sr_srcs (fst (source_allow order r ip now)) v = None \<and>
    (\<forall>j. j \<noteq> v \<and> j \<noteq> ip \<longrightarrow> sr_srcs (fst (source_allow order r ip now)) j = sr_srcs r j)"
proof -
  let ?p = "take evictProbeBudget order"
  have sub: "set ?p \<subseteq> dom (sr_srcs r)" using assms(1) set_take_subset by fastforce
  have "?p \<noteq> []" using assms(2) by (simp add: evictProbeBudget_def)
  with sub obtain v t st0 where v: "probe_oldest (sr_srcs r) None ?p = Some (v, t)" "v \<in> set ?p"
    "sr_srcs r v = Some st0" "t = s_last st0"
    and min: "\<And>j st. j \<in> set ?p \<Longrightarrow> sr_srcs r j = Some st \<Longrightarrow> t \<le> s_last st"
    by (rule probe_oldest_None) blast
  have vip: "v \<noteq> ip" using v assms(3) by auto
  obtain b where b: "NewBucket (sr_rate r) (sr_burst r) = Some b"
    using assms(5) by (simp add: NewBucket_def)
  have res: "\<exists>st. sr_srcs (fst (source_allow order r ip now)) = (sr_srcs r)(v := None, ip \<mapsto> st)"
    using v b assms(3,4) by (auto simp: source_allow_def evictOldest_def Let_def split: prod.splits)
  from min sub have "\<forall>j \<in> set (take 64 order). \<exists>st. sr_srcs r j = Some st \<and> s_last st0 \<le> s_last st"
    using v(4) by (force simp: evictProbeBudget_def)
  with v res vip show ?thesis by (auto simp: evictProbeBudget_def intro!: exI [of _ v])
qed

definition ex_sources :: source_registry where
  "ex_sources = \<lparr>sr_cap = 1, sr_rate = Fin 1, sr_burst = 1,
     sr_srcs = [''10.0.0.1'' \<mapsto> \<lparr>s_rate = \<lparr>b_rate = Fin 1, b_cap = Fin 1, b_avail = Fin 0, b_last = 5\<rparr>, s_last = 5\<rparr>]\<rparr>"

theorem source_eviction_least_recent_witness:
  "sr_srcs (fst (source_allow [''10.0.0.1''] ex_sources ''10.0.0.2'' 9)) ''10.0.0.1'' = None"
  using source_eviction_least_recent [of "[''10.0.0.1'']" ex_sources "''10.0.0.2''" 9]
  by (simp add: ex_sources_def)

text \<open>
  a NaN request rate passes the validation of the users file, like an absent rate, and yields a
  key without a rate bucket: the key is admitted at every instant.
\<close>

theorem nan_rate_is_unlimited:
  assumes "RequestsPerSecond (Limits k) = NaN" "r_keys r (ID k) = None"
    and "reg_for h r k = (h', r', ks)"
  shows "validateLimits (Limits k) = validateLimits ((Limits k)\<lparr>RequestsPerSecond := Fin 0\<rparr>)
    \<and> AllowRate h' ks now = (h', True, 0)"
proof -
  have "ks_bucket ks = None"
    using assms by (auto simp: reg_for_def reg_build_def bucket_match_def Let_def f64_eq.simps
        split: option.splits prod.splits if_splits)
  then show ?thesis using assms(1) by (simp add: validateLimits_def AllowRate_def)
qed

definition ex_nan_key :: key where
  "ex_nan_key = ex_key\<lparr>Limits := (Limits ex_key)\<lparr>RequestsPerSecond := NaN\<rparr>\<rparr>"

theorem nan_rate_is_unlimited_witness:
  "\<exists>h' r' ks. reg_for empty_heap NewRegistry ex_nan_key = (h', r', ks) \<and>
     validateLimits (Limits ex_nan_key) = Inr () \<and> AllowRate h' ks 7 = (h', True, 0)"
proof -
  obtain h' r' ks where f: "reg_for empty_heap NewRegistry ex_nan_key = (h', r', ks)"
    by (cases "reg_for empty_heap NewRegistry ex_nan_key") auto
  with nan_rate_is_unlimited [OF _ _ f, of 7] show ?thesis
    by (simp add: ex_nan_key_def ex_key_def NewRegistry_def validateLimits_def)
qed

end
