(* ===== verification/Config.thy ===== *)
theory Config
  imports Float64
begin

text \<open>
  The normalized runtime configuration (\<^verbatim>\<open>src/internal/config/config.go\<close>) as records. A Go map of the
  configuration is an association list with distinct keys; its order stands for the order in which
  a \<^verbatim>\<open>range\<close> loop visits it, which Go leaves open.
\<close>

section \<open>Definitions\<close>

record listen_cfg =
  l_Network :: string
  l_Address :: string
  l_Mode :: string

record tls_cfg =
  t_CertFile :: string
  t_KeyFile :: string

record server_cfg =
  sv_Listen :: listen_cfg
  sv_TLS :: tls_cfg
  sv_MaxHeaderBytes :: int
  sv_MaxBodyBytes :: int
  sv_MaxResponseBytes :: int
  sv_MaxInflightRequests :: int
  sv_MaxBufferedRequestBytes :: int
  sv_MaxConnections :: int
  sv_ReadHeaderTimeout :: duration
  sv_ReadBodyTimeout :: duration
  sv_IdleTimeout :: duration
  sv_StreamIdleTimeout :: duration
  sv_StreamWriteTimeout :: duration
  sv_AllowPlaintextNonLoopback :: bool
  sv_AdminSocket :: string
  sv_TrustedProxies :: "string list"

record retry_cfg =
  rt_MaxAttempts :: int
  rt_InitialBackoff :: duration
  rt_MaxBackoff :: duration
  rt_Jitter :: "bool option"

definition JitterEnabled :: "retry_cfg \<Rightarrow> bool" where
  "JitterEnabled r \<longleftrightarrow> (case rt_Jitter r of None \<Rightarrow> True | Some b \<Rightarrow> b)"

record accounting_cfg =
  ac_Enabled :: bool
  ac_Path :: string
  ac_EnsureStreamUsage :: "bool option"
  ac_ReplayOnStart :: "bool option"
  ac_ReplayMaxBytes :: int
  ac_QueueSize :: int
  ac_Overflow :: string
  ac_FSync :: string
  ac_FSyncInterval :: duration
  ac_UnknownUsageReservation :: int

record responses_cfg =
  rs_AffinityTTL :: duration
  rs_MaxAffinityEntries :: int

record backend_cfg =
  be_Server :: string
  be_BaseURL :: string
  be_UpstreamModel :: string
  be_APIKeyFile :: string
  be_ConnectTimeout :: duration
  be_HeaderTimeout :: duration
  be_RequestTimeout :: duration
  be_StreamIdleTimeout :: duration
  be_MaxConcurrency :: int
  be_QueueSize :: int
  be_QueueTimeout :: duration
  be_RelayUpstreamErrors :: bool

record backend_ref =
  br_Name :: string
  br_Weight :: int

record model_cfg =
  mo_Type :: string
  mo_Strategy :: string
  mo_MaxOutputTokens :: int
  mo_Backends :: "backend_ref list"

definition SupportedStrategies :: "string list" where
  "SupportedStrategies =
     [''single'', ''round-robin'', ''weighted-round-robin'', ''least-inflight'', ''weighted-least-inflight'']"

end
