(* ===== verification/Routing.thy ===== *)
theory Routing
  imports Config "HOL-Library.Char_ord" "HOL-Library.List_Lexorder"
begin

text \<open>
  Routing of public models to backends (\<^verbatim>\<open>src/internal/routing/router.go\<close>): the router built from
  the configuration, \<^verbatim>\<open>Select\<close> with its five strategies, and passive health.

  The live load \<open>inflight\<close> and the clock are arguments of \<open>Select\<close>. Each of the router's mutexes
  protects one field, and one call of \<open>Select\<close> is one step: the clock and the load are read once in
  it. The smooth weighted round-robin counters wrap at 64 bits, since nothing bounds a configured
  weight from above; the failure streak does not, since it grows by one per failed request.
\<close>

section \<open>Definitions\<close>

datatype select_error = ErrUnknownModel | ErrNoEligibleBackend | ErrStrategy string

datatype routing_error =
    NoModels | NoBackends string | UnsupportedStrategy string string
  | UnknownBackend string string | NoUpstreamModel string

record target =
  PublicModel :: string
  Backend :: string
  Upstream :: string
  TypeName :: string

record replica =
  rep_name :: string
  rep_upstream :: string
  rep_weight :: int

record model_entry =
  me_typ :: string
  me_strategy :: string
  me_replicas :: "replica list"

record hstate =
  h_until :: time
  h_streak :: int

record router =
  models :: "string \<rightharpoonup> model_entry"
  order :: "string list"
  health :: "string \<rightharpoonup> hstate"
  rr :: "string \<rightharpoonup> 64 word"
  wrr :: "string \<rightharpoonup> int list"

subsection \<open>Construction\<close>

fun build_replicas :: "(string \<times> backend_cfg) list \<Rightarrow> string \<Rightarrow> backend_ref list \<Rightarrow> routing_error + replica list" where
  "build_replicas backends name [] = Inr []"
| "build_replicas backends name (ref # refs) =
     (case map_of backends (br_Name ref) of
        None \<Rightarrow> Inl (UnknownBackend name (br_Name ref))
      | Some b \<Rightarrow>
          (if be_UpstreamModel b = [] then Inl (NoUpstreamModel (br_Name ref))
           else bind_sum (build_replicas backends name refs) (\<lambda>reps.
             Inr (\<lparr>rep_name = br_Name ref, rep_upstream = be_UpstreamModel b,
                   rep_weight = max (br_Weight ref) 1\<rparr> # reps))))"

fun build_models ::
  "(string \<times> backend_cfg) list \<Rightarrow> (string \<times> model_cfg) list \<Rightarrow> routing_error + (string \<times> model_entry) list" where
  "build_models backends [] = Inr []"
| "build_models backends ((name, m) # ms) =
     (if mo_Backends m = [] then Inl (NoBackends name)
      else if mo_Strategy m \<notin> set SupportedStrategies then Inl (UnsupportedStrategy name (mo_Strategy m))
      else bind_sum (build_replicas backends name (mo_Backends m)) (\<lambda>reps.
           bind_sum (build_models backends ms) (\<lambda>es.
             Inr ((name, \<lparr>me_typ = mo_Type m, me_strategy = mo_Strategy m, me_replicas = reps\<rparr>) # es))))"

definition New :: "(string \<times> model_cfg) list \<Rightarrow> (string \<times> backend_cfg) list \<Rightarrow> routing_error + router" where
  "New ms backends =
     (if ms = [] then Inl NoModels
      else bind_sum (build_models backends ms) (\<lambda>es.
        Inr \<lparr>models = map_of es, order = sort (map fst es), health = Map.empty,
             rr = Map.empty, wrr = Map.empty\<rparr>))"

subsection \<open>Passive health\<close>

definition healthBaseCooldown :: duration where "healthBaseCooldown = 5 * Second"
definition healthMaxCooldown :: duration where "healthMaxCooldown = Minute"
definition healthShiftCap :: int where "healthShiftCap = 16"

definition unavailable :: "router \<Rightarrow> time \<Rightarrow> string \<Rightarrow> bool" where
  "unavailable r now name \<longleftrightarrow> (case health r name of None \<Rightarrow> False | Some s \<Rightarrow> now < h_until s)"

definition RecordFailure :: "router \<Rightarrow> time \<Rightarrow> string \<Rightarrow> router" where
  "RecordFailure r now name =
     (let s = (case health r name of None \<Rightarrow> \<lparr>h_until = 0, h_streak = 0\<rparr> | Some s \<Rightarrow> s);
          streak = h_streak s + 1;
          shift = min (streak - 1) healthShiftCap;
          cooldown = min (wrap64 (healthBaseCooldown * 2 ^ nat shift)) healthMaxCooldown
      in r\<lparr>health := (health r)(name \<mapsto> \<lparr>h_until = now + cooldown, h_streak = streak\<rparr>)\<rparr>)"

definition RecordSuccess :: "router \<Rightarrow> string \<Rightarrow> router" where
  "RecordSuccess r name = r\<lparr>health := (health r)(name := None)\<rparr>"

subsection \<open>Selection\<close>

definition candidates :: "router \<Rightarrow> time \<Rightarrow> string list \<Rightarrow> model_entry \<Rightarrow> nat list" where
  "candidates r now exclude entry =
     filter (\<lambda>i. rep_name (me_replicas entry ! i) \<notin> set exclude \<and> \<not> unavailable r now (rep_name (me_replicas entry ! i)))
       [0..<length (me_replicas entry)]"

text \<open>The rotation over the whole replica ring from \<open>start\<close>; \<open>pick\<close> is the initial choice.\<close>

fun ring_pick :: "nat \<Rightarrow> nat \<Rightarrow> nat list \<Rightarrow> nat list \<Rightarrow> nat \<Rightarrow> nat" where
  "ring_pick start len cands [] pick = pick"
| "ring_pick start len cands (k # ks) pick =
     (if (start + k) mod len \<in> set cands then (start + k) mod len else ring_pick start len cands ks pick)"

definition score :: "(string \<Rightarrow> int) \<Rightarrow> replica \<Rightarrow> float64" where
  "score inflight rep = f64_div (f64_of_int (inflight (rep_name rep) + 1)) (f64_of_int (rep_weight rep))"

definition least_inflight :: "(string \<Rightarrow> int) \<Rightarrow> replica list \<Rightarrow> nat list \<Rightarrow> nat" where
  "least_inflight inflight reps cands =
     foldl (\<lambda>best i. if inflight (rep_name (reps ! i)) < inflight (rep_name (reps ! best)) then i else best)
       (hd cands) (tl cands)"

definition weighted_least_inflight :: "(string \<Rightarrow> int) \<Rightarrow> replica list \<Rightarrow> nat list \<Rightarrow> nat" where
  "weighted_least_inflight inflight reps cands =
     fst (foldl (\<lambda>(best, bestScore) i.
             let s = score inflight (reps ! i) in if f64_lt s bestScore then (i, s) else (best, bestScore))
           (hd cands, score inflight (reps ! hd cands)) (tl cands))"

text \<open>One round of smooth weighted round-robin on the counters, as in \<^verbatim>\<open>nextWRR\<close>.\<close>

definition wrr_round :: "replica list \<Rightarrow> nat list \<Rightarrow> int list \<Rightarrow> nat \<times> int list" where
  "wrr_round reps cands current =
     (let bumped = foldl (\<lambda>c i. c[i := wrap64 (c ! i + rep_weight (reps ! i))]) current cands;
          total = foldl (\<lambda>t i. wrap64 (t + rep_weight (reps ! i))) 0 cands;
          best = foldl (\<lambda>b i. if bumped ! b < bumped ! i then i else b) (hd cands) (tl cands)
      in (best, bumped[best := wrap64 (bumped ! best - total)]))"

definition nextWRR :: "router \<Rightarrow> string \<Rightarrow> model_entry \<Rightarrow> nat list \<Rightarrow> router \<times> nat" where
  "nextWRR r model entry cands =
     (let n = length (me_replicas entry);
          current = (case wrr r model of
                       None \<Rightarrow> replicate n 0
                     | Some c \<Rightarrow> if length c \<noteq> n then replicate n 0 else c);
          (best, current') = wrr_round (me_replicas entry) cands current
      in (r\<lparr>wrr := (wrr r)(model \<mapsto> current')\<rparr>, best))"

definition next_rr :: "router \<Rightarrow> string \<Rightarrow> router \<times> 64 word" where
  "next_rr r model =
     (let c = (case rr r model of None \<Rightarrow> 0 | Some c \<Rightarrow> c) + 1
      in (r\<lparr>rr := (rr r)(model \<mapsto> c)\<rparr>, c - 1))"

definition pick_by_strategy ::
  "router \<Rightarrow> (string \<Rightarrow> int) \<Rightarrow> string \<Rightarrow> model_entry \<Rightarrow> nat list \<Rightarrow> router \<times> (select_error + nat)" where
  "pick_by_strategy r inflight model entry cands =
     (let reps = me_replicas entry; strategy = me_strategy entry in
      if strategy = ''single'' then (r, Inr (hd cands))
      else if strategy = ''round-robin'' then
        (let (r', n) = next_rr r model;
             start = unat n mod length reps
         in (r', Inr (ring_pick start (length reps) cands [0..<length reps] (hd cands))))
      else if strategy = ''weighted-round-robin'' then
        (let (r', pick) = nextWRR r model entry cands in (r', Inr pick))
      else if strategy = ''least-inflight'' then (r, Inr (least_inflight inflight reps cands))
      else if strategy = ''weighted-least-inflight'' then (r, Inr (weighted_least_inflight inflight reps cands))
      else (r, Inl (ErrStrategy strategy)))"

definition Select ::
  "router \<Rightarrow> (string \<Rightarrow> int) \<Rightarrow> time \<Rightarrow> string \<Rightarrow> string list \<Rightarrow> router \<times> (select_error + target)" where
  "Select r inflight now publicModel exclude =
     (case models r publicModel of
        None \<Rightarrow> (r, Inl ErrUnknownModel)
      | Some entry \<Rightarrow>
          (let cands = candidates r now exclude entry in
           if cands = [] then (r, Inl ErrNoEligibleBackend)
           else let (r', res) = pick_by_strategy r inflight publicModel entry cands in
             (case res of
                Inl e \<Rightarrow> (r', Inl e)
              | Inr pick \<Rightarrow>
                  (let rep = me_replicas entry ! pick in
                   (r', Inr \<lparr>PublicModel = publicModel, Backend = rep_name rep,
                             Upstream = rep_upstream rep, TypeName = me_typ entry\<rparr>)))))"

subsection \<open>Queries\<close>

definition Has :: "router \<Rightarrow> string \<Rightarrow> bool" where
  "Has r m \<longleftrightarrow> models r m \<noteq> None"

definition TypeOf :: "router \<Rightarrow> string \<Rightarrow> string" where
  "TypeOf r m = (case models r m of None \<Rightarrow> [] | Some e \<Rightarrow> me_typ e)"

fun find_upstream :: "(string \<rightharpoonup> model_entry) \<Rightarrow> string list \<Rightarrow> string \<Rightarrow> string option" where
  "find_upstream ms [] b = None"
| "find_upstream ms (name # names) b =
     (case ms name of
        None \<Rightarrow> find_upstream ms names b
      | Some e \<Rightarrow>
          (case find (\<lambda>rep. rep_name rep = b) (me_replicas e) of
             Some rep \<Rightarrow> Some (rep_upstream rep)
           | None \<Rightarrow> find_upstream ms names b))"

definition UpstreamFor :: "router \<Rightarrow> string \<Rightarrow> string option" where
  "UpstreamFor r b = find_upstream (models r) (order r) b"

subsection \<open>Sequences of selections\<close>

fun select_many :: "router \<Rightarrow> (string \<Rightarrow> int) \<Rightarrow> time \<Rightarrow> string \<Rightarrow> nat \<Rightarrow> string list" where
  "select_many r inflight now model 0 = []"
| "select_many r inflight now model (Suc n) =
     (case Select r inflight now model [] of
        (r', Inr t) \<Rightarrow> Backend t # select_many r' inflight now model n
      | (r', Inl e) \<Rightarrow> select_many r' inflight now model n)"

subsection \<open>Life of a router\<close>

text \<open>The states a router goes through: built from the configuration, then any interleaving of
  selections and health reports.\<close>

inductive router_reach ::
  "(string \<times> model_cfg) list \<Rightarrow> (string \<times> backend_cfg) list \<Rightarrow> router \<Rightarrow> bool"
  for ms backends where
  new: "New ms backends = Inr r \<Longrightarrow> router_reach ms backends r"
| select: "router_reach ms backends r \<Longrightarrow> router_reach ms backends (fst (Select r inflight now m exclude))"
| failure: "router_reach ms backends r \<Longrightarrow> router_reach ms backends (RecordFailure r now b)"
| success: "router_reach ms backends r \<Longrightarrow> router_reach ms backends (RecordSuccess r b)"

section \<open>Lemmas\<close>

subsection \<open>Construction\<close>

definition replica_of :: "(string \<times> backend_cfg) list \<Rightarrow> backend_ref \<Rightarrow> replica" where
  "replica_of backends ref =
     \<lparr>rep_name = br_Name ref,
      rep_upstream = (case map_of backends (br_Name ref) of None \<Rightarrow> [] | Some b \<Rightarrow> be_UpstreamModel b),
      rep_weight = max (br_Weight ref) 1\<rparr>"

definition entry_of :: "(string \<times> backend_cfg) list \<Rightarrow> model_cfg \<Rightarrow> model_entry" where
  "entry_of backends m =
     \<lparr>me_typ = mo_Type m, me_strategy = mo_Strategy m, me_replicas = map (replica_of backends) (mo_Backends m)\<rparr>"

lemma build_replicas_map:
  "build_replicas backends name refs = Inr reps \<Longrightarrow> reps = map (replica_of backends) refs"
  by (induction refs arbitrary: reps)
    (auto simp: replica_of_def bind_sum_Inr split: option.splits if_splits)

lemma build_models_map:
  assumes "build_models backends ms = Inr es"
  shows "map_of es n = map_option (entry_of backends) (map_of ms n)"
    and "map fst es = map fst ms"
  using assms
  by (induction ms arbitrary: es)
    (auto simp: bind_sum_Inr entry_of_def dest!: build_replicas_map split: if_splits)

lemma build_models_entries:
  "build_models backends ms = Inr es \<Longrightarrow> (n, m) \<in> set ms \<Longrightarrow>
     mo_Backends m \<noteq> [] \<and> mo_Strategy m \<in> set SupportedStrategies"
  by (induction ms arbitrary: es) (fastforce simp: bind_sum_Inr split: if_splits)+

lemma New_models:
  assumes "New ms backends = Inr r"
  shows "models r n = map_option (entry_of backends) (map_of ms n)"
  using assms build_models_map(1) [of backends ms] by (auto simp: New_def bind_sum_Inr split: if_splits)

lemma New_entries:
  assumes "New ms backends = Inr r" "map_of ms n = Some m"
  shows "mo_Backends m \<noteq> []" "mo_Strategy m \<in> set SupportedStrategies"
proof -
  obtain es where es: "build_models backends ms = Inr es"
    using assms by (auto simp: New_def bind_sum_Inr split: if_splits)
  from build_models_entries [OF es map_of_SomeD [OF assms(2)]]
  show "mo_Backends m \<noteq> []" "mo_Strategy m \<in> set SupportedStrategies" by auto
qed

subsection \<open>What an operation leaves alone\<close>

lemma pick_frame:
  assumes "pick_by_strategy r inflight m entry cands = (r', res)"
  shows "models r' = models r" "health r' = health r" "order r' = order r"
  using assms
  by (auto simp: pick_by_strategy_def next_rr_def nextWRR_def Let_def split: if_splits prod.splits)

lemma Select_frame:
  "models (fst (Select r inflight now m exclude)) = models r"
  "health (fst (Select r inflight now m exclude)) = health r"
  "order (fst (Select r inflight now m exclude)) = order r"
  by (auto simp: Select_def Let_def dest: pick_frame split: option.splits prod.splits sum.splits)

lemma Record_frame [simp]:
  "models (RecordFailure r now b) = models r" "models (RecordSuccess r b) = models r"
  by (simp_all add: RecordFailure_def RecordSuccess_def Let_def)

lemma reach_models:
  "router_reach ms backends r \<Longrightarrow> models r n = map_option (entry_of backends) (map_of ms n)"
  by (induction rule: router_reach.induct) (simp_all add: New_models Select_frame)

lemma reach_entries:
  "router_reach ms backends r \<Longrightarrow> map_of ms n = Some m \<Longrightarrow>
     mo_Backends m \<noteq> [] \<and> mo_Strategy m \<in> set SupportedStrategies"
  by (induction rule: router_reach.induct) (auto dest: New_entries)

lemma build_replicas_known:
  "build_replicas backends name refs = Inr reps \<Longrightarrow> ref \<in> set refs \<Longrightarrow> map_of backends (br_Name ref) \<noteq> None"
  by (induction refs arbitrary: reps) (auto simp: bind_sum_Inr split: option.splits if_splits)

lemma build_models_known:
  "build_models backends ms = Inr es \<Longrightarrow> (n, m) \<in> set ms \<Longrightarrow> ref \<in> set (mo_Backends m) \<Longrightarrow>
     map_of backends (br_Name ref) \<noteq> None"
  by (induction ms arbitrary: es) (fastforce simp: bind_sum_Inr dest: build_replicas_known split: if_splits)+

lemma reach_backends:
  "router_reach ms backends r \<Longrightarrow> map_of ms n = Some m \<Longrightarrow> ref \<in> set (mo_Backends m) \<Longrightarrow>
     map_of backends (br_Name ref) \<noteq> None"
  by (induction rule: router_reach.induct)
    (auto simp: New_def bind_sum_Inr dest: build_models_known [OF _ map_of_SomeD] split: if_splits)

subsection \<open>Choosing among the candidates\<close>

lemma candidates_set:
  "i \<in> set (candidates r now exclude entry) \<longleftrightarrow>
     i < length (me_replicas entry) \<and> rep_name (me_replicas entry ! i) \<notin> set exclude \<and>
     \<not> unavailable r now (rep_name (me_replicas entry ! i))"
  by (auto simp: candidates_def)

lemma distinct_candidates: "distinct (candidates r now exclude entry)"
  by (simp add: candidates_def)

lemma ring_pick_in: "pick \<in> set cands \<Longrightarrow> ring_pick start len cands ks pick \<in> set cands"
  by (induction ks) auto

lemma least_inflight_best:
  assumes "cands \<noteq> []"
  shows "least_inflight inflight reps cands \<in> set cands"
    and "i \<in> set cands \<Longrightarrow> inflight (rep_name (reps ! least_inflight inflight reps cands)) \<le> inflight (rep_name (reps ! i))"
proof -
  from assms obtain c cs where cs: "cands = c # cs" by (cases cands) auto
  note am = foldl_argmin [where f = "\<lambda>i. inflight (rep_name (reps ! i))" and x = c and xs = cs]
  show "least_inflight inflight reps cands \<in> set cands"
    using am(1) by (simp add: least_inflight_def cs)
  show "i \<in> set cands \<Longrightarrow> inflight (rep_name (reps ! least_inflight inflight reps cands)) \<le> inflight (rep_name (reps ! i))"
    using am(2) [of i] by (simp add: least_inflight_def cs)
qed

text \<open>A score is a finite number: the weight of a built replica is at least one.\<close>

lemma f64_no_nan_order:
  assumes "a \<noteq> NaN" "b \<noteq> NaN" "c \<noteq> NaN"
  shows "f64_lt a b \<Longrightarrow> \<not> f64_lt b a" "\<not> f64_lt a b \<Longrightarrow> \<not> f64_lt b c \<Longrightarrow> \<not> f64_lt a c"
  using assms by (cases a; cases b; cases c; auto)+

lemma f64_of_int_pos_weight:
  assumes "1 \<le> w" "w \<le> 2 ^ 53" "\<bar>n\<bar> \<le> 2 ^ 53"
  shows "f64_div (f64_of_int n) (f64_of_int w) \<noteq> NaN"
  using assms by (simp add: f64_of_int_exact f64_def Let_def)

lemma weighted_scan:
  "foldl (\<lambda>(best, bestScore) i. let s = g i in if f64_lt s bestScore then (i, s) else (best, bestScore)) (x, g x) xs =
     (let b = foldl (\<lambda>b i. if f64_lt (g i) (g b) then i else b) x xs in (b, g b))"
  by (induction xs arbitrary: x) (auto simp: Let_def)

lemma weighted_least_inflight_best:
  assumes "cands \<noteq> []"
    and nn: "\<forall>i \<in> set cands. score inflight (reps ! i) \<noteq> NaN"
  shows "weighted_least_inflight inflight reps cands \<in> set cands"
    and "i \<in> set cands \<Longrightarrow>
      \<not> f64_lt (score inflight (reps ! i)) (score inflight (reps ! weighted_least_inflight inflight reps cands))"
proof -
  from assms(1) obtain c cs where cs: "cands = c # cs" by (cases cands) auto
  let ?g = "\<lambda>i. score inflight (reps ! i)"
  have eq: "weighted_least_inflight inflight reps cands = foldl (\<lambda>b i. if f64_lt (?g i) (?g b) then i else b) c cs"
    unfolding weighted_least_inflight_def cs list.sel by (subst weighted_scan) (simp add: Let_def)
  have asym: "f64_lt (?g a) (?g b) \<Longrightarrow> \<not> f64_lt (?g b) (?g a)" if "a \<in> set cands" "b \<in> set cands" for a b
    using f64_no_nan_order(1) [of "?g a" "?g b" "?g b"] nn that by blast
  have trans: "\<not> f64_lt (?g a) (?g b) \<Longrightarrow> \<not> f64_lt (?g b) (?g d) \<Longrightarrow> \<not> f64_lt (?g a) (?g d)"
    if "a \<in> set cands" "b \<in> set cands" "d \<in> set cands" for a b d
    using f64_no_nan_order(2) [of "?g a" "?g b" "?g d"] nn that by blast
  note am = foldl_argmin_on [where A = "set cands" and lt = f64_lt and f = ?g and x = c and xs = cs, OF asym trans]
  show "weighted_least_inflight inflight reps cands \<in> set cands"
    unfolding eq using am(1) by (simp add: cs)
  show "i \<in> set cands \<Longrightarrow> \<not> f64_lt (?g i) (?g (weighted_least_inflight inflight reps cands))"
    unfolding eq using am(2) by (simp add: cs)
qed

text \<open>Without the bound on the load the scan still stays among the candidates.\<close>

lemma weighted_least_inflight_in:
  assumes "cands \<noteq> []"
  shows "weighted_least_inflight inflight reps cands \<in> set cands"
proof -
  have "foldl (\<lambda>b i. if f64_lt (g i) (g b) then i else b) x xs \<in> set (x # xs)" for g x and xs :: "nat list"
    by (induction xs arbitrary: x) auto
  from this [of "\<lambda>i. score inflight (reps ! i)" "hd cands" "tl cands"] assms show ?thesis
    unfolding weighted_least_inflight_def by (subst weighted_scan) (simp add: Let_def)
qed

lemma wrr_round_in: "cands \<noteq> [] \<Longrightarrow> fst (wrr_round reps cands c) \<in> set cands"
  unfolding wrr_round_def Let_def fst_conv
  using foldl_argmax(1) [where x = "hd cands" and xs = "tl cands"] by simp

definition wrr_counters :: "router \<Rightarrow> string \<Rightarrow> nat \<Rightarrow> int list" where
  "wrr_counters r m n = (case wrr r m of None \<Rightarrow> replicate n 0 | Some c \<Rightarrow> if length c \<noteq> n then replicate n 0 else c)"

lemma wrr_counters_length [simp]: "length (wrr_counters r m n) = n"
  by (simp add: wrr_counters_def split: option.splits)

lemma bump_length: "length (foldl (\<lambda>c i. c[i := g c i]) c cands) = length c"
  by (induction cands arbitrary: c) auto

lemma wrr_round_length: "length (snd (wrr_round reps cands c)) = length c"
  unfolding wrr_round_def Let_def snd_conv length_list_update by (rule bump_length)

lemma nextWRR_eq:
  "nextWRR r m entry cands =
     (let x = wrr_round (me_replicas entry) cands (wrr_counters r m (length (me_replicas entry)))
      in (r\<lparr>wrr := (wrr r)(m \<mapsto> snd x)\<rparr>, fst x))"
  by (simp only: nextWRR_def wrr_counters_def Let_def split: prod.split) simp

lemma nextWRR_in: "nextWRR r m entry cands = (r', i) \<Longrightarrow> cands \<noteq> [] \<Longrightarrow> i \<in> set cands"
  by (auto simp: nextWRR_eq Let_def wrr_round_in)

lemma pick_in:
  assumes pick: "pick_by_strategy r inflight m entry cands = (r', Inr i)" and ne: "cands \<noteq> []"
  shows "i \<in> set cands"
proof -
  note ins = least_inflight_best(1) [OF ne] weighted_least_inflight_in [OF ne] hd_in_set [OF ne]
  consider "i = hd cands" | start len ks where "i = ring_pick start len cands ks (hd cands)"
    | r' where "nextWRR r m entry cands = (r', i)"
    | "i = least_inflight inflight (me_replicas entry) cands"
    | "i = weighted_least_inflight inflight (me_replicas entry) cands"
    using pick unfolding pick_by_strategy_def Let_def by (auto split: if_splits prod.splits)
  then show ?thesis
    by cases (simp_all add: ins ring_pick_in nextWRR_in [OF _ ne])
qed

lemma pick_supported:
  "me_strategy entry \<in> set SupportedStrategies \<Longrightarrow> \<exists>i. snd (pick_by_strategy r inflight m entry cands) = Inr i"
  by (auto simp: pick_by_strategy_def SupportedStrategies_def Let_def split: prod.splits)

subsection \<open>Smooth weighted round-robin\<close>

text \<open>
  With every replica eligible and no overflow, the counter of replica \<open>i\<close> after \<open>T\<close> rounds is
  \<open>T * w i - W * n i\<close>, where \<open>n i\<close> counts its picks and \<open>W\<close> is the sum of the weights. The counters
  sum to zero and each stays above \<open>- W\<close>, which is what bounds the picks.
\<close>

abbreviation wsum :: "replica list \<Rightarrow> int" where
  "wsum reps \<equiv> sum_list (map rep_weight reps)"

definition wrr_inv :: "replica list \<Rightarrow> int list \<Rightarrow> bool" where
  "wrr_inv reps c \<longleftrightarrow> length c = length reps \<and> sum_list c = 0 \<and> (\<forall>i < length reps. - wsum reps < c ! i)"

definition wrr_safe :: "replica list \<Rightarrow> bool" where
  "wrr_safe reps \<longleftrightarrow> reps \<noteq> [] \<and> (\<forall>rep \<in> set reps. 1 \<le> rep_weight rep) \<and>
     int (length reps + 1) * wsum reps \<le> MaxInt64"

fun wrr_run :: "replica list \<Rightarrow> nat \<Rightarrow> int list \<Rightarrow> nat list \<times> int list" where
  "wrr_run reps 0 c = ([], c)"
| "wrr_run reps (Suc T) c =
     (let (i, c') = wrr_round reps [0..<length reps] c; (is, c'') = wrr_run reps T c' in (i # is, c''))"

lemma bump_nth:
  assumes "distinct cands" "\<forall>i \<in> set cands. i < length c"
  shows "foldl (\<lambda>c i. c[i := g i (c ! i)]) c cands ! j = (if j \<in> set cands then g j (c ! j) else c ! j)"
    and "length (foldl (\<lambda>c i. c[i := g i (c ! i)]) c cands) = length c"
  using assms by (induction cands arbitrary: c) (auto simp: nth_list_update)

lemma wsum_nonneg: "(\<forall>rep \<in> set reps. 1 \<le> rep_weight rep) \<Longrightarrow> int (length reps) \<le> wsum reps"
  by (induction reps) auto

lemma weight_le_wsum:
  "(\<forall>rep \<in> set reps. 1 \<le> rep_weight rep) \<Longrightarrow> i < length reps \<Longrightarrow> rep_weight (reps ! i) \<le> wsum reps"
proof (induction reps arbitrary: i)
  case (Cons a reps)
  with wsum_nonneg [of reps] show ?case by (cases i) (auto simp: add_increasing)
qed simp

lemma sum_list_lower:
  fixes c :: "int list"
  shows "(\<forall>x \<in> set c. - W \<le> x) \<Longrightarrow> x \<in> set c \<Longrightarrow> x - int (length c - 1) * W \<le> sum_list c"
proof (induction c)
  case (Cons a c)
  have low: "- (int (length c) * W) \<le> sum_list c" using Cons.prems(1)
    by (induction c) (auto simp: algebra_simps)
  show ?case
  proof (cases "x = a")
    case True
    with low show ?thesis by simp
  next
    case False
    with Cons.prems have "x \<in> set c" by simp
    then have "x - int (length c - 1) * W \<le> sum_list c" "0 < length c" using Cons by (auto dest: length_pos_if_in_set)
    moreover have "- W \<le> a" using Cons.prems by simp
    moreover have "int (length c) * W = int (length c - 1) * W + W"
      using \<open>0 < length c\<close> by (cases c) (auto simp: algebra_simps)
    ultimately show ?thesis by (simp only: length_Cons diff_Suc_1 sum_list.Cons)
  qed
qed simp

lemma wrr_total:
  assumes "\<forall>rep \<in> set reps. 1 \<le> rep_weight rep" "wsum reps \<le> MaxInt64" "n \<le> length reps"
  shows "foldl (\<lambda>t i. wrap64 (t + rep_weight (reps ! i))) 0 [0..<n] = sum_list (map rep_weight (take n reps))"
  using assms(3)
proof (induction n)
  case (Suc n)
  have "wsum (take (Suc n) reps) \<le> wsum reps"
    using wsum_nonneg [of "drop (Suc n) reps"] assms(1)
    by (metis (no_types, lifting) append_take_drop_id in_set_dropD le_add_same_cancel1 map_append of_nat_0_le_iff order_trans sum_list.append)
  moreover have "0 \<le> wsum (take (Suc n) reps)"
    using wsum_nonneg [of "take (Suc n) reps"] assms(1) by (metis in_set_takeD of_nat_0_le_iff order_trans)
  ultimately show ?case using Suc assms(2) by (simp add: take_Suc_conv_app_nth int64_ok_def)
qed simp

lemma sum_list_upd:
  fixes c :: "int list"
  shows "i < length c \<Longrightarrow> sum_list (c[i := v]) = sum_list c + v - c ! i"
  by (induction c arbitrary: i) (auto split: nat.splits)

lemma wrr_upper:
  assumes "wrr_inv reps c" "\<forall>rep \<in> set reps. 1 \<le> rep_weight rep" "i < length reps"
  shows "c ! i \<le> int (length reps - 1) * wsum reps"
  using sum_list_lower [of c "wsum reps" "c ! i"] assms by (force simp: wrr_inv_def in_set_conv_nth)

lemma sum_list_bump:
  fixes c :: "int list"
  shows "length c = length ws \<Longrightarrow> sum_list (map2 (+) c ws) = sum_list c + sum_list ws"
  by (induction c ws rule: list_induct2) auto

lemma wrr_round_all:
  assumes inv: "wrr_inv reps c" and safe: "wrr_safe reps" and round: "wrr_round reps [0..<length reps] c = (b, c')"
  shows "b < length reps" and "wrr_inv reps c'"
    and "i < length reps \<Longrightarrow> c' ! i = c ! i + rep_weight (reps ! i) - (if i = b then wsum reps else 0)"
proof -
  let ?n = "length reps" and ?W = "wsum reps"
  let ?w = "\<lambda>i. rep_weight (reps ! i)"
  have pos: "\<forall>rep \<in> set reps. 1 \<le> rep_weight rep" and ne: "reps \<noteq> []" and
    fits: "int (?n + 1) * ?W \<le> MaxInt64" and len: "length c = ?n"
    using safe inv by (auto simp: wrr_safe_def wrr_inv_def)
  have W: "int ?n \<le> ?W" "0 < ?n" using wsum_nonneg [OF pos] ne by auto
  obtain m where m: "?n = Suc m" using W(2) by (cases ?n) auto
  have nW: "?W \<le> int ?n * ?W" "int (?n - 1) * ?W = int ?n * ?W - ?W"
    using W(1) unfolding m by (simp_all add: algebra_simps)
  define bumped where "bumped = foldl (\<lambda>c i. c[i := wrap64 (c ! i + ?w i)]) c [0..<?n]"
  have bl: "length bumped = ?n"
    using bump_nth(2) [of "[0..<?n]" c] len by (simp add: bumped_def)
  have bn: "bumped ! i = c ! i + ?w i" if "i < ?n" for i
  proof -
    have "- ?W < c ! i" "c ! i \<le> int ?n * ?W - ?W" "?w i \<le> ?W" "1 \<le> ?w i"
      using inv that wrr_upper [OF inv pos that] weight_le_wsum [OF pos that] pos nW(2) by (auto simp: wrr_inv_def)
    then have "int64_ok (c ! i + ?w i)" using fits nW W by (simp add: int64_ok_def algebra_simps)
    then show ?thesis using bump_nth(1) [of "[0..<?n]" c "\<lambda>i v. wrap64 (v + ?w i)" i] that len by (simp add: bumped_def)
  qed
  have "bumped = map2 (+) c (map rep_weight reps)"
    by (rule nth_equalityI) (use bl len bn in auto)
  then have bsum: "sum_list bumped = ?W"
    using sum_list_bump [of c "map rep_weight reps"] inv len by (simp add: wrr_inv_def)
  have tot: "foldl (\<lambda>t i. wrap64 (t + ?w i)) 0 [0..<?n] = ?W"
    using wrr_total [OF pos, of ?n] fits W nW by (simp add: algebra_simps)
  have up: "[0..<?n] = 0 # [1..<?n]" using W by (simp add: upt_conv_Cons)
  note am = foldl_argmax [where f = "\<lambda>i. bumped ! i" and x = 0 and xs = "[1..<?n]"]
  have b: "b = foldl (\<lambda>b i. if bumped ! b < bumped ! i then i else b) 0 [1..<?n]"
    and c': "c' = bumped[b := wrap64 (bumped ! b - ?W)]"
    using round tot by (auto simp: wrr_round_def Let_def up bumped_def)
  show bn': "b < ?n" using am(1) W by (auto simp: b)
  have max: "bumped ! i \<le> bumped ! b" if "i < ?n" for i
    using am(2) [of i] that W by (cases i) (auto simp: b)
  have bpos: "0 < bumped ! b"
  proof (rule ccontr)
    assume "\<not> 0 < bumped ! b"
    then have "\<forall>x \<in> set bumped. x \<le> 0" using max bl by (fastforce simp: in_set_conv_nth)
    then have "sum_list bumped \<le> 0" by (intro sum_list_nonpos) blast
    with bsum W show False by simp
  qed
  have bub: "bumped ! b \<le> int ?n * ?W"
    using bn [OF bn'] wrr_upper [OF inv pos bn'] weight_le_wsum [OF pos bn'] nW by simp
  have ok: "int64_ok (bumped ! b - ?W)" using bpos bub fits nW W by (simp add: int64_ok_def algebra_simps)
  then show nth: "i < ?n \<Longrightarrow> c' ! i = c ! i + ?w i - (if i = b then ?W else 0)" for i
    using bn [of i] bl by (auto simp: c' nth_list_update)
  have "sum_list c' = 0"
    using sum_list_upd [of b bumped] bn' bl bsum ok by (simp add: c')
  moreover have "- ?W < c' ! i" if "i < ?n" for i
  proof (cases "i = b")
    case False
    moreover have "1 \<le> ?w i" using pos that by simp
    ultimately show ?thesis using nth [OF that] inv that by (auto simp: wrr_inv_def)
  qed (use nth [OF that] bpos bn [OF bn'] in simp)
  ultimately show "wrr_inv reps c'" using bl by (simp add: wrr_inv_def c')
qed

lemma wrr_run_counts:
  assumes "wrr_inv reps c" "wrr_safe reps" "wrr_run reps T c = (is, c')"
  shows "wrr_inv reps c' \<and> length is = T \<and> set is \<subseteq> {..<length reps} \<and>
     (\<forall>i < length reps. c' ! i = c ! i + int T * rep_weight (reps ! i) - wsum reps * int (count_list is i))"
  using assms(1,3)
proof (induction T arbitrary: c "is")
  case (Suc T)
  obtain b d js where b: "wrr_round reps [0..<length reps] c = (b, d)" and js: "wrr_run reps T d = (js, c')" and
    [simp]: "is = b # js"
    using Suc.prems(2) by (auto simp: Let_def split: prod.splits)
  note R = wrr_round_all [OF Suc.prems(1) assms(2) b]
  from Suc.IH [OF R(2) js] R show ?case by (auto simp: algebra_simps)
qed simp

lemma wrr_inv_fresh: "wrr_safe reps \<Longrightarrow> wrr_inv reps (replicate (length reps) 0)"
  using wsum_nonneg [of reps] by (auto simp: wrr_safe_def wrr_inv_def sum_list_replicate)

lemma sum_count_list: "set (is :: nat list) \<subseteq> {..<n} \<Longrightarrow> (\<Sum>i<n. count_list is i) = length is"
  by (rule sum_count_set) simp_all

lemma sum_le_equal:
  fixes f g :: "nat \<Rightarrow> int"
  assumes "\<And>i. i < n \<Longrightarrow> f i \<le> g i" "(\<Sum>i<n. f i) = (\<Sum>i<n. g i)" "i < n"
  shows "f i = g i"
proof -
  have "(\<Sum>i<n. g i - f i) = 0" using assms(2) by (simp add: sum_subtractf)
  then show ?thesis using sum_nonneg_eq_0_iff [of "{..<n}" "\<lambda>i. g i - f i"] assms(1,3) by auto
qed

text \<open>From counters at zero: no replica is ever a full pick ahead of its share, and whole periods are exact.\<close>

lemma wrr_run_fair:
  assumes safe: "wrr_safe reps" and run: "wrr_run reps T (replicate (length reps) 0) = (is, c')" and i: "i < length reps"
  shows "wsum reps * int (count_list is i) < int T * rep_weight (reps ! i) + wsum reps"
    and "int T = k * wsum reps \<Longrightarrow> int (count_list is i) = k * rep_weight (reps ! i)"
proof -
  let ?W = "wsum reps"
  have pos: "\<forall>rep \<in> set reps. 1 \<le> rep_weight rep" using safe by (simp add: wrr_safe_def)
  have W: "0 < ?W" using wsum_nonneg [OF pos] i by linarith
  note R = wrr_run_counts [OF wrr_inv_fresh [OF safe] safe run]
  have lt: "?W * int (count_list is i) < int T * rep_weight (reps ! i) + ?W" if "i < length reps" for i
    using R that by (simp add: wrr_inv_def) force
  then show "?W * int (count_list is i) < int T * rep_weight (reps ! i) + ?W" using i by simp
  assume T: "int T = k * ?W"
  have le: "int (count_list is j) \<le> k * rep_weight (reps ! j)" if "j < length reps" for j
  proof -
    have "?W * int (count_list is j) < ?W * (k * rep_weight (reps ! j) + 1)"
      using lt [OF that] T by (simp add: algebra_simps)
    then show ?thesis using W by simp
  qed
  have "(\<Sum>j<length reps. int (count_list is j)) = int T"
    using sum_count_list [of "is" "length reps"] R by (simp flip: of_nat_sum)
  also have "\<dots> = (\<Sum>j<length reps. k * rep_weight (reps ! j))"
    using T by (simp add: sum_list_sum_nth atLeast0LessThan flip: sum_distrib_left)
  finally show "int (count_list is i) = k * rep_weight (reps ! i)"
    using sum_le_equal [of "length reps" "\<lambda>j. int (count_list is j)" "\<lambda>j. k * rep_weight (reps ! j)", OF le _ i]
    by simp
qed

subsection \<open>Runs of selections over a healthy model\<close>

definition all_eligible :: "router \<Rightarrow> time \<Rightarrow> model_entry \<Rightarrow> bool" where
  "all_eligible r now entry \<longleftrightarrow> (\<forall>rep \<in> set (me_replicas entry). \<not> unavailable r now (rep_name rep))"

lemma all_candidates:
  "all_eligible r now entry \<Longrightarrow> candidates r now [] entry = [0..<length (me_replicas entry)]"
  by (simp add: candidates_def all_eligible_def)

lemma all_eligible_cong: "health r' = health r \<Longrightarrow> all_eligible r' now entry = all_eligible r now entry"
  by (simp add: all_eligible_def unavailable_def)

lemma fresh_entry:
  assumes "New ms backends = Inr r" "map_of ms m = Some mc"
  shows "models r m = Some (entry_of backends mc)" "all_eligible r now (entry_of backends mc)"
    "wrr_counters r m n = replicate n 0"
  using New_models [OF assms(1), of m] assms
  by (auto simp: New_def bind_sum_Inr all_eligible_def unavailable_def wrr_counters_def split: if_splits)

text \<open>One selection in terms of the index picked.\<close>

lemma Select_pick:
  assumes "models r m = Some entry" "all_eligible r now entry" "me_replicas entry \<noteq> []"
    and "pick_by_strategy r inflight m entry [0..<length (me_replicas entry)] = (r', Inr i)"
  shows "Select r inflight now m [] =
    (r', Inr \<lparr>PublicModel = m, Backend = rep_name (me_replicas entry ! i),
              Upstream = rep_upstream (me_replicas entry ! i), TypeName = me_typ entry\<rparr>)"
  using assms by (simp add: Select_def all_candidates Let_def)

lemma select_many_wrr:
  assumes "models r m = Some entry" "all_eligible r now entry" "me_replicas entry \<noteq> []"
    and "me_strategy entry = ''weighted-round-robin''"
  shows "select_many r inflight now m T =
    map (\<lambda>i. rep_name (me_replicas entry ! i))
      (fst (wrr_run (me_replicas entry) T (wrr_counters r m (length (me_replicas entry)))))"
  using assms(1,2)
proof (induction T arbitrary: r)
  case (Suc T)
  let ?reps = "me_replicas entry"
  let ?c = "wrr_counters r m (length ?reps)"
  obtain b d where b: "wrr_round ?reps [0..<length ?reps] ?c = (b, d)" by fastforce
  define r' where "r' = r\<lparr>wrr := (wrr r)(m \<mapsto> d)\<rparr>"
  have "length d = length ?reps"
    using wrr_round_length [of ?reps "[0..<length ?reps]" ?c] b by simp
  then have d: "wrr_counters r' m (length ?reps) = d" by (simp add: r'_def wrr_counters_def)
  have "pick_by_strategy r inflight m entry [0..<length ?reps] = (r', Inr b)"
    using assms(4) b by (simp add: pick_by_strategy_def nextWRR_eq Let_def r'_def)
  note sel = Select_pick [OF Suc.prems(1,2) assms(3) this]
  have "models r' m = Some entry" "all_eligible r' now entry"
    using Suc.prems all_eligible_cong [of r' r] by (simp_all add: r'_def)
  from Suc.IH [OF this] d show ?case by (simp add: sel b split: prod.split)
qed simp

lemma count_map_distinct:
  assumes "distinct (map rep_name reps)" "set is \<subseteq> {..<length reps}" "i < length reps"
  shows "count_list (map (\<lambda>i. rep_name (reps ! i)) is) (rep_name (reps ! i)) = count_list is i"
  using assms by (induction "is") (auto simp: distinct_conv_nth)

lemma select_many_rr:
  assumes "models r m = Some entry" "all_eligible r now entry" "me_replicas entry \<noteq> []"
    and "me_strategy entry = ''round-robin''"
    and "unat (case rr r m of None \<Rightarrow> 0 | Some c \<Rightarrow> c) = s" "s + T < 2 ^ 64"
  shows "select_many r inflight now m T =
    map (\<lambda>t. rep_name (me_replicas entry ! (t mod length (me_replicas entry)))) [s..<s + T]"
  using assms(1,2,5,6)
proof (induction T arbitrary: r s)
  case (Suc T)
  let ?n = "length (me_replicas entry)"
  define c where "c = (case rr r m of None \<Rightarrow> 0 | Some c \<Rightarrow> c)"
  define r' where "r' = r\<lparr>rr := (rr r)(m \<mapsto> c + 1)\<rparr>"
  have c: "unat c = s" "s + 1 < 2 ^ 64" using Suc.prems(3,4) by (simp_all add: c_def)
  have "unat (c + 1) = s + 1"
    using c by (simp add: unat_word_ariths unsigned_1)
  have n: "0 < ?n" using assms(3) by simp
  then have "[0..<?n] = 0 # [1..<?n]" by (simp add: upt_conv_Cons)
  then have ring: "ring_pick (s mod ?n) ?n [0..<?n] [0..<?n] p = s mod ?n" for p
    using n by simp
  have "pick_by_strategy r inflight m entry [0..<?n] = (r', Inr (s mod ?n))"
    using assms(4) c ring by (simp add: pick_by_strategy_def next_rr_def r'_def c_def Let_def)
  note sel = Select_pick [OF Suc.prems(1,2) assms(3) this]
  have "models r' m = Some entry" "all_eligible r' now entry"
      "unat (case rr r' m of None \<Rightarrow> 0 | Some c \<Rightarrow> c) = s + 1"
    using Suc.prems all_eligible_cong [of r' r] \<open>unat (c + 1) = s + 1\<close> by (simp_all add: r'_def)
  from Suc.IH [OF this] Suc.prems(4) have IH: "select_many r' inflight now m T =
      map (\<lambda>t. rep_name (me_replicas entry ! (t mod ?n))) [s + 1..<s + 1 + T]" by simp
  have "[s..<s + Suc T] = s # [s + 1..<s + 1 + T]" by (simp add: upt_conv_Cons)
  with IH show ?case by (simp add: sel)
qed simp

text \<open>Every window of \<open>n\<close> consecutive numbers meets every residue once.\<close>

lemma count_residue_window:
  assumes "i < n"
  shows "count_list (map (\<lambda>t. t mod n) [s..<s + k * n]) i = k"
proof (induction k)
  case (Suc k)
  have one: "count_list (map (\<lambda>t. t mod n) [a..<a + n]) i = 1" for a
  proof (induction a)
    case 0
    have "map (\<lambda>t. t mod n) [0..<n] = [0..<n]" by (rule nth_equalityI) auto
    moreover have "count_list [0..<n] i = (if i < n then 1 else 0)" by (induction n) auto
    ultimately show ?case using assms by simp
  next
    case (Suc a)
    have "[a..<a + n] = a # [Suc a..<a + n]" "[Suc a..<Suc a + n] = [Suc a..<a + n] @ [a + n]"
      using assms by (simp_all add: upt_conv_Cons)
    with Suc show ?case by (auto split: if_splits)
  qed
  have "[s..<s + Suc k * n] = [s..<s + k * n] @ [s + k * n..<s + k * n + n]"
    using upt_add_eq_append [of s "s + k * n" n] by (simp add: algebra_simps)
  with Suc one show ?case by simp
qed simp

subsection \<open>Passive health\<close>

lemma failures_streak:
  assumes "ts \<noteq> []" "health r b = None"
  shows "health (foldl (\<lambda>r t. RecordFailure r t b) r ts) b =
     Some \<lparr>h_until = last ts + min (healthBaseCooldown * 2 ^ min (length ts - 1) 16) healthMaxCooldown,
           h_streak = int (length ts)\<rparr>"
  using assms(1)
proof (induction ts rule: rev_induct)
  case (snoc t ts)
  have shift: "nat (min (int n) 16) = min n 16" for n by simp
  have "int64_ok (5000000000 * 2 ^ min n 16)" for n
  proof -
    have "(2::int) ^ min n 16 \<le> 2 ^ 16" by (intro power_increasing) auto
    moreover have "0 < (2::int) ^ min n 16" by simp
    ultimately show ?thesis by (simp add: int64_ok_def del: zero_less_power_eq zero_less_power)
  qed
  from this [of 0] this snoc assms(2) shift show ?case
    by (cases "ts = []") (simp_all add: RecordFailure_def Let_def healthBaseCooldown_def healthMaxCooldown_def healthShiftCap_def)
qed simp

lemma failures_others:
  "b' \<noteq> b \<Longrightarrow> health (foldl (\<lambda>r t. RecordFailure r t b) r ts) b' = health r b'"
  by (induction ts rule: rev_induct) (simp_all add: RecordFailure_def Let_def)

section \<open>Properties\<close>


text \<open>A small configuration for the witnesses: one model over two backends.\<close>

definition ex_backend :: "string \<Rightarrow> backend_cfg" where
  "ex_backend up = \<lparr>be_Server = ''s'', be_BaseURL = ''http://127.0.0.1:1'', be_UpstreamModel = up, be_APIKeyFile = [],
     be_ConnectTimeout = 0, be_HeaderTimeout = 0, be_RequestTimeout = 0, be_StreamIdleTimeout = 0,
     be_MaxConcurrency = 1, be_QueueSize = 1, be_QueueTimeout = 0, be_RelayUpstreamErrors = False\<rparr>"

definition ex_backends :: "(string \<times> backend_cfg) list" where
  "ex_backends = [(''a'', ex_backend ''ua''), (''b'', ex_backend ''ub'')]"

definition ex_models :: "string \<Rightarrow> (string \<times> model_cfg) list" where
  "ex_models strategy = [(''m'', \<lparr>mo_Type = ''generation'', mo_Strategy = strategy, mo_MaxOutputTokens = 0,
     mo_Backends = [\<lparr>br_Name = ''a'', br_Weight = 3\<rparr>, \<lparr>br_Name = ''b'', br_Weight = 1\<rparr>]\<rparr>)]"

definition ex_router :: "string \<Rightarrow> router" where
  "ex_router strategy = \<lparr>models = [''m'' \<mapsto> entry_of ex_backends (snd (hd (ex_models strategy)))],
     order = [''m''], health = Map.empty, rr = Map.empty, wrr = Map.empty\<rparr>"

lemma ex_router: "strategy \<in> set SupportedStrategies \<Longrightarrow> New (ex_models strategy) ex_backends = Inr (ex_router strategy)"
  by (simp add: New_def ex_models_def ex_router_def ex_backends_def ex_backend_def entry_of_def replica_of_def)


text \<open>
  Weighted round-robin is fair. From a new router whose replicas all stay eligible, after any number
  \<open>T\<close> of selections no backend has been picked a full turn more often than its share
  \<open>T * weight / W\<close> (\<open>W\<close> the sum of the weights), and after \<open>k * W\<close> selections each backend has been picked
  exactly \<open>k * weight\<close> times. The weights are assumed small enough for the 64-bit counters.
\<close>

theorem wrr_fair:
  fixes mc defines "W \<equiv> sum_list (map (\<lambda>ref. max (br_Weight ref) 1) (mo_Backends mc))"
  assumes new: "New ms backends = Inr r" and mc: "map_of ms m = Some mc"
    and wrr: "mo_Strategy mc = ''weighted-round-robin''"
    and dist: "distinct (map br_Name (mo_Backends mc))" and ref: "ref \<in> set (mo_Backends mc)"
    and small: "int (length (mo_Backends mc) + 1) * W \<le> MaxInt64"
  shows "W * int (count_list (select_many r inflight now m T) (br_Name ref)) < int T * max (br_Weight ref) 1 + W \<and>
    (int T = k * W \<longrightarrow>
      int (count_list (select_many r inflight now m T) (br_Name ref)) = k * max (br_Weight ref) 1)"
proof -
  note fresh = fresh_entry [OF new mc]
  let ?reps = "map (replica_of backends) (mo_Backends mc)"
  have W: "wsum ?reps = W" by (simp add: W_def replica_of_def comp_def)
  have ne: "mo_Backends mc \<noteq> []" using ref by auto
  have safe: "wrr_safe ?reps" unfolding wrr_safe_def W using small ne by (auto simp: replica_of_def)
  obtain "is" c' where run: "wrr_run ?reps T (replicate (length ?reps) 0) = (is, c')" by fastforce
  obtain i where i: "i < length ?reps" "ref = mo_Backends mc ! i" using ref by (auto simp: in_set_conv_nth)
  have rep: "rep_name (?reps ! i) = br_Name ref" "rep_weight (?reps ! i) = max (br_Weight ref) 1"
    using i by (simp_all add: replica_of_def)
  have bounds: "set is \<subseteq> {..<length ?reps}"
    using wrr_run_counts [OF wrr_inv_fresh [OF safe] safe run] by simp
  have "distinct (map rep_name ?reps)" using dist by (simp add: replica_of_def comp_def)
  from count_map_distinct [OF this bounds i(1)]
  have "count_list (select_many r inflight now m T) (br_Name ref) = count_list is i"
    using select_many_wrr [OF fresh(1,2)] fresh wrr ne run by (simp add: entry_of_def rep)
  with wrr_run_fair [OF safe run i(1), unfolded W rep] show ?thesis by simp
qed

theorem wrr_fair_witness:
  "count_list (select_many (ex_router ''weighted-round-robin'') (\<lambda>b. 0) 0 ''m'' 8) ''a'' = 6"
  using wrr_fair [OF ex_router, where m = "''m''" and mc = "snd (hd (ex_models ''weighted-round-robin''))"
      and ref = "\<lparr>br_Name = ''a'', br_Weight = 3\<rparr>" and k = 2 and T = 8 and inflight = "\<lambda>b. 0" and now = 0]
  by (simp add: ex_models_def SupportedStrategies_def)

text \<open>
  Round-robin is fair from any point of the rotation: while every replica is eligible, any
  \<open>k * n\<close> consecutive selections pick each of the \<open>n\<close> replicas exactly \<open>k\<close> times, whatever the counter has
  reached, as long as it does not wrap.
\<close>

theorem rr_fair:
  assumes reach: "router_reach ms backends r" and mc: "map_of ms m = Some mc"
    and rr: "mo_Strategy mc = ''round-robin''"
    and dist: "distinct (map br_Name (mo_Backends mc))" and ref: "ref \<in> set (mo_Backends mc)"
    and eligible: "\<forall>ref \<in> set (mo_Backends mc). \<not> unavailable r now (br_Name ref)"
    and counter: "unat (case rr r m of None \<Rightarrow> 0 | Some c \<Rightarrow> c) + k * length (mo_Backends mc) < 2 ^ 64"
  shows "count_list (select_many r inflight now m (k * length (mo_Backends mc))) (br_Name ref) = k"
proof -
  let ?e = "entry_of backends mc" and ?n = "length (mo_Backends mc)"
  let ?s = "unat (case rr r m of None \<Rightarrow> 0 | Some c \<Rightarrow> c)"
  have e: "models r m = Some ?e" using reach_models [OF reach, of m] mc by simp
  have all: "all_eligible r now ?e" using eligible by (auto simp: all_eligible_def entry_of_def replica_of_def)
  have ne: "mo_Backends mc \<noteq> []" using ref by auto
  obtain i where i: "i < ?n" "ref = mo_Backends mc ! i" using ref by (auto simp: in_set_conv_nth)
  let ?reps = "me_replicas ?e"
  have reps: "length ?reps = ?n" "rep_name (?reps ! i) = br_Name ref" "distinct (map rep_name ?reps)"
    using i dist by (simp_all add: entry_of_def replica_of_def comp_def)
  have "select_many r inflight now m (k * ?n) =
      map (\<lambda>i. rep_name (?reps ! i)) (map (\<lambda>t. t mod ?n) [?s..<?s + k * ?n])"
    using select_many_rr [OF e all _ _ refl, of "k * ?n"] rr counter ne reps(1)
    by (simp add: entry_of_def)
  moreover have "set (map (\<lambda>t. t mod ?n) [?s..<?s + k * ?n]) \<subseteq> {..<length ?reps}" using ne by (auto simp: reps(1))
  ultimately show ?thesis
    using count_map_distinct [OF reps(3), of "map (\<lambda>t. t mod ?n) [?s..<?s + k * ?n]" i] count_residue_window [OF i(1), of ?s k] reps i(1) by simp
qed

theorem rr_fair_witness:
  "count_list (select_many (ex_router ''round-robin'') (\<lambda>b. 0) 0 ''m'' 10) ''b'' = 5"
  using rr_fair [OF router_reach.new [OF ex_router], where m = "''m''" and mc = "snd (hd (ex_models ''round-robin''))"
      and ref = "\<lparr>br_Name = ''b'', br_Weight = 1\<rparr>" and k = 5 and inflight = "\<lambda>b. 0" and now = 0]
  by (simp add: ex_models_def SupportedStrategies_def unavailable_def ex_router_def)

text \<open>
  Passive health. After \<open>k\<close> connection failures in a row a backend without earlier failures is out of
  rotation exactly until \<open>min (5 s * 2 ^ (k - 1)) 60 s\<close> after the last of them; the state of every other
  backend is untouched; and one success makes it selectable at once.
\<close>

theorem cooldown_exact:
  assumes "ts \<noteq> []" "health r b = None"
  defines "r' \<equiv> foldl (\<lambda>r t. RecordFailure r t b) r ts"
  shows "(unavailable r' now b \<longleftrightarrow> now < last ts + min (5 * Second * 2 ^ min (length ts - 1) 16) Minute) \<and>
    (b' \<noteq> b \<longrightarrow> unavailable r' now b' = unavailable r now b') \<and>
    \<not> unavailable (RecordSuccess r' b) now b"
  using failures_streak [OF assms(1,2)] failures_others [of b' b r ts]
  by (simp add: r'_def unavailable_def RecordSuccess_def healthBaseCooldown_def healthMaxCooldown_def)

theorem cooldown_exact_witness:
  "unavailable (RecordFailure (RecordFailure (ex_router ''single'') 0 ''a'') (2 * Second) ''a'') (11 * Second) ''a''"
  using cooldown_exact [of "[0, 2 * Second]" "ex_router ''single''" "''a''" "11 * Second" "''b''"]
  by (simp add: ex_router_def)

text \<open>
  The load-based strategies pick a least loaded backend. Among the configured replicas that are
  neither excluded nor cooling down, \<open>least-inflight\<close> picks one with the fewest requests in flight, and
  \<open>weighted-least-inflight\<close> one whose score \<open>(inflight + 1) / weight\<close>, computed in floating point, no
  other candidate undercuts (loads and weights up to \<open>2 ^ 53\<close>, where the conversion to float64 is exact).
\<close>

theorem least_loaded:
  assumes reach: "router_reach ms backends r" and mc: "map_of ms m = Some mc"
    and sel: "Select r inflight now m exclude = (r', Inr t)"
    and small: "\<forall>ref \<in> set (mo_Backends mc). br_Weight ref \<le> 2 ^ 53 \<and> \<bar>inflight (br_Name ref) + 1\<bar> \<le> 2 ^ 53"
    and other: "other \<in> set (mo_Backends mc)" "br_Name other \<notin> set exclude" "\<not> unavailable r now (br_Name other)"
  shows "\<exists>ref \<in> set (mo_Backends mc). Backend t = br_Name ref \<and>
    (mo_Strategy mc = ''least-inflight'' \<longrightarrow> inflight (br_Name ref) \<le> inflight (br_Name other)) \<and>
    (mo_Strategy mc = ''weighted-least-inflight'' \<longrightarrow>
       \<not> f64_lt (score inflight (replica_of backends other)) (score inflight (replica_of backends ref)))"
proof -
  let ?reps = "map (replica_of backends) (mo_Backends mc)"
  define cands where "cands = candidates r now exclude (entry_of backends mc)"
  have reps: "me_replicas (entry_of backends mc) = ?reps" "me_strategy (entry_of backends mc) = mo_Strategy mc"
    by (simp_all add: entry_of_def)
  obtain j where j: "j < length ?reps" "other = mo_Backends mc ! j" using other(1) by (auto simp: in_set_conv_nth)
  then have jc: "j \<in> set cands" using other(2,3) by (simp add: cands_def candidates_set reps replica_of_def)
  then have ne: "cands \<noteq> []" by auto
  have e: "models r m = Some (entry_of backends mc)" using reach_models [OF reach, of m] mc by simp
  obtain i where pick: "pick_by_strategy r inflight m (entry_of backends mc) cands = (r', Inr i)" and
      t: "Backend t = rep_name (?reps ! i)"
    using sel e ne by (auto simp: Select_def Let_def reps simp flip: cands_def split: prod.splits sum.splits)
  have "i \<in> set cands" by (rule pick_in [OF pick ne])
  then have i: "i < length (mo_Backends mc)" by (simp add: cands_def candidates_set reps)
  have nn: "\<forall>k \<in> set cands. score inflight (?reps ! k) \<noteq> NaN"
  proof
    fix k assume "k \<in> set cands"
    then have k: "k < length (mo_Backends mc)" by (simp add: cands_def candidates_set reps)
    with small have "br_Weight (mo_Backends mc ! k) \<le> 2 ^ 53" "\<bar>inflight (br_Name (mo_Backends mc ! k)) + 1\<bar> \<le> 2 ^ 53"
      by simp_all
    with k show "score inflight (?reps ! k) \<noteq> NaN"
      using f64_of_int_pos_weight [of "max (br_Weight (mo_Backends mc ! k)) 1"] by (simp add: score_def replica_of_def)
  qed
  have "Backend t = br_Name (mo_Backends mc ! i)" using t i by (simp add: replica_of_def)
  moreover have "inflight (br_Name (mo_Backends mc ! i)) \<le> inflight (br_Name other)"
    if "mo_Strategy mc = ''least-inflight''"
    using least_inflight_best(2) [OF ne jc, of inflight ?reps] pick that i j
    by (simp add: pick_by_strategy_def reps Let_def replica_of_def)
  moreover have "\<not> f64_lt (score inflight (replica_of backends other)) (score inflight (replica_of backends (mo_Backends mc ! i)))"
    if "mo_Strategy mc = ''weighted-least-inflight''"
    using weighted_least_inflight_best(2) [OF ne nn jc] pick that i j
    by (simp add: pick_by_strategy_def reps Let_def)
  ultimately show ?thesis using i nth_mem by blast
qed

theorem least_loaded_witness:
  "Backend (projr (snd (Select (ex_router ''least-inflight'') (\<lambda>b. if b = ''a'' then 2 else 1) 0 ''m'' []))) = ''b''"
proof -
  define f :: "string \<Rightarrow> int" where "f = (\<lambda>b. if b = ''a'' then 2 else 1)"
  let ?r = "ex_router ''least-inflight''"
  have sel: "Select ?r f 0 ''m'' [] = (?r, Inr \<lparr>PublicModel = ''m'', Backend = ''b'', Upstream = ''ub'', TypeName = ''generation''\<rparr>)"
    by (simp add: Select_def ex_router_def candidates_def unavailable_def entry_of_def ex_models_def replica_of_def
        pick_by_strategy_def least_inflight_def f_def ex_backends_def ex_backend_def upt_rec)
  have "\<exists>ref \<in> set (mo_Backends (snd (hd (ex_models ''least-inflight'')))). ''b'' = br_Name ref \<and> f (br_Name ref) \<le> f ''b''"
    using least_loaded [OF router_reach.new [OF ex_router] _ sel, where mc = "snd (hd (ex_models ''least-inflight''))"
        and other = "\<lparr>br_Name = ''b'', br_Weight = 1\<rparr>"]
    by (simp add: ex_models_def SupportedStrategies_def unavailable_def ex_router_def f_def)
  with sel show ?thesis by (simp add: f_def)
qed

end
