(* ===== verification/Json.thy ===== *)
theory Json
  imports Prelude "HOL-Library.AList" "HOL-Library.Char_ord" "HOL-Library.List_Lexorder" "HOL-Library.Multiset"
begin

text \<open>
  The part of Go's \<^verbatim>\<open>encoding/json\<close> that the program uses, at the level of bytes: the syntax
  check and parse of a text, decoding of string literals (escapes, surrogate pairs, invalid UTF-8),
  case-insensitive matching of object keys with struct tags, decoding into the few Go types that
  occur (\<^verbatim>\<open>string\<close>, \<^verbatim>\<open>bool\<close>, \<^verbatim>\<open>int64\<close>, \<^verbatim>\<open>json.Number\<close>, \<^verbatim>\<open>json.RawMessage\<close>, maps and structs), and encoding.

  A parsed text is a tree whose strings and numbers keep their literal bytes, so that a
  \<^verbatim>\<open>json.RawMessage\<close> is a tree: the program looks at a raw message only by decoding it again, by its
  being empty, or by comparing it with \<^verbatim>\<open>null\<close>, and white space between tokens is dropped whenever
  one is encoded.

  Decoding returns the new value together with a flag that says whether \<^verbatim>\<open>json.Unmarshal\<close> reports an
  error: a type mismatch is reported at the end, after the other fields have been stored.
\<close>

section \<open>Definitions\<close>

datatype json =
    JNull
  | JBool bool
  | JNum string
  | JStr string
  | JArr "json list"
  | JObj "(string \<times> json) list"

subsection \<open>Scanning\<close>

definition is_ws :: "char \<Rightarrow> bool" where
  "is_ws c \<longleftrightarrow> byte_of c \<in> {9, 10, 13, 32}"

definition skip_ws :: "string \<Rightarrow> string" where
  "skip_ws = dropWhile is_ws"

definition hex_val :: "char \<Rightarrow> nat option" where
  "hex_val c =
     (let b = byte_of c in
      if 48 \<le> b \<and> b \<le> 57 then Some (b - 48)
      else if 97 \<le> b \<and> b \<le> 102 then Some (b - 87)
      else if 65 \<le> b \<and> b \<le> 70 then Some (b - 55)
      else None)"

definition is_hex :: "char \<Rightarrow> bool" where
  "is_hex c \<longleftrightarrow> hex_val c \<noteq> None"

abbreviation quote_char :: char where "quote_char \<equiv> CHR 0x22"
abbreviation backslash :: char where "backslash \<equiv> CHR 0x5C"

text \<open>The body of a string literal up to its closing quote, with its escapes checked but kept.\<close>

fun scan_str :: "string \<Rightarrow> (string \<times> string) option" where
  "scan_str [] = None"
| "scan_str (c # cs) =
     (if c = quote_char then Some ([], cs)
      else if byte_of c < 32 then None
      else if c = backslash then
        (case cs of
           [] \<Rightarrow> None
         | e # cs' \<Rightarrow>
             if e = CHR ''u'' then
               (case cs' of
                  a # b # c' # d # cs'' \<Rightarrow>
                    if is_hex a \<and> is_hex b \<and> is_hex c' \<and> is_hex d then
                      map_option (\<lambda>(raw, rest). (c # e # a # b # c' # d # raw, rest)) (scan_str cs'')
                    else None
                | _ \<Rightarrow> None)
             else if e \<in> set [quote_char, backslash, CHR ''/'', CHR ''b'', CHR ''f'', CHR ''n'', CHR ''r'', CHR ''t''] then
               map_option (\<lambda>(raw, rest). (c # e # raw, rest)) (scan_str cs')
             else None)
      else map_option (\<lambda>(raw, rest). (c # raw, rest)) (scan_str cs))"

definition scan_digits :: "string \<Rightarrow> string \<times> string" where
  "scan_digits s = (takeWhile is_digit s, dropWhile is_digit s)"

text \<open>\<open>int [frac] [exp]\<close> of the JSON grammar; the longest literal is taken.\<close>

definition scan_int :: "string \<Rightarrow> (string \<times> string) option" where
  "scan_int s =
     (case s of
        [] \<Rightarrow> None
      | c # cs \<Rightarrow>
          if c = CHR ''0'' then Some ([c], cs)
          else if is_digit c then Some (scan_digits s)
          else None)"

definition scan_frac :: "string \<Rightarrow> (string \<times> string) option" where
  "scan_frac s =
     (case s of
        c # cs \<Rightarrow>
          if c = CHR ''.'' then
            (let (ds, rest) = scan_digits cs in if ds = [] then None else Some (c # ds, rest))
          else Some ([], s)
      | [] \<Rightarrow> Some ([], s))"

definition scan_sign :: "string \<Rightarrow> string \<times> string" where
  "scan_sign s = (case s of x # xs \<Rightarrow> if x = CHR ''+'' \<or> x = CHR ''-'' then ([x], xs) else ([], s) | [] \<Rightarrow> ([], s))"

definition scan_exp :: "string \<Rightarrow> (string \<times> string) option" where
  "scan_exp s =
     (case s of
        c # cs \<Rightarrow>
          if c = CHR ''e'' \<or> c = CHR ''E'' then
            (let (sign, cs') = scan_sign cs;
                 (ds, rest) = scan_digits cs'
             in if ds = [] then None else Some (c # sign @ ds, rest))
          else Some ([], s)
      | [] \<Rightarrow> Some ([], s))"

definition scan_num :: "string \<Rightarrow> (string \<times> string) option" where
  "scan_num s =
     (let (sign, s0) = (case s of c # cs \<Rightarrow> if c = CHR ''-'' then ([c], cs) else ([], s) | [] \<Rightarrow> ([], s)) in
      Option.bind (scan_int s0) (\<lambda>(i, s1).
      Option.bind (scan_frac s1) (\<lambda>(f, s2).
      map_option (\<lambda>(e, s3). (sign @ i @ f @ e, s3)) (scan_exp s2))))"

definition scan_lit :: "string \<Rightarrow> json \<Rightarrow> string \<Rightarrow> (json \<times> string) option" where
  "scan_lit lit v s = (if has_prefix s lit then Some (v, drop (length lit) s) else None)"

subsection \<open>Parsing\<close>

definition maxNestingDepth :: nat where "maxNestingDepth = 10000"

text \<open>
  The first argument is fuel, the second the nesting depth. Two units per byte of the text are always
  enough (\<open>parse_fuel_enough\<close> below): more fuel never changes the answer.
\<close>

fun pval :: "nat \<Rightarrow> nat \<Rightarrow> string \<Rightarrow> (json \<times> string) option"
  and pelems :: "nat \<Rightarrow> nat \<Rightarrow> string \<Rightarrow> (json list \<times> string) option"
  and pmembers :: "nat \<Rightarrow> nat \<Rightarrow> string \<Rightarrow> ((string \<times> json) list \<times> string) option" where
  "pval 0 d s = None"
| "pval (Suc n) d s =
     (case skip_ws s of
        [] \<Rightarrow> None
      | c # cs \<Rightarrow>
          if c = quote_char then map_option (\<lambda>(raw, rest). (JStr raw, rest)) (scan_str cs)
          else if c = CHR ''{'' then
            if maxNestingDepth \<le> d then None
            else (case skip_ws cs of
                    x # rest \<Rightarrow> if x = CHR ''}'' then Some (JObj [], rest)
                                else map_option (\<lambda>(ms, r). (JObj ms, r)) (pmembers n (d + 1) cs)
                  | [] \<Rightarrow> None)
          else if c = CHR ''['' then
            if maxNestingDepth \<le> d then None
            else (case skip_ws cs of
                    x # rest \<Rightarrow> if x = CHR '']'' then Some (JArr [], rest)
                                else map_option (\<lambda>(vs, r). (JArr vs, r)) (pelems n (d + 1) cs)
                  | [] \<Rightarrow> None)
          else if c = CHR ''t'' then scan_lit ''true'' (JBool True) (c # cs)
          else if c = CHR ''f'' then scan_lit ''false'' (JBool False) (c # cs)
          else if c = CHR ''n'' then scan_lit ''null'' JNull (c # cs)
          else map_option (\<lambda>(l, rest). (JNum l, rest)) (scan_num (c # cs)))"
| "pelems 0 d s = None"
| "pelems (Suc n) d s =
     (case pval n d s of
        None \<Rightarrow> None
      | Some (v, s1) \<Rightarrow>
          (case skip_ws s1 of
             x # rest \<Rightarrow>
               if x = CHR '','' then map_option (\<lambda>(vs, r). (v # vs, r)) (pelems n d rest)
               else if x = CHR '']'' then Some ([v], rest)
               else None
           | [] \<Rightarrow> None))"
| "pmembers 0 d s = None"
| "pmembers (Suc n) d s =
     (case skip_ws s of
        [] \<Rightarrow> None
      | q # s0 \<Rightarrow>
          if q \<noteq> quote_char then None
          else (case scan_str s0 of
            None \<Rightarrow> None
          | Some (key, s1) \<Rightarrow>
              (case skip_ws s1 of
                 [] \<Rightarrow> None
               | colon # s2 \<Rightarrow>
                   if colon \<noteq> CHR '':'' then None
                   else (case pval n d s2 of
                     None \<Rightarrow> None
                   | Some (v, s3) \<Rightarrow>
                       (case skip_ws s3 of
                          x # rest \<Rightarrow>
                            if x = CHR '','' then map_option (\<lambda>(ms, r). ((key, v) # ms, r)) (pmembers n d rest)
                            else if x = CHR ''}'' then Some ([(key, v)], rest)
                            else None
                        | [] \<Rightarrow> None)))))"

definition json_parse :: "string \<Rightarrow> json option" where
  "json_parse s =
     (case pval (2 * length s + 1) 0 s of
        Some (v, rest) \<Rightarrow> if skip_ws rest = [] then Some v else None
      | None \<Rightarrow> None)"

subsection \<open>UTF-8\<close>

definition RuneError :: nat where "RuneError = 0xFFFD"

definition cont_byte :: "char \<Rightarrow> bool" where
  "cont_byte c \<longleftrightarrow> 0x80 \<le> byte_of c \<and> byte_of c \<le> 0xBF"

text \<open>\<^verbatim>\<open>utf8.DecodeRune\<close>: the first rune and the number of bytes it takes (0 at the end).\<close>

definition decode_rune :: "string \<Rightarrow> nat \<times> nat" where
  "decode_rune s =
     (case s of
        [] \<Rightarrow> (RuneError, 0)
      | c0 # cs \<Rightarrow>
          (let b0 = byte_of c0 in
           if b0 < 0x80 then (b0, 1)
           else if 0xC2 \<le> b0 \<and> b0 \<le> 0xDF then
             (case cs of
                c1 # _ \<Rightarrow> if cont_byte c1 then ((b0 - 0xC0) * 64 + (byte_of c1 - 0x80), 2) else (RuneError, 1)
              | _ \<Rightarrow> (RuneError, 1))
           else if 0xE0 \<le> b0 \<and> b0 \<le> 0xEF then
             (case cs of
                c1 # c2 # _ \<Rightarrow>
                  if cont_byte c1 \<and> (b0 = 0xE0 \<longrightarrow> 0xA0 \<le> byte_of c1) \<and> (b0 = 0xED \<longrightarrow> byte_of c1 \<le> 0x9F) \<and> cont_byte c2
                  then ((b0 - 0xE0) * 4096 + (byte_of c1 - 0x80) * 64 + (byte_of c2 - 0x80), 3)
                  else (RuneError, 1)
              | _ \<Rightarrow> (RuneError, 1))
           else if 0xF0 \<le> b0 \<and> b0 \<le> 0xF4 then
             (case cs of
                c1 # c2 # c3 # _ \<Rightarrow>
                  if cont_byte c1 \<and> (b0 = 0xF0 \<longrightarrow> 0x90 \<le> byte_of c1) \<and> (b0 = 0xF4 \<longrightarrow> byte_of c1 \<le> 0x8F) \<and>
                     cont_byte c2 \<and> cont_byte c3
                  then ((b0 - 0xF0) * 262144 + (byte_of c1 - 0x80) * 4096 + (byte_of c2 - 0x80) * 64 + (byte_of c3 - 0x80), 4)
                  else (RuneError, 1)
              | _ \<Rightarrow> (RuneError, 1))
           else (RuneError, 1)))"

definition is_surrogate :: "nat \<Rightarrow> bool" where
  "is_surrogate r \<longleftrightarrow> 0xD800 \<le> r \<and> r < 0xE000"

text \<open>\<^verbatim>\<open>utf8.AppendRune\<close>: what is not a Unicode scalar value becomes the replacement character.\<close>

definition encode_rune :: "nat \<Rightarrow> string" where
  "encode_rune r =
     (if r < 0x80 then [char_of r]
      else if r < 0x800 then [char_of (0xC0 + r div 64), char_of (0x80 + r mod 64)]
      else if is_surrogate r \<or> 0x10FFFF < r then [char_of (0xEF::nat), char_of (0xBF::nat), char_of (0xBD::nat)]
      else if r < 0x10000 then
        [char_of (0xE0 + r div 4096), char_of (0x80 + r div 64 mod 64), char_of (0x80 + r mod 64)]
      else
        [char_of (0xF0 + r div 262144), char_of (0x80 + r div 4096 mod 64), char_of (0x80 + r div 64 mod 64),
         char_of (0x80 + r mod 64)])"

subsection \<open>String literals\<close>

text \<open>\<^verbatim>\<open>getu4\<close>: the code unit of a four-digit escape at the head of the text.\<close>

definition getu4 :: "string \<Rightarrow> nat option" where
  "getu4 s =
     (case s of
        x # y # a # b # c # d # _ \<Rightarrow>
          if x = backslash \<and> y = CHR ''u'' then
            Option.bind (hex_val a) (\<lambda>a. Option.bind (hex_val b) (\<lambda>b. Option.bind (hex_val c) (\<lambda>c.
              map_option (\<lambda>d. a * 4096 + b * 256 + c * 16 + d) (hex_val d))))
          else None
      | _ \<Rightarrow> None)"

text \<open>\<^verbatim>\<open>utf16.DecodeRune\<close>.\<close>

definition utf16_decode :: "nat \<Rightarrow> nat \<Rightarrow> nat" where
  "utf16_decode r1 r2 =
     (if 0xD800 \<le> r1 \<and> r1 < 0xDC00 \<and> 0xDC00 \<le> r2 \<and> r2 < 0xE000
      then (r1 - 0xD800) * 1024 + (r2 - 0xDC00) + 0x10000
      else RuneError)"

text \<open>The value of a string literal from its checked body (\<^verbatim>\<open>unquoteBytes\<close>).\<close>

function unquote :: "string \<Rightarrow> string" where
  "unquote [] = []"
| "unquote (c # cs) =
     (if c = backslash then
        (case cs of
           [] \<Rightarrow> []
         | e # cs' \<Rightarrow>
             if e = CHR ''u'' then
               (case getu4 (c # cs) of
                  None \<Rightarrow> []
                | Some rr \<Rightarrow>
                    let rest = drop 4 cs' in
                    if is_surrogate rr then
                      (case getu4 rest of
                         Some rr1 \<Rightarrow>
                           (let dec = utf16_decode rr rr1 in
                            if dec \<noteq> RuneError then encode_rune dec @ unquote (drop 6 rest)
                            else encode_rune RuneError @ unquote rest)
                       | None \<Rightarrow> encode_rune RuneError @ unquote rest)
                    else encode_rune rr @ unquote rest)
             else (if e = CHR ''b'' then CHR 0x08 else if e = CHR ''f'' then CHR 0x0C
                   else if e = CHR ''n'' then CHR 0x0A else if e = CHR ''r'' then CHR 0x0D
                   else if e = CHR ''t'' then CHR 0x09 else e) # unquote cs')
      else
        (let (rr, size) = decode_rune (c # cs) in encode_rune rr @ unquote (drop (size - 1) cs)))"
  by pat_completeness auto
termination by (relation "measure length") (auto simp: less_Suc_eq_le)

text \<open>
  \<^verbatim>\<open>appendString\<close>: the literal of a string, with its quotes. With \<open>html\<close> the characters that matter
  in HTML are escaped as well.
\<close>

definition safe_byte :: "bool \<Rightarrow> nat \<Rightarrow> bool" where
  "safe_byte html b \<longleftrightarrow> 32 \<le> b \<and> b < 0x80 \<and> b \<noteq> 0x22 \<and> b \<noteq> 0x5C \<and> (html \<longrightarrow> b \<notin> {0x26, 0x3C, 0x3E})"

definition quote_ascii :: "bool \<Rightarrow> char \<Rightarrow> string" where
  "quote_ascii html c =
     (let b = byte_of c in
      if safe_byte html b then [c]
      else if b = 0x5C \<or> b = 0x22 then [backslash, c]
      else if b = 8 then [backslash, CHR ''b'']
      else if b = 12 then [backslash, CHR ''f'']
      else if b = 10 then [backslash, CHR ''n'']
      else if b = 13 then [backslash, CHR ''r'']
      else if b = 9 then [backslash, CHR ''t'']
      else [backslash, CHR ''u'', CHR ''0'', CHR ''0'', hex_digit (b div 16), hex_digit (b mod 16)])"

function quote_body :: "bool \<Rightarrow> string \<Rightarrow> string" where
  "quote_body html [] = []"
| "quote_body html (c # cs) =
     (if byte_of c < 0x80 then quote_ascii html c @ quote_body html cs
      else
        (let (rr, size) = decode_rune (c # cs) in
         if rr = RuneError \<and> size = 1 then [backslash, CHR ''u'', CHR ''f'', CHR ''f'', CHR ''f'', CHR ''d''] @ quote_body html cs
         else if rr = 0x2028 \<or> rr = 0x2029 then
           [backslash, CHR ''u'', CHR ''2'', CHR ''0'', CHR ''2'', hex_digit (rr mod 16)] @ quote_body html (drop (size - 1) cs)
         else take size (c # cs) @ quote_body html (drop (size - 1) cs)))"
  by pat_completeness auto
termination by (relation "measure (\<lambda>(_, s). length s)") (auto simp: less_Suc_eq_le)

subsection \<open>Encoding\<close>

text \<open>The escaping that \<^verbatim>\<open>json.Marshal\<close> applies inside the strings of a raw message.\<close>

fun esc_html :: "string \<Rightarrow> string" where
  "esc_html [] = []"
| "esc_html (c # cs) =
     (let b = byte_of c in
      if b \<in> {0x26, 0x3C, 0x3E} then
        [backslash, CHR ''u'', CHR ''0'', CHR ''0'', hex_digit (b div 16), hex_digit (b mod 16)] @ esc_html cs
      else if b = 0xE2 then
        (case cs of
           c1 # c2 # cs' \<Rightarrow>
             if byte_of c1 = 0x80 \<and> byte_of c2 \<in> {0xA8, 0xA9}
             then [backslash, CHR ''u'', CHR ''2'', CHR ''0'', CHR ''2'', hex_digit (byte_of c2 mod 16)] @ esc_html cs'
             else c # esc_html cs
         | _ \<Rightarrow> c # esc_html cs)
      else c # esc_html cs)"

fun esc_json :: "json \<Rightarrow> json" where
  "esc_json (JStr raw) = JStr (esc_html raw)"
| "esc_json (JArr vs) = JArr (map esc_json vs)"
| "esc_json (JObj ms) = JObj (map (\<lambda>(k, v). (esc_html k, esc_json v)) ms)"
| "esc_json v = v"

text \<open>\<^verbatim>\<open>json.Compact\<close>: the text of a tree without white space.\<close>

fun compact :: "json \<Rightarrow> string" where
  "compact JNull = ''null''"
| "compact (JBool b) = (if b then ''true'' else ''false'')"
| "compact (JNum l) = l"
| "compact (JStr raw) = quote_char # raw @ [quote_char]"
| "compact (JArr vs) = CHR ''['' # join_with (CHR '','') (map compact vs) @ [CHR '']'']"
| "compact (JObj ms) =
     CHR ''{'' # join_with (CHR '','') (map (\<lambda>(k, v). quote_char # k @ quote_char # CHR '':'' # compact v) ms) @ [CHR ''}'']"

text \<open>A Go map with string keys is an association list with distinct keys; it is encoded in key order.\<close>

type_synonym raw_map = "(string \<times> json) list"

definition encode_map :: "bool \<Rightarrow> raw_map \<Rightarrow> json" where
  "encode_map html m =
     JObj (map (\<lambda>(k, v). (quote_body html k, if html then esc_json v else v)) (sort_key fst m))"

definition encode_string :: "string \<Rightarrow> json" where
  "encode_string s = JStr (quote_body True s)"

subsection \<open>Decoding\<close>

definition parse_int64 :: "string \<Rightarrow> int option" where
  "parse_int64 s =
     (let (neg, ds) = (case s of
                         c # cs \<Rightarrow> if c = CHR ''-'' then (True, cs) else if c = CHR ''+'' then (False, cs) else (False, s)
                       | [] \<Rightarrow> (False, s));
          n = foldl (\<lambda>a c. a * 10 + int (byte_of c) - 48) 0 ds;
          v = (if neg then - n else n)
      in if ds = [] \<or> \<not> list_all is_digit ds \<or> \<not> int64_ok v then None else Some v)"

fun dec_string :: "json \<Rightarrow> string \<Rightarrow> string \<times> bool" where
  "dec_string (JStr raw) old = (unquote raw, False)"
| "dec_string JNull old = (old, False)"
| "dec_string _ old = (old, True)"

fun dec_bool :: "json \<Rightarrow> bool \<Rightarrow> bool \<times> bool" where
  "dec_bool (JBool b) old = (b, False)"
| "dec_bool JNull old = (old, False)"
| "dec_bool _ old = (old, True)"

fun dec_int64 :: "json \<Rightarrow> int \<Rightarrow> int \<times> bool" where
  "dec_int64 (JNum l) old = (case parse_int64 l of Some n \<Rightarrow> (n, False) | None \<Rightarrow> (old, True))"
| "dec_int64 JNull old = (old, False)"
| "dec_int64 _ old = (old, True)"

text \<open>\<^verbatim>\<open>json.Number\<close>: a number keeps its literal; a string is accepted when it spells a number.\<close>

fun dec_number :: "json \<Rightarrow> string \<Rightarrow> string \<times> bool" where
  "dec_number (JNum l) old = (l, False)"
| "dec_number (JStr raw) old =
     (let s = unquote raw in
      case scan_num s of Some (l, []) \<Rightarrow> (s, False) | _ \<Rightarrow> (old, True))"
| "dec_number JNull old = (old, False)"
| "dec_number _ old = (old, True)"

text \<open>A \<^verbatim>\<open>json.RawMessage\<close> field: \<open>None\<close> is the empty message.\<close>

fun dec_raw :: "json \<Rightarrow> json option \<Rightarrow> json option \<times> bool" where
  "dec_raw v old = (Some v, False)"

fun dec_raw_list :: "json \<Rightarrow> json list \<Rightarrow> json list \<times> bool" where
  "dec_raw_list (JArr vs) old = (vs, False)"
| "dec_raw_list JNull old = ([], False)"
| "dec_raw_list _ old = (old, True)"

text \<open>A \<^verbatim>\<open>map[string]json.RawMessage\<close>: \<open>None\<close> is the nil map; a repeated key keeps its last value.\<close>

fun dec_map :: "json \<Rightarrow> raw_map option \<Rightarrow> raw_map option \<times> bool" where
  "dec_map (JObj ms) old =
     (Some (foldl (\<lambda>m (k, v). AList.update (unquote k) v m) (case old of None \<Rightarrow> [] | Some m \<Rightarrow> m) ms), False)"
| "dec_map JNull old = (None, False)"
| "dec_map _ old = (old, True)"

text \<open>
  Matching of an object key with a struct field: the exact tag, else the tag that agrees under Unicode
  case folding. Beside the ASCII letters only the Kelvin sign and the long s fold to ASCII.
\<close>

definition to_upper :: "char \<Rightarrow> char" where
  "to_upper c = (if is_lower c then char_of (byte_of c - 32) else c)"

function fold_name :: "string \<Rightarrow> string" where
  "fold_name [] = []"
| "fold_name (c # cs) =
     (let (rr, size) = decode_rune (c # cs) in
      (if rr < 0x80 then [to_upper (char_of rr)]
       else if rr = 0x17F then ''S''
       else if rr = 0x212A then ''K''
       else encode_rune rr) @ fold_name (drop (size - 1) cs))"
  by pat_completeness auto
termination by (relation "measure length") (auto simp: less_Suc_eq_le)

definition find_tag :: "string list \<Rightarrow> string \<Rightarrow> string option" where
  "find_tag tags key =
     (if key \<in> set tags then Some key else find (\<lambda>t. map to_upper t = fold_name key) tags)"

text \<open>
  A struct: each member whose key matches a tag is decoded into that field by \<open>field\<close>, the others are
  skipped; \<^verbatim>\<open>null\<close> leaves the struct alone.
\<close>

fun dec_members ::
  "string list \<Rightarrow> (string \<Rightarrow> json \<Rightarrow> 'r \<Rightarrow> 'r \<times> bool) \<Rightarrow> (string \<times> json) list \<Rightarrow> 'r \<times> bool \<Rightarrow> 'r \<times> bool" where
  "dec_members tags field [] (r, err) = (r, err)"
| "dec_members tags field ((k, v) # ms) (r, err) =
     (case find_tag tags (unquote k) of
        None \<Rightarrow> dec_members tags field ms (r, err)
      | Some t \<Rightarrow> (let (r', e) = field t v r in dec_members tags field ms (r', err \<or> e)))"

fun dec_struct ::
  "string list \<Rightarrow> (string \<Rightarrow> json \<Rightarrow> 'r \<Rightarrow> 'r \<times> bool) \<Rightarrow> json \<Rightarrow> 'r \<Rightarrow> 'r \<times> bool" where
  "dec_struct tags field (JObj ms) r = dec_members tags field ms (r, False)"
| "dec_struct tags field JNull r = (r, False)"
| "dec_struct tags field _ r = (r, True)"

text \<open>A pointer to a struct: \<^verbatim>\<open>null\<close> makes it nil, an object is decoded into the struct it points to.\<close>

definition dec_ptr :: "'r \<Rightarrow> (json \<Rightarrow> 'r \<Rightarrow> 'r \<times> bool) \<Rightarrow> json \<Rightarrow> 'r option \<Rightarrow> 'r option \<times> bool" where
  "dec_ptr zero dec v old =
     (if v = JNull then (None, False)
      else let (r, e) = dec v (case old of None \<Rightarrow> zero | Some r \<Rightarrow> r) in (Some r, e))"

text \<open>\<^verbatim>\<open>json.Unmarshal\<close>: a text that does not parse leaves the value alone and is an error.\<close>

definition unmarshal :: "(json \<Rightarrow> 'r \<Rightarrow> 'r \<times> bool) \<Rightarrow> string \<Rightarrow> 'r \<Rightarrow> 'r \<times> bool" where
  "unmarshal dec s r = (case json_parse s of None \<Rightarrow> (r, True) | Some v \<Rightarrow> dec v r)"

definition set_field :: "'a \<times> bool \<Rightarrow> ('a \<Rightarrow> 'r) \<Rightarrow> 'r \<times> bool" where
  "set_field x f = (case x of (a, e) \<Rightarrow> (f a, e))"

section \<open>Lemmas\<close>

subsection \<open>Literals are recognised wherever they stand\<close>

definition ok_str :: "string \<Rightarrow> bool" where
  "ok_str raw \<longleftrightarrow> (\<forall>rest. scan_str (raw @ quote_char # rest) = Some (raw, rest))"

lemma ok_str_plain: "ok_str raw \<Longrightarrow> c \<noteq> quote_char \<Longrightarrow> c \<noteq> backslash \<Longrightarrow> \<not> byte_of c < 32 \<Longrightarrow> ok_str (c # raw)"
  by (simp add: ok_str_def)

lemma byte_of_backslash [simp]: "byte_of backslash = 92"
  by (simp add: byte_of_def)

lemma ok_str_esc:
  "ok_str raw \<Longrightarrow> e \<noteq> CHR ''u'' \<Longrightarrow>
     e \<in> set [quote_char, backslash, CHR ''/'', CHR ''b'', CHR ''f'', CHR ''n'', CHR ''r'', CHR ''t''] \<Longrightarrow> ok_str (backslash # e # raw)"
  by (simp add: ok_str_def)

lemma ok_str_u:
  "ok_str raw \<Longrightarrow> is_hex a \<Longrightarrow> is_hex b \<Longrightarrow> is_hex c \<Longrightarrow> is_hex d \<Longrightarrow> ok_str (backslash # CHR ''u'' # a # b # c # d # raw)"
  by (simp add: ok_str_def)

lemma scan_str_Some:
  "scan_str s = Some (raw, rest) \<Longrightarrow> s = raw @ quote_char # rest \<and> ok_str raw"
proof (induction s arbitrary: raw rest rule: scan_str.induct)
  case (2 c cs)
  consider "c = quote_char" | "c \<noteq> quote_char" "c = backslash" | "c \<noteq> quote_char" "\<not> byte_of c < 32" "c \<noteq> backslash"
    using "2.prems" by (force split: if_splits)
  then show ?case
  proof cases
    case 1
    with "2.prems" show ?thesis by (simp add: ok_str_def)
  next
    case q: 2
    then obtain e cs' where cs: "cs = e # cs'" using "2.prems" by (cases cs) auto
    show ?thesis
    proof (cases "e = CHR ''u''")
      case True
      obtain a b c' d cs'' where cs': "cs' = a # b # c' # d # cs''"
        using "2.prems" q cs True by (auto split: list.splits)
      with "2.prems" q cs True obtain raw' where h: "is_hex a" "is_hex b" "is_hex c'" "is_hex d" and
          r: "scan_str cs'' = Some (raw', rest)" "raw = c # e # a # b # c' # d # raw'"
        by (auto split: if_splits)
      have "cs'' = raw' @ quote_char # rest \<and> ok_str raw'"
        using "2.IH"(1) [OF q(1) _ q(2) cs True cs' refl refl refl _ r(1)] h q by simp
      with ok_str_u [of raw'] h r q cs cs' True show ?thesis by simp
    next
      case False
      with "2.prems" q cs obtain raw' where r: "scan_str cs' = Some (raw', rest)" "raw = c # e # raw'" and
          e: "e \<in> set [quote_char, backslash, CHR ''/'', CHR ''b'', CHR ''f'', CHR ''n'', CHR ''r'', CHR ''t'']"
        by (auto split: if_splits)
      have "cs' = raw' @ quote_char # rest \<and> ok_str raw'"
        by (rule "2.IH"(2) [OF q(1) _ q(2) cs False e r(1)]) (use q in simp)
      with ok_str_esc [of raw' e] False e r q cs show ?thesis by simp
    qed
  next
    case 3
    with "2.prems" obtain raw' where r: "scan_str cs = Some (raw', rest)" "raw = c # raw'" by auto
    have "cs = raw' @ quote_char # rest \<and> ok_str raw'" by (rule "2.IH"(3) [OF 3 r(1)])
    with ok_str_plain [of raw'] 3 r show ?thesis by simp
  qed
qed simp

abbreviation delimited :: "string \<Rightarrow> bool" where
  "delimited rest \<equiv> rest = [] \<or> hd rest \<in> {CHR '','', CHR '']'', CHR ''}''}"

definition ok_num :: "string \<Rightarrow> bool" where
  "ok_num l \<longleftrightarrow> l \<noteq> [] \<and> (hd l = CHR ''-'' \<or> is_digit (hd l)) \<and>
     (\<forall>rest. delimited rest \<longrightarrow> scan_num (l @ rest) = Some (l, rest))"

lemma digit_delim: "delimited rest \<Longrightarrow> rest = [] \<or> \<not> is_digit (hd rest)"
  by (auto simp: is_digit_def byte_of_def)

lemma scan_digits_delim: "(rest = [] \<or> \<not> is_digit (hd rest)) \<Longrightarrow> list_all is_digit ds \<Longrightarrow> scan_digits (ds @ rest) = (ds, rest)"
  by (cases rest) (auto simp: scan_digits_def list_all_iff)

lemma scan_digits_Some: "scan_digits s = (ds, rest) \<Longrightarrow> s = ds @ rest \<and> list_all is_digit ds \<and> (rest = [] \<or> \<not> is_digit (hd rest))"
  by (auto simp: scan_digits_def list_all_iff dest: set_takeWhileD hd_dropWhile)

lemma scan_int_Some:
  assumes "scan_int s = Some (i, rest)"
  shows "s = i @ rest \<and> i \<noteq> [] \<and> is_digit (hd i) \<and>
    ((r' = [] \<or> \<not> is_digit (hd r')) \<longrightarrow> scan_int (i @ r') = Some (i, r'))"
proof -
  obtain c cs where s: "s = c # cs" using assms by (cases s) (auto simp: scan_int_def)
  show ?thesis
  proof (cases "c = CHR ''0''")
    case True
    with assms s show ?thesis by (auto simp: scan_int_def is_digit_def byte_of_def)
  next
    case False
    with assms s have d: "is_digit c" "scan_digits s = (i, rest)" by (auto simp: scan_int_def split: if_splits)
    then obtain i' where i: "i = c # i'" using s by (auto simp: scan_digits_def)
    have "scan_int (i @ r') = Some (i, r')" if "r' = [] \<or> \<not> is_digit (hd r')"
      using that scan_digits_delim [of r' i] scan_digits_Some [OF d(2)] i d(1) False by (simp add: scan_int_def)
    with scan_digits_Some [OF d(2)] i d show ?thesis by auto
  qed
qed

lemma scan_frac_Some:
  assumes "scan_frac s = Some (f, rest)"
  shows "s = f @ rest" "f \<noteq> [] \<Longrightarrow> hd f = CHR ''.''"
    and "(r' = [] \<or> \<not> is_digit (hd r')) \<Longrightarrow> (f = [] \<longrightarrow> r' = [] \<or> hd r' \<noteq> CHR ''.'') \<Longrightarrow> scan_frac (f @ r') = Some (f, r')"
proof -
  show "s = f @ rest" "f \<noteq> [] \<Longrightarrow> hd f = CHR ''.''"
    using assms by (auto simp: scan_frac_def split: list.splits if_splits prod.splits dest!: scan_digits_Some)
  assume r': "r' = [] \<or> \<not> is_digit (hd r')" "f = [] \<longrightarrow> r' = [] \<or> hd r' \<noteq> CHR ''.''"
  show "scan_frac (f @ r') = Some (f, r')"
  proof (cases f)
    case Nil
    with r' show ?thesis by (cases r') (auto simp: scan_frac_def)
  next
    case (Cons c ds)
    with assms have "c = CHR ''.''" "ds \<noteq> []" "list_all is_digit ds"
      by (auto simp: scan_frac_def split: list.splits if_splits prod.splits dest!: scan_digits_Some)
    with Cons scan_digits_delim [OF r'(1), of ds] show ?thesis by (simp add: scan_frac_def)
  qed
qed

lemma scan_exp_Some:
  assumes "scan_exp s = Some (e, rest)"
  shows "s = e @ rest" "e \<noteq> [] \<Longrightarrow> hd e \<in> {CHR ''e'', CHR ''E''}"
    and "delimited r' \<Longrightarrow> scan_exp (e @ r') = Some (e, r')"
proof -
  have "(e = [] \<and> s = rest) \<or> (\<exists>c sign ds. e = c # sign @ ds \<and> c \<in> {CHR ''e'', CHR ''E''} \<and> ds \<noteq> [] \<and> list_all is_digit ds \<and>
      (sign = [] \<or> sign = ''+'' \<or> sign = ''-'') \<and> s = e @ rest)"
  proof (cases "s \<noteq> [] \<and> hd s \<in> {CHR ''e'', CHR ''E''}")
    case True
    then obtain c cs where s: "s = c # cs" "c \<in> {CHR ''e'', CHR ''E''}" by (cases s) auto
    obtain sign cs' where sign: "scan_sign cs = (sign, cs')" by fastforce
    obtain ds r where ds: "scan_digits cs' = (ds, r)" by fastforce
    have "ds \<noteq> []" "e = c # sign @ ds" "r = rest"
      using assms s sign ds by (auto simp: scan_exp_def split: if_splits)
    moreover have "cs = sign @ cs'" "sign = [] \<or> sign = ''+'' \<or> sign = ''-''"
      using sign by (auto simp: scan_sign_def split: list.splits if_splits)
    ultimately show ?thesis using s scan_digits_Some [OF ds] by auto
  next
    case False
    with assms show ?thesis by (cases s) (auto simp: scan_exp_def)
  qed
  then consider "e = []" "s = rest" | c sign ds where "e = c # sign @ ds" "c \<in> {CHR ''e'', CHR ''E''}" "ds \<noteq> []"
      "list_all is_digit ds" "sign = [] \<or> sign = ''+'' \<or> sign = ''-''" "s = e @ rest"
    by blast
  then have "s = e @ rest \<and> (e \<noteq> [] \<longrightarrow> hd e \<in> {CHR ''e'', CHR ''E''}) \<and>
      (delimited r' \<longrightarrow> scan_exp (e @ r') = Some (e, r'))"
  proof cases
    case 1
    then show ?thesis by (cases r') (auto simp: scan_exp_def)
  next
    case (2 c sign ds)
    have "scan_digits (ds @ r') = (ds, r')" if "delimited r'"
      using scan_digits_delim [OF digit_delim [OF that] 2(4)] .
    moreover have sg: "\<not> (hd ds = CHR ''+'' \<or> hd ds = CHR ''-'')" "ds = hd ds # tl ds"
      using 2(3,4) by (cases ds; auto simp: is_digit_def byte_of_def)+
    then have "scan_sign (sign @ ds @ r') = (sign, ds @ r')"
      using 2(5) by (cases ds) (auto simp: scan_sign_def)
    ultimately show ?thesis using 2 by (auto simp: scan_exp_def)
  qed
  then show "s = e @ rest" "e \<noteq> [] \<Longrightarrow> hd e \<in> {CHR ''e'', CHR ''E''}"
    "delimited r' \<Longrightarrow> scan_exp (e @ r') = Some (e, r')" by blast+
qed

lemma scan_num_Some:
  assumes "scan_num s = Some (l, rest)"
  shows "s = l @ rest \<and> ok_num l"
proof -
  obtain sign s0 where sign: "(sign = [] \<and> s0 = s \<and> (s = [] \<or> hd s \<noteq> CHR ''-'')) \<or> (sign = ''-'' \<and> s = CHR ''-'' # s0)"
      "(case s of c # cs \<Rightarrow> if c = CHR ''-'' then ([c], cs) else ([], s) | [] \<Rightarrow> ([], s)) = (sign, s0)"
    by (cases s; cases "hd s = CHR ''-''") auto
  obtain i s1 f s2 e where i: "scan_int s0 = Some (i, s1)" and f: "scan_frac s1 = Some (f, s2)" and
      e: "scan_exp s2 = Some (e, rest)" and l: "l = sign @ i @ f @ e"
    using assms sign(2) by (auto simp: scan_num_def Option.bind_eq_Some_conv)
  have sm: "s = l @ rest" using scan_int_Some [OF i] scan_frac_Some(1) [OF f] scan_exp_Some(1) [OF e] sign(1) l by auto
  have ok: "scan_num (l @ r) = Some (l, r)" if r: "delimited r" for r
  proof -
    have d: "r = [] \<or> \<not> is_digit (hd r)" using digit_delim [OF r] .
    have e': "scan_exp (e @ r) = Some (e, r)" using scan_exp_Some(3) [OF e r] .
    have ed: "e @ r = [] \<or> \<not> is_digit (hd (e @ r)) \<and> hd (e @ r) \<noteq> CHR ''.''"
    proof (cases "e = []")
      case True
      then show ?thesis using d r by auto
    next
      case False
      then have "hd (e @ r) \<in> {CHR ''e'', CHR ''E''}" using scan_exp_Some(2) [OF e] by simp
      then show ?thesis by (auto simp: is_digit_def byte_of_def)
    qed
    then have f': "scan_frac (f @ e @ r) = Some (f, e @ r)" using scan_frac_Some(3) [OF f, of "e @ r"] by auto
    have fd: "f @ e @ r = [] \<or> \<not> is_digit (hd (f @ e @ r))"
      using scan_frac_Some(2) [OF f] ed by (cases f) (auto simp: is_digit_def byte_of_def)
    have i': "scan_int (i @ f @ e @ r) = Some (i, f @ e @ r)"
      by (rule scan_int_Some [OF i, THEN conjunct2, THEN conjunct2, THEN conjunct2, THEN mp, OF fd])
    have "hd i \<noteq> CHR ''-''" "i \<noteq> []" using scan_int_Some [OF i, of "[]"] by (auto simp: is_digit_def byte_of_def)
    then have "(case l @ r of c # cs \<Rightarrow> if c = CHR ''-'' then ([c], cs) else ([], l @ r) | [] \<Rightarrow> ([], l @ r)) =
        (sign, i @ f @ e @ r)"
      using sign(1) by (cases i) (auto simp: l)
    then show ?thesis unfolding scan_num_def using i' f' e' by (simp only: Let_def case_prod_conv) (simp add: l)
  qed
  have "l \<noteq> [] \<and> (hd l = CHR ''-'' \<or> is_digit (hd l))"
    using scan_int_Some [OF i, of "[]"] sign(1) by (auto simp: l)
  with sm ok show ?thesis by (simp add: ok_num_def)
qed

subsection \<open>Trees that come out of the parser\<close>

fun wf_json :: "nat \<Rightarrow> json \<Rightarrow> bool" where
  "wf_json d (JStr raw) = ok_str raw"
| "wf_json d (JNum l) = ok_num l"
| "wf_json d (JArr vs) = (d < maxNestingDepth \<and> (\<forall>v \<in> set vs. wf_json (d + 1) v))"
| "wf_json d (JObj ms) = (d < maxNestingDepth \<and> (\<forall>kv \<in> set ms. ok_str (fst kv) \<and> wf_json (d + 1) (snd kv)))"
| "wf_json d _ = True"

lemma parse_wf:
  "pval n d s = Some (v, rest) \<Longrightarrow> wf_json d v"
  "pelems n d s = Some (vs, rest) \<Longrightarrow> \<forall>v \<in> set vs. wf_json d v"
  "pmembers n d s = Some (ms, rest) \<Longrightarrow> \<forall>kv \<in> set ms. ok_str (fst kv) \<and> wf_json d (snd kv)"
proof (induction n d s and n d s and n d s arbitrary: v rest and vs rest and ms rest rule: pval_pelems_pmembers.induct)
  case (2 n d s)
  then show ?case
    by (auto simp: scan_lit_def not_le dest!: scan_str_Some scan_num_Some split: list.splits if_splits)
next
  case (4 n d s)
  then show ?case by (fastforce split: option.splits list.splits if_splits)
next
  case (6 n d s)
  then show ?case by (fastforce split: option.splits list.splits if_splits dest!: scan_str_Some)
qed simp_all

lemma wf_json_mono: "wf_json d v \<Longrightarrow> d' \<le> d \<Longrightarrow> wf_json d' v"
  by (induction v arbitrary: d d') fastforce+

subsection \<open>Printing and parsing\<close>

lemma skip_ws_id [simp]: "\<not> is_ws c \<Longrightarrow> skip_ws (c # cs) = c # cs"
  by (simp add: skip_ws_def)

lemma not_ws [simp]:
  "\<not> is_ws quote_char" "\<not> is_ws (CHR ''{'')" "\<not> is_ws (CHR ''['')" "\<not> is_ws (CHR ''}'')" "\<not> is_ws (CHR '']'')"
  "\<not> is_ws (CHR '','')" "\<not> is_ws (CHR '':'')" "\<not> is_ws (CHR ''t'')" "\<not> is_ws (CHR ''f'')" "\<not> is_ws (CHR ''n'')"
  by (simp_all add: is_ws_def byte_of_def)

lemma number_start:
  "c = CHR ''-'' \<or> is_digit c \<Longrightarrow> \<not> is_ws c \<and>
     c \<notin> {quote_char, CHR ''{'', CHR ''['', CHR ''t'', CHR ''f'', CHR ''n'', CHR '']'', CHR ''}'', CHR '',''}"
  by (auto simp: is_ws_def is_digit_def byte_of_def)

lemma compact_start:
  assumes "wf_json d v"
  obtains c cs where "compact v = c # cs" "\<not> is_ws c" "c \<noteq> CHR '']''"
proof (cases v)
  case (JBool b)
  then show ?thesis using that by (cases b) auto
next
  case (JNum l)
  then obtain c cs where "l = c # cs" "c = CHR ''-'' \<or> is_digit c" using assms by (cases l) (auto simp: ok_num_def)
  then show ?thesis using that number_start [of c] JNum by auto
qed (use that in auto)

abbreviation member_text :: "string \<times> json \<Rightarrow> string" where
  "member_text \<equiv> \<lambda>(k, v). quote_char # k @ quote_char # CHR '':'' # compact v"

lemma length_join_Cons:
  "length p \<le> length (join_with c (p # ps))" "ps \<noteq> [] \<Longrightarrow> length (join_with c (p # ps)) = length p + 1 + length (join_with c ps)"
  by (cases ps; simp)+

lemma pelems_compact:
  assumes IH: "\<And>v n rest. v \<in> set vs \<Longrightarrow> length (compact v) \<le> n \<Longrightarrow> delimited rest \<Longrightarrow> pval n d (compact v @ rest) = Some (v, rest)"
    and "vs \<noteq> []" "length (join_with (CHR '','') (map compact vs)) < n"
  shows "pelems n d (join_with (CHR '','') (map compact vs) @ CHR '']'' # rest) = Some (vs, rest)"
  using assms
proof (induction vs arbitrary: n)
  case (Cons v vs)
  then obtain m where n: "n = Suc m" by (cases n) auto
  note len = length_join_Cons [where p = "compact v" and c = "CHR '',''" and ps = "map compact vs"]
  show ?case
  proof (cases vs)
    case Nil
    with Cons.prems(1) [of v m "CHR '']'' # rest"] Cons.prems(3) n show ?thesis by simp
  next
    case (Cons w ws)
    have "pval m d (compact v @ CHR '','' # join_with (CHR '','') (map compact vs) @ CHR '']'' # rest) =
        Some (v, CHR '','' # join_with (CHR '','') (map compact vs) @ CHR '']'' # rest)"
      by (rule Cons.prems(1)) (use len Cons.prems(3) n in auto)
    moreover have "pelems m d (join_with (CHR '','') (map compact vs) @ CHR '']'' # rest) = Some (vs, rest)"
      by (rule Cons.IH) (use Cons len Cons.prems n in auto)
    ultimately show ?thesis using n Cons by simp
  qed
qed simp

lemma pmembers_compact:
  assumes IH: "\<And>kv n rest. kv \<in> set ms \<Longrightarrow> length (compact (snd kv)) \<le> n \<Longrightarrow> delimited rest \<Longrightarrow>
      pval n d (compact (snd kv) @ rest) = Some (snd kv, rest)"
    and "\<forall>kv \<in> set ms. ok_str (fst kv)" "ms \<noteq> []" "length (join_with (CHR '','') (map member_text ms)) < n"
  shows "pmembers n d (join_with (CHR '','') (map member_text ms) @ CHR ''}'' # rest) = Some (ms, rest)"
  using assms
proof (induction ms arbitrary: n)
  case (Cons kv ms)
  obtain k v where [simp]: "kv = (k, v)" by fastforce
  from Cons.prems obtain m where n: "n = Suc m" by (cases n) auto
  note len = length_join_Cons [where p = "member_text kv" and c = "CHR '',''" and ps = "map member_text ms"]
  have k: "scan_str (k @ quote_char # r) = Some (k, r)" for r using Cons.prems(2) by (simp add: ok_str_def)
  show ?case
  proof (cases ms)
    case Nil
    with Cons.prems(1) [of kv m "CHR ''}'' # rest"] Cons.prems(4) n k show ?thesis by simp
  next
    case (Cons w ws)
    have "pval m d (compact v @ CHR '','' # join_with (CHR '','') (map member_text ms) @ CHR ''}'' # rest) =
        Some (v, CHR '','' # join_with (CHR '','') (map member_text ms) @ CHR ''}'' # rest)"
      using Cons.prems(1) [of kv m] len Cons.prems(4) n by simp
    moreover have "pmembers m d (join_with (CHR '','') (map member_text ms) @ CHR ''}'' # rest) = Some (ms, rest)"
      by (rule Cons.IH) (use Cons len Cons.prems n in auto)
    ultimately show ?thesis using n Cons k by simp
  qed
qed simp

lemma pval_compact:
  "wf_json d v \<Longrightarrow> length (compact v) \<le> n \<Longrightarrow> delimited rest \<Longrightarrow> pval n d (compact v @ rest) = Some (v, rest)"
proof (induction v arbitrary: d n rest)
  case (JNum l)
  from JNum.prems(1) number_start [of "hd l"] obtain c l' where l: "l = c # l'" "\<not> is_ws c"
      "c \<notin> {quote_char, CHR ''{'', CHR ''['', CHR ''t'', CHR ''f'', CHR ''n''}"
    by (cases l) (auto simp: ok_num_def)
  from JNum.prems(1,3) have sc: "scan_num (l @ rest) = Some (l, rest)" unfolding wf_json.simps ok_num_def by blast
  from JNum.prems(2) l obtain m where "n = Suc m" by (cases n) auto
  with sc l show ?case by auto
next
  case (JStr raw)
  then obtain m where "n = Suc m" by (cases n) auto
  with JStr show ?case by (simp add: ok_str_def)
next
  case (JArr vs)
  from JArr.prems(2) obtain m where n: "n = Suc m" by (cases n) auto
  show ?case
  proof (cases vs)
    case Nil
    with JArr n show ?thesis by simp
  next
    case (Cons v ws)
    have pe: "pelems m (d + 1) (join_with (CHR '','') (map compact vs) @ CHR '']'' # rest) = Some (vs, rest)"
    proof (rule pelems_compact)
      fix w k r assume "w \<in> set vs" "length (compact w) \<le> k" "delimited r"
      then show "pval k (d + 1) (compact w @ r) = Some (w, r)" using JArr.IH [of w "d + 1" k r] JArr.prems(1) by simp
    qed (use JArr.prems(2) Cons n in simp_all)
    from JArr.prems(1) Cons have "wf_json (d + 1) v" by simp
    then obtain c cs where c: "compact v = c # cs" "\<not> is_ws c" "c \<noteq> CHR '']''" by (rule compact_start)
    then obtain cs' where "join_with (CHR '','') (map compact vs) = c # cs'" using Cons by (cases ws) auto
    with pe c n JArr.prems(1) show ?thesis by (simp add: not_le)
  qed
next
  case (JObj ms)
  from JObj.prems(2) obtain m where n: "n = Suc m" by (cases n) auto
  show ?case
  proof (cases ms)
    case Nil
    with JObj n show ?thesis by simp
  next
    case (Cons kv ws)
    have pe: "pmembers m (d + 1) (join_with (CHR '','') (map member_text ms) @ CHR ''}'' # rest) = Some (ms, rest)"
    proof (rule pmembers_compact)
      fix kv k r assume "kv \<in> set ms" "length (compact (snd kv)) \<le> k" "delimited r"
      then show "pval k (d + 1) (compact (snd kv) @ r) = Some (snd kv, r)"
        using JObj.IH [of kv "snd kv" "d + 1" k r] JObj.prems(1) by (simp add: snds.simps)
    qed (use JObj.prems Cons n in simp_all)
    obtain cs' where "join_with (CHR '','') (map member_text ms) = quote_char # cs'"
      using Cons by (cases ws; cases kv) auto
    with pe n JObj.prems(1) show ?thesis by (simp add: not_le)
  qed
next
  case (JBool b)
  then obtain m where "n = Suc m" by (cases n) (auto split: if_splits)
  then show ?case by (simp add: scan_lit_def has_prefix_def)
next
  case JNull
  then obtain m where "n = Suc m" by (cases n) auto
  then show ?case by (simp add: scan_lit_def has_prefix_def)
qed

theorem json_parse_compact: "wf_json 0 v \<Longrightarrow> json_parse (compact v) = Some v"
  using pval_compact [of 0 v "2 * length (compact v) + 1" "[]"] by (simp add: json_parse_def skip_ws_def del: pval.simps)

lemma json_parse_wf: "json_parse s = Some v \<Longrightarrow> wf_json 0 v"
  by (auto simp: json_parse_def simp del: pval.simps split: option.splits if_splits dest: parse_wf(1))

subsection \<open>UTF-8 and string literals\<close>

text \<open>A rune that decodes properly is encoded as the bytes it came from.\<close>

lemma char_eq_byte: "c = d \<longleftrightarrow> byte_of c = byte_of d"
  by (simp add: byte_of_def)

lemma cont_byte_obtain:
  assumes "cont_byte c"
  obtains x where "x < 64" "byte_of c = 0x80 + x" "c = char_of (0x80 + x)"
proof
  show "byte_of c - 0x80 < 64" "byte_of c = 0x80 + (byte_of c - 0x80)" using assms by (auto simp: cont_byte_def)
  then show "c = char_of (0x80 + (byte_of c - 0x80))" by (metis char_of_byte_of)
qed

lemma char_of_eqI: "byte_of c = n \<Longrightarrow> char_of n = c"
  by auto

lemma base64_digit [simp]: "y < 64 \<Longrightarrow> (a * 64 + y) div 64 = a" "y < 64 \<Longrightarrow> (a * 64 + y) mod 64 = (y::nat)"
  by simp_all

lemma base64_digits:
  assumes "x < 64" "y < (64::nat)"
  shows "(a * 4096 + x * 64 + y) div 4096 = a" "(a * 4096 + x * 64 + y) div 64 mod 64 = x" "(a * 4096 + x * 64 + y) mod 64 = y"
proof -
  have r: "a * 4096 + x * 64 + y = (a * 64 + x) * 64 + y" by simp
  show "(a * 4096 + x * 64 + y) div 64 mod 64 = x" "(a * 4096 + x * 64 + y) mod 64 = y"
    unfolding r base64_digit [OF assms(2)] using assms(1) by (rule base64_digit) simp
  have "((a * 64 + x) * 64 + y) div (64 * 64) = a"
    unfolding div_mult2_eq base64_digit [OF assms(2)] using assms(1) by (rule base64_digit)
  then show "(a * 4096 + x * 64 + y) div 4096 = a" unfolding r by simp
qed

lemma encode2:
  assumes "0xC2 \<le> b0" "b0 \<le> 0xDF" "x < 64"
  shows "encode_rune ((b0 - 0xC0) * 64 + x) = [char_of b0, char_of (0x80 + x)]"
  using assms by (auto simp: encode_rune_def)

lemma encode3:
  assumes "0xE0 \<le> b0" "b0 \<le> 0xEF" "x < 64" "y < 64" "b0 = 0xE0 \<longrightarrow> 0x20 \<le> x" "b0 = 0xED \<longrightarrow> x \<le> 0x1F"
  shows "encode_rune ((b0 - 0xE0) * 4096 + x * 64 + y) = [char_of b0, char_of (0x80 + x), char_of (0x80 + y)]"
proof -
  define r where "r = (b0 - 0xE0) * 4096 + x * 64 + y"
  have "r div 4096 = b0 - 0xE0" "r div 64 mod 64 = x" "r mod 64 = y"
    unfolding r_def using base64_digits [OF assms(3,4)] by blast+
  moreover have "\<not> r < 0x800" "\<not> r < 0x80" "r < 0x10000" using assms by (auto simp: r_def)
  moreover have "\<not> is_surrogate r"
  proof -
    consider "b0 \<le> 0xEC" | "b0 = 0xED" | "0xEE \<le> b0" by linarith
    then show ?thesis using assms(3-6) by cases (auto simp: r_def is_surrogate_def)
  qed
  ultimately have "encode_rune r = [char_of b0, char_of (0x80 + x), char_of (0x80 + y)]"
    using assms(1) by (simp add: encode_rune_def)
  then show ?thesis by (simp add: r_def)
qed

lemma encode4:
  assumes "0xF0 \<le> b0" "b0 \<le> 0xF4" "x < 64" "y < 64" "z < 64" "b0 = 0xF0 \<longrightarrow> 0x10 \<le> x" "b0 = 0xF4 \<longrightarrow> x \<le> 0xF"
  shows "encode_rune ((b0 - 0xF0) * 262144 + x * 4096 + y * 64 + z) =
    [char_of b0, char_of (0x80 + x), char_of (0x80 + y), char_of (0x80 + z)]"
proof -
  define r where "r = (b0 - 0xF0) * 262144 + x * 4096 + y * 64 + z"
  have "r div 262144 = b0 - 0xF0" "r div 4096 mod 64 = x" "r div 64 mod 64 = y" "r mod 64 = z"
  proof -
    have r: "r = ((b0 - 0xF0) * 64 + x) * 4096 + y * 64 + z" by (simp add: r_def)
    note d = base64_digits [OF assms(4,5), of "(b0 - 0xF0) * 64 + x", folded r]
    show "r div 64 mod 64 = y" "r mod 64 = z" using d by blast+
    show "r div 4096 mod 64 = x" using d(1) base64_digit(2) [OF assms(3)] by simp
    have "r div (4096 * 64) = b0 - 0xF0" unfolding div_mult2_eq d(1) using assms(3) by (rule base64_digit)
    then show "r div 262144 = b0 - 0xF0" by simp
  qed
  moreover have "\<not> r < 0x10000" "r \<le> 0x10FFFF" using assms by (auto simp: r_def)
  ultimately have "encode_rune r = [char_of b0, char_of (0x80 + x), char_of (0x80 + y), char_of (0x80 + z)]"
    using assms(1) by (simp add: encode_rune_def is_surrogate_def)
  then show ?thesis by (simp add: r_def)
qed

lemma decode1: "byte_of c < 0x80 \<Longrightarrow> decode_rune (c # t) = (byte_of c, 1)"
  by (simp add: decode_rune_def)

lemma decode2:
  "0xC2 \<le> byte_of c0 \<Longrightarrow> byte_of c0 \<le> 0xDF \<Longrightarrow> cont_byte c1 \<Longrightarrow>
     decode_rune (c0 # c1 # t) = ((byte_of c0 - 0xC0) * 64 + (byte_of c1 - 0x80), 2)"
  by (simp add: decode_rune_def Let_def)

lemma decode3:
  "0xE0 \<le> byte_of c0 \<Longrightarrow> byte_of c0 \<le> 0xEF \<Longrightarrow> cont_byte c1 \<Longrightarrow> cont_byte c2 \<Longrightarrow>
     byte_of c0 = 0xE0 \<longrightarrow> 0xA0 \<le> byte_of c1 \<Longrightarrow> byte_of c0 = 0xED \<longrightarrow> byte_of c1 \<le> 0x9F \<Longrightarrow>
     decode_rune (c0 # c1 # c2 # t) =
       ((byte_of c0 - 0xE0) * 4096 + (byte_of c1 - 0x80) * 64 + (byte_of c2 - 0x80), 3)"
  by (simp add: decode_rune_def Let_def)

lemma decode4:
  "0xF0 \<le> byte_of c0 \<Longrightarrow> byte_of c0 \<le> 0xF4 \<Longrightarrow> cont_byte c1 \<Longrightarrow> cont_byte c2 \<Longrightarrow> cont_byte c3 \<Longrightarrow>
     byte_of c0 = 0xF0 \<longrightarrow> 0x90 \<le> byte_of c1 \<Longrightarrow> byte_of c0 = 0xF4 \<longrightarrow> byte_of c1 \<le> 0x8F \<Longrightarrow>
     decode_rune (c0 # c1 # c2 # c3 # t) =
       ((byte_of c0 - 0xF0) * 262144 + (byte_of c1 - 0x80) * 4096 + (byte_of c2 - 0x80) * 64 + (byte_of c3 - 0x80), 4)"
  by (simp add: decode_rune_def Let_def)

lemma decode_cases:
  assumes "decode_rune s = (r, n)" "s \<noteq> []" "(r, n) \<noteq> (RuneError, 1)"
  obtains (one) c0 cs where "s = c0 # cs" "byte_of c0 < 0x80" "r = byte_of c0" "n = 1"
    | (two) c0 c1 cs where "s = c0 # c1 # cs" "0xC2 \<le> byte_of c0" "byte_of c0 \<le> 0xDF" "cont_byte c1" "n = 2"
        "r = (byte_of c0 - 0xC0) * 64 + (byte_of c1 - 0x80)"
    | (three) c0 c1 c2 cs where "s = c0 # c1 # c2 # cs" "0xE0 \<le> byte_of c0" "byte_of c0 \<le> 0xEF" "cont_byte c1" "cont_byte c2"
        "byte_of c0 = 0xE0 \<longrightarrow> 0xA0 \<le> byte_of c1" "byte_of c0 = 0xED \<longrightarrow> byte_of c1 \<le> 0x9F" "n = 3"
        "r = (byte_of c0 - 0xE0) * 4096 + (byte_of c1 - 0x80) * 64 + (byte_of c2 - 0x80)"
    | (four) c0 c1 c2 c3 cs where "s = c0 # c1 # c2 # c3 # cs" "0xF0 \<le> byte_of c0" "byte_of c0 \<le> 0xF4"
        "cont_byte c1" "cont_byte c2" "cont_byte c3"
        "byte_of c0 = 0xF0 \<longrightarrow> 0x90 \<le> byte_of c1" "byte_of c0 = 0xF4 \<longrightarrow> byte_of c1 \<le> 0x8F" "n = 4"
        "r = (byte_of c0 - 0xF0) * 262144 + (byte_of c1 - 0x80) * 4096 + (byte_of c2 - 0x80) * 64 + (byte_of c3 - 0x80)"
proof -
  obtain c0 cs where s: "s = c0 # cs" using assms(2) by (cases s) auto
  define b0 where "b0 = byte_of c0"
  consider "b0 < 0x80" | "\<not> b0 < 0x80" "0xC2 \<le> b0" "b0 \<le> 0xDF" | "0xE0 \<le> b0" "b0 \<le> 0xEF" | "0xF0 \<le> b0" "b0 \<le> 0xF4"
    using assms(1,3) s by (force simp: decode_rune_def b0_def split: if_splits)
  then show ?thesis
  proof cases
    case 1
    then show ?thesis using assms(1) s one by (simp add: decode_rune_def b0_def)
  next
    case 2
    with assms s two show ?thesis
      by (auto simp: decode_rune_def b0_def Let_def split: list.splits if_splits)
  next
    case 3
    with assms s obtain c1 c2 cs' where x: "cs = c1 # c2 # cs'" "cont_byte c1" "cont_byte c2" "n = 3"
        "b0 = 0xE0 \<longrightarrow> 0xA0 \<le> byte_of c1" "b0 = 0xED \<longrightarrow> byte_of c1 \<le> 0x9F"
        "r = (b0 - 0xE0) * 4096 + (byte_of c1 - 0x80) * 64 + (byte_of c2 - 0x80)"
      by (auto simp: decode_rune_def b0_def Let_def split: list.splits if_splits)
    with s 3 three show ?thesis by (simp add: b0_def)
  next
    case 4
    with assms s obtain c1 c2 c3 cs' where x: "cs = c1 # c2 # c3 # cs'" "cont_byte c1" "cont_byte c2" "cont_byte c3" "n = 4"
        "b0 = 0xF0 \<longrightarrow> 0x90 \<le> byte_of c1" "b0 = 0xF4 \<longrightarrow> byte_of c1 \<le> 0x8F"
        "r = (b0 - 0xF0) * 262144 + (byte_of c1 - 0x80) * 4096 + (byte_of c2 - 0x80) * 64 + (byte_of c3 - 0x80)"
      by (auto simp: decode_rune_def b0_def Let_def split: list.splits if_splits)
    with s 4 four show ?thesis by (simp add: b0_def)
  qed
qed

lemma encode_decode:
  assumes "decode_rune s = (r, n)" "s \<noteq> []" "(r, n) \<noteq> (RuneError, 1)"
  shows "encode_rune r = take n s \<and> 0 < n \<and> n \<le> length s"
  using assms
proof (cases rule: decode_cases)
  case (one c0 cs)
  then show ?thesis by (simp add: encode_rune_def)
next
  case (two c0 c1 cs)
  then show ?thesis using encode2 [OF two(2,3)] by (auto elim!: cont_byte_obtain)
next
  case (three c0 c1 c2 cs)
  from three(4,5) obtain x1 x2 where "x1 < 64" "byte_of c1 = 0x80 + x1" "c1 = char_of (0x80 + x1)"
      "x2 < 64" "byte_of c2 = 0x80 + x2" "c2 = char_of (0x80 + x2)" by (metis cont_byte_obtain)
  with encode3 [OF three(2,3), of x1 x2] three show ?thesis by simp
next
  case (four c0 c1 c2 c3 cs)
  from four(4-6) obtain x1 x2 x3 where "x1 < 64" "byte_of c1 = 0x80 + x1" "c1 = char_of (0x80 + x1)"
      "x2 < 64" "byte_of c2 = 0x80 + x2" "c2 = char_of (0x80 + x2)"
      "x3 < 64" "byte_of c3 = 0x80 + x3" "c3 = char_of (0x80 + x3)" by (metis cont_byte_obtain)
  with encode4 [OF four(2,3), of x1 x2 x3] four show ?thesis by simp
qed

lemma decode_local:
  assumes "decode_rune s = (r, n)" "s \<noteq> []" "(r, n) \<noteq> (RuneError, 1)"
  shows "decode_rune (take n s @ t) = (r, n)"
  using assms by (cases rule: decode_cases) (auto simp: decode1 decode2 decode3 decode4)

function valid_utf8 :: "string \<Rightarrow> bool" where
  "valid_utf8 [] = True"
| "valid_utf8 (c # cs) =
     (let (r, n) = decode_rune (c # cs) in (r, n) \<noteq> (RuneError, 1) \<and> valid_utf8 (drop (n - 1) cs))"
  by pat_completeness auto
termination by (relation "measure length") (auto simp: less_Suc_eq_le)

lemma valid_utf8_append:
  assumes "decode_rune u = (r, n)" "(r, n) \<noteq> (RuneError, 1)" "length u = n" "u \<noteq> []" "valid_utf8 t"
  shows "valid_utf8 (u @ t)"
proof -
  obtain c cs where u: "u = c # cs" using assms(4) by (cases u) auto
  have "decode_rune (u @ t) = (r, n)" using decode_local [OF assms(1,4,2), of t] assms(3) by simp
  then show ?thesis using assms u by auto
qed

lemma decode_encode:
  "decode_rune (encode_rune r) = (if is_surrogate r \<or> 0x10FFFF < r then RuneError else r, length (encode_rune r))"
  "encode_rune r \<noteq> []" "r \<noteq> RuneError \<or> length (encode_rune r) \<noteq> 1"
proof -
  consider "r < 0x80" | "0x80 \<le> r" "r < 0x800" | "0x800 \<le> r" "is_surrogate r \<or> 0x10FFFF < r"
    | "0x800 \<le> r" "\<not> is_surrogate r" "r < 0x10000" | "\<not> is_surrogate r" "0x10000 \<le> r" "r \<le> 0x10FFFF"
    by linarith
  then have "decode_rune (encode_rune r) = (if is_surrogate r \<or> 0x10FFFF < r then RuneError else r, length (encode_rune r))"
  proof cases
    case 1
    then show ?thesis by (simp add: encode_rune_def decode1 is_surrogate_def)
  next
    case 2
    then have "2 \<le> r div 64" "r div 64 < 32" "r div 64 * 64 + r mod 64 = r" by simp_all
    moreover have "encode_rune r = [char_of (0xC0 + r div 64), char_of (0x80 + r mod 64)]" using 2 by (auto simp: encode_rune_def)
    ultimately show ?thesis using 2(2) by (simp add: decode2 is_surrogate_def cont_byte_def)
  next
    case 3
    then show ?thesis by (auto simp: encode_rune_def decode3 cont_byte_def RuneError_def is_surrogate_def)
  next
    case 4
    define a x y where "a = r div 4096" and "x = r div 64 mod 64" and "y = r mod 64"
    have "r div 64 div 64 = a" by (simp add: a_def flip: div_mult2_eq)
    moreover have "r = r div 64 * 64 + y" "r div 64 = r div 64 div 64 * 64 + x" by (simp_all add: x_def y_def)
    ultimately have "r = a * 4096 + x * 64 + y" by linarith
    moreover have "x < 64" "y < 64" by (simp_all add: x_def y_def)
    ultimately have r: "r = a * 4096 + x * 64 + y" "x < 64" "y < 64" .
    have "a < 16" "a = 0 \<longrightarrow> 32 \<le> x" "a = 13 \<longrightarrow> x \<le> 31" using 4 r by (auto simp: is_surrogate_def)
    moreover have "encode_rune r = [char_of (0xE0 + a), char_of (0x80 + x), char_of (0x80 + y)]"
      using 4 by (simp add: encode_rune_def a_def x_def y_def)
    ultimately show ?thesis
      using r(2,3) 4(2,3) r(1) [symmetric] by (simp add: decode3 cont_byte_def)
  next
    case 5
    define a w x y where "a = r div 262144" and "w = r div 4096 mod 64" and "x = r div 64 mod 64" and "y = r mod 64"
    have "r div 4096 div 64 = a" "r div 64 div 64 = r div 4096" by (simp_all add: a_def flip: div_mult2_eq)
    moreover have "r = r div 64 * 64 + y" "r div 64 = r div 64 div 64 * 64 + x" "r div 4096 = r div 4096 div 64 * 64 + w"
      by (simp_all add: x_def y_def w_def)
    ultimately have "r = a * 262144 + w * 4096 + x * 64 + y" by linarith
    moreover have "x < 64" "y < 64" "w < 64" by (simp_all add: x_def y_def w_def)
    ultimately have r: "r = a * 262144 + w * 4096 + x * 64 + y" "x < 64" "y < 64" "w < 64" .
    have "a \<le> 4" "a = 0 \<longrightarrow> 16 \<le> w" "a = 4 \<longrightarrow> w \<le> 15" using 5 r by auto
    moreover have "encode_rune r = [char_of (0xF0 + a), char_of (0x80 + w), char_of (0x80 + x), char_of (0x80 + y)]"
      using 5 by (simp add: encode_rune_def a_def x_def y_def w_def)
    ultimately show ?thesis
      using r(2-4) 5(1,3) r(1) [symmetric] by (simp add: decode4 cont_byte_def)
  qed
  then show "decode_rune (encode_rune r) = (if is_surrogate r \<or> 0x10FFFF < r then RuneError else r, length (encode_rune r))" .
qed (auto simp: encode_rune_def RuneError_def is_surrogate_def)

lemma valid_utf8_encode: "valid_utf8 t \<Longrightarrow> valid_utf8 (encode_rune r @ t)"
proof (rule valid_utf8_append [OF decode_encode(1)])
  show "(if is_surrogate r \<or> 0x10FFFF < r then RuneError else r, length (encode_rune r)) \<noteq> (RuneError, 1)"
    using decode_encode(3) [of r] by (auto simp: encode_rune_def is_surrogate_def)
qed (simp_all add: decode_encode(2))

lemma hex_digit_val [simp]: "n < 16 \<Longrightarrow> hex_val (hex_digit n) = Some n" "n < 16 \<Longrightarrow> is_hex (hex_digit n)"
  by (auto simp: hex_digit_def hex_val_def is_hex_def)

lemma hex_val_lits [simp]:
  "hex_val (CHR ''0'') = Some 0" "hex_val (CHR ''2'') = Some 2" "hex_val (CHR ''f'') = Some 15" "hex_val (CHR ''d'') = Some 13"
  "is_hex (CHR ''0'')" "is_hex (CHR ''2'')" "is_hex (CHR ''f'')" "is_hex (CHR ''d'')"
  by (simp_all add: hex_val_def is_hex_def byte_of_def)

lemma unquote_rune:
  assumes "decode_rune s = (r, n)" "s \<noteq> []" "(r, n) \<noteq> (RuneError, 1)" "hd s \<noteq> backslash"
  shows "unquote (take n s @ t) = take n s @ unquote t"
proof -
  note ed = encode_decode [OF assms(1-3)]
  obtain c cs where cs: "take n s @ t = c # cs" "c = hd s" using ed assms(2) by (cases s; cases n) auto
  have "decode_rune (c # cs) = (r, n)" using decode_local [OF assms(1-3), of t] cs by simp
  moreover have "drop (n - 1) cs = t"
  proof -
    have "drop n (c # cs) = t" using ed by (simp add: cs(1) [symmetric])
    then show ?thesis using ed by (cases n) auto
  qed
  ultimately show ?thesis using cs assms(4) ed by simp
qed

lemma unquote_u:
  assumes "a < 16" "b < 16" "\<not> is_surrogate (x * 4096 + y * 256 + a * 16 + b)"
    and "hex_val cx = Some x" "hex_val cy = Some y"
  shows "unquote (backslash # CHR ''u'' # cx # cy # hex_digit a # hex_digit b # t) =
    encode_rune (x * 4096 + y * 256 + a * 16 + b) @ unquote t"
  using assms by (simp add: getu4_def)

lemma unquote_ascii: "byte_of c < 0x80 \<Longrightarrow> unquote (quote_ascii html c @ t) = c # unquote t"
proof -
  assume c: "byte_of c < 0x80"
  let ?b = "byte_of c"
  consider (safe) "safe_byte html ?b" | (esc) "?b \<in> {8, 9, 10, 12, 13, 0x5C, 0x22}" "\<not> safe_byte html ?b"
    | (u) "?b \<notin> {8, 9, 10, 12, 13, 0x5C, 0x22}" "\<not> safe_byte html ?b" by blast
  then show ?thesis
  proof cases
    case safe
    then have "c \<noteq> backslash" by (auto simp: safe_byte_def)
    with safe c show ?thesis by (simp add: quote_ascii_def decode1 encode_rune_def)
  next
    case esc
    then have "c \<in> {CHR 0x08, CHR 0x09, CHR 0x0A, CHR 0x0C, CHR 0x0D, backslash, quote_char}"
      by (simp add: char_eq_byte [of c]) (simp add: byte_of_def)
    then show ?thesis by (elim insertE) (simp_all add: quote_ascii_def byte_of_def safe_byte_def)
  next
    case u
    have "?b div 16 < 16" "?b mod 16 < 16" using c by auto
    from unquote_u [OF this, of 0 0 "CHR ''0''" "CHR ''0''" t] c u show ?thesis
      by (simp add: quote_ascii_def is_surrogate_def encode_rune_def Let_def del: unquote.simps)
  qed
qed

lemma unquote_quote: "valid_utf8 s \<Longrightarrow> unquote (quote_body html s) = s"
proof (induction html s rule: quote_body.induct)
  case (2 html c cs)
  obtain r n where d: "decode_rune (c # cs) = (r, n)" by fastforce
  with "2.prems" have ok: "(r, n) \<noteq> (RuneError, 1)" and v: "valid_utf8 (drop (n - 1) cs)" by auto
  note ed = encode_decode [OF d _ ok]
  show ?case
  proof (cases "byte_of c < 0x80")
    case True
    with d have "n = 1" by (simp add: decode1)
    with v 2(1) True show ?thesis by (simp add: unquote_ascii)
  next
    case big: False
    have IH: "unquote (quote_body html (drop (n - 1) cs)) = drop (n - 1) cs"
      using 2(3,4) [OF big d [symmetric] refl] ok v by (cases "r = 0x2028 \<or> r = 0x2029") (auto simp: RuneError_def)
    have split: "take n (c # cs) @ drop (n - 1) cs = c # cs" using ed by (cases n) auto
    have hd: "c \<noteq> backslash" using big by auto
    show ?thesis
    proof (cases "r = 0x2028 \<or> r = 0x2029")
      case True
      then have rm: "0x2000 + 0x20 + r mod 16 = r" "r mod 16 < 16" "\<not> is_surrogate r" by (auto simp: is_surrogate_def)
      have "unquote (backslash # CHR ''u'' # CHR ''2'' # CHR ''0'' # CHR ''2'' # hex_digit (r mod 16) # t) = encode_rune r @ unquote t" for t
        using rm by (auto simp: getu4_def add.commute)
      then show ?thesis using big d ok True IH ed split by (auto simp: RuneError_def)
    next
      case False
      then show ?thesis using big d ok IH split unquote_rune [OF d _ ok] hd by auto
    qed
  qed
qed simp

lemma ok_str_Nil: "ok_str []"
  by (simp add: ok_str_def)

lemma ok_str_high: "\<forall>c \<in> set u. 0x80 \<le> byte_of c \<Longrightarrow> ok_str raw \<Longrightarrow> ok_str (u @ raw)"
  by (induction u) (auto intro!: ok_str_plain simp: byte_of_def)

lemma ok_str_ascii: "byte_of c < 0x80 \<Longrightarrow> ok_str raw \<Longrightarrow> ok_str (quote_ascii html c @ raw)"
proof -
  assume c: "byte_of c < 0x80" and raw: "ok_str raw"
  let ?b = "byte_of c"
  consider (safe) "safe_byte html ?b" | (esc) "?b \<in> {0x5C, 0x22}" "\<not> safe_byte html ?b"
    | (short) "?b \<in> {8, 9, 10, 12, 13}" "\<not> safe_byte html ?b"
    | (u) "?b \<notin> {8, 9, 10, 12, 13, 0x5C, 0x22}" "\<not> safe_byte html ?b" by blast
  then show ?thesis
  proof cases
    case safe
    then have "c \<noteq> backslash" "c \<noteq> quote_char" "\<not> ?b < 32" by (auto simp: safe_byte_def byte_of_def)
    with safe raw show ?thesis by (simp add: quote_ascii_def ok_str_plain)
  next
    case esc
    then have "c = backslash \<or> c = quote_char" by (simp add: char_eq_byte [of c]) (simp add: byte_of_def)
    with esc raw show ?thesis by (auto simp: quote_ascii_def intro!: ok_str_esc)
  next
    case short
    with raw show ?thesis by (auto simp: quote_ascii_def intro!: ok_str_esc)
  next
    case u
    have "?b div 16 < 16" "?b mod 16 < 16" using c by auto
    with u raw show ?thesis by (simp add: quote_ascii_def Let_def ok_str_u)
  qed
qed

lemma rune_high:
  assumes "decode_rune (c # cs) = (r, n)" "(r, n) \<noteq> (RuneError, 1)" "\<not> byte_of c < 0x80"
  shows "\<forall>x \<in> set (take n (c # cs)). 0x80 \<le> byte_of x"
  using assms(1) list.distinct(2) assms(2)
  by (cases rule: decode_cases) (use assms(3) in \<open>auto simp: cont_byte_def\<close>)

lemma ok_str_quote: "ok_str (quote_body html s)"
proof (induction html s rule: quote_body.induct)
  case (2 html c cs)
  obtain r n where d: "decode_rune (c # cs) = (r, n)" by fastforce
  show ?case
  proof (cases "byte_of c < 0x80")
    case True
    with 2(1) show ?thesis by (simp add: ok_str_ascii)
  next
    case big: False
    consider "r = RuneError \<and> n = 1" | "\<not> (r = RuneError \<and> n = 1)" "r = 0x2028 \<or> r = 0x2029"
      | "\<not> (r = RuneError \<and> n = 1)" "\<not> (r = 0x2028 \<or> r = 0x2029)" by blast
    then show ?thesis
    proof cases
      case 1
      with 2(2) [OF big d [symmetric] refl] big d show ?thesis by (simp add: ok_str_u)
    next
      case r: 2
      have "r mod 16 < 16" by simp
      with r 2(3) [OF big d [symmetric] refl] big d show ?thesis by (auto simp: ok_str_u)
    next
      case r: 3
      have "ok_str (take n (c # cs) @ quote_body html (drop (n - 1) cs))"
        by (rule ok_str_high [OF rune_high [OF d _ big]]) (use r 2(4) [OF big d [symmetric] refl] in auto)
      with r big d show ?thesis by auto
    qed
  qed
qed (simp add: ok_str_Nil)

text \<open>The value of a string literal is always valid UTF-8.\<close>

lemma valid_utf8_ascii: "byte_of c < 0x80 \<Longrightarrow> valid_utf8 t \<Longrightarrow> valid_utf8 (c # t)"
  by (simp add: decode1 RuneError_def)

lemma ok_str_plainD: "ok_str (c # raw) \<Longrightarrow> c \<noteq> backslash \<Longrightarrow> ok_str raw"
  unfolding ok_str_def by (force split: if_splits)

lemma ok_str_escD:
  assumes "ok_str (backslash # cs)"
  obtains (u) a b c d raw where "cs = CHR ''u'' # a # b # c # d # raw" "is_hex a" "is_hex b" "is_hex c" "is_hex d" "ok_str raw"
    | (e) e raw where "cs = e # raw" "e \<noteq> CHR ''u''" "ok_str raw"
        "e \<in> set [quote_char, backslash, CHR ''/'', CHR ''b'', CHR ''f'', CHR ''n'', CHR ''r'', CHR ''t'']"
proof -
  have sc: "scan_str (backslash # cs @ quote_char # rest) = Some (backslash # cs, rest)" for rest
    using assms by (simp add: ok_str_def)
  obtain e cs' where cs: "cs = e # cs'"
    using sc [of "[]"] by (cases cs) auto
  show ?thesis
  proof (cases "e = CHR ''u''")
    case False
    have "e \<in> set [quote_char, backslash, CHR ''/'', CHR ''b'', CHR ''f'', CHR ''n'', CHR ''r'', CHR ''t'']"
      using sc [of "[]"] cs False by (auto split: if_splits)
    moreover have "scan_str (cs' @ quote_char # rest) = Some (cs', rest)" for rest
      using sc [of rest] cs False by (auto split: if_splits)
    then have "ok_str cs'" by (simp add: ok_str_def)
    ultimately show ?thesis using e cs False by blast
  next
    case True
    have "\<exists>a b c d raw. cs' = a # b # c # d # raw"
      using sc [of "[]"] cs True by (auto split: list.splits if_splits simp: append_eq_Cons_conv)
    then obtain a b c d raw where cs': "cs' = a # b # c # d # raw" by blast
    have "scan_str (raw @ quote_char # rest) = Some (raw, rest)" for rest
      using sc [of rest] cs cs' True by (auto split: if_splits)
    then have "ok_str raw" by (simp add: ok_str_def)
    then show ?thesis
      by (intro u [of a b c d raw]) (use sc [of "[]"] cs cs' True in \<open>auto split: if_splits\<close>)
  qed
qed

lemma ok_str_drop_high: "\<forall>c \<in> set u. 0x80 \<le> byte_of c \<Longrightarrow> ok_str (u @ raw) \<Longrightarrow> ok_str raw"
  by (induction u) (auto dest!: ok_str_plainD simp: byte_of_def)

lemma getu4_escape:
  "is_hex a \<Longrightarrow> is_hex b \<Longrightarrow> is_hex c \<Longrightarrow> is_hex d \<Longrightarrow> \<exists>r. getu4 (backslash # CHR ''u'' # a # b # c # d # t) = Some r"
  by (auto simp: getu4_def is_hex_def)

lemma getu4_Some:
  assumes "getu4 raw = Some r" "ok_str raw"
  shows "ok_str (drop 6 raw)"
proof -
  obtain cs where raw: "raw = backslash # CHR ''u'' # cs"
    using assms(1) by (auto simp: getu4_def split: list.splits if_splits)
  from assms(2) [unfolded raw] show ?thesis
    by (cases rule: ok_str_escD) (auto simp: raw)
qed

lemma valid_utf8_unquote: "ok_str raw \<Longrightarrow> valid_utf8 (unquote raw)"
proof (induction raw rule: unquote.induct)
  case (2 c cs)
  show ?case
  proof (cases "c = backslash")
    case True
    from "2.prems" [unfolded True] show ?thesis
    proof (cases rule: ok_str_escD)
      case (u a b c' d raw)
      then obtain rr where rr: "getu4 (backslash # cs) = Some rr" using getu4_escape by metis
      then have rr': "getu4 (c # cs) = Some rr" using True by simp
      show ?thesis
      proof (cases "is_surrogate rr")
        case False
        have "valid_utf8 (unquote raw)" using "2.IH"(4) [OF True u(1) refl rr' refl False] u(6) by simp
        then show ?thesis using True u rr False by (simp add: valid_utf8_encode)
      next
        case sur: True
        have one: "valid_utf8 (unquote raw)" if "\<And>rr1. getu4 raw = Some rr1 \<Longrightarrow> utf16_decode rr rr1 = RuneError"
        proof (cases "getu4 raw")
          case None
          then show ?thesis using "2.IH"(1) [OF True u(1) refl rr' refl sur] u(6) by simp
        next
          case (Some rr1)
          then show ?thesis using "2.IH"(3) [OF True u(1) refl rr' refl sur _ refl] that u(6) by simp
        qed
        have two: "valid_utf8 (unquote (drop 6 raw))" if "getu4 raw = Some rr1" "utf16_decode rr rr1 \<noteq> RuneError" for rr1
          using "2.IH"(2) [OF True u(1) refl rr' refl sur _ refl] that getu4_Some [OF that(1) u(6)] by simp
        show ?thesis
          using True u rr sur one two by (cases "getu4 raw") (auto simp: Let_def valid_utf8_encode)
      qed
    next
      case (e e raw)
      have "valid_utf8 (unquote raw)" using "2.IH"(5) [OF True e(1,2)] e(3) by simp
      moreover obtain x where "unquote (c # cs) = x # unquote raw" "byte_of x < 0x80"
        using e(4) True e(1,2) by (simp, elim disjE) (simp_all add: byte_of_def)
      ultimately show ?thesis by (simp only: valid_utf8_ascii)
    qed
  next
    case False
    obtain r n where d: "decode_rune (c # cs) = (r, n)" by fastforce
    have "ok_str (drop (n - 1) cs)"
    proof (cases "(r, n) = (RuneError, 1) \<or> byte_of c < 0x80")
      case True
      then have "n = 1" using d by (auto simp: decode1)
      then show ?thesis using ok_str_plainD [OF "2.prems" False] by simp
    next
      case big: False
      then have "0 < n" using encode_decode [OF d] by simp
      then have "c # cs = take n (c # cs) @ drop (n - 1) cs" by (cases n) auto
      with ok_str_drop_high [OF rune_high [OF d]] big "2.prems" show ?thesis by metis
    qed
    with "2.IH"(6) [OF False d [symmetric] refl] False d show ?thesis by (simp add: valid_utf8_encode)
  qed
qed simp

subsection \<open>Maps\<close>

definition map_ok :: "raw_map \<Rightarrow> bool" where
  "map_ok m \<longleftrightarrow> distinct (map fst m) \<and> (\<forall>kv \<in> set m. valid_utf8 (fst kv) \<and> wf_json 1 (snd kv))"

lemma set_update: "set (AList.update k v m) \<subseteq> insert (k, v) (set m)"
  by (induction m) auto

lemma map_ok_update: "map_ok m \<Longrightarrow> valid_utf8 k \<Longrightarrow> wf_json 1 v \<Longrightarrow> map_ok (AList.update k v m)"
  using set_update [of k v m] by (auto simp: map_ok_def distinct_update)

lemma map_ok_fold:
  assumes "\<forall>kv \<in> set ms. ok_str (fst kv) \<and> wf_json 1 (snd kv)" "map_ok m"
  shows "map_ok (foldl (\<lambda>m (k, v). AList.update (unquote k) v m) m ms)"
  using assms
  by (induction ms arbitrary: m) (auto simp: map_ok_update valid_utf8_unquote)

lemma dec_map_ok:
  "wf_json 0 v \<Longrightarrow> dec_map v None = (Some m, e) \<Longrightarrow> map_ok m"
  using map_ok_fold [of _ "[]"] by (cases v) (auto simp: map_ok_def)

lemma fold_update_new:
  assumes "distinct (map fst (m @ ms))" "\<forall>kv \<in> set ms. unquote (f (fst kv)) = fst kv"
  shows "foldl (\<lambda>m (k, v). AList.update (unquote k) v m) m (map (\<lambda>(k, v). (f k, v)) ms) = m @ ms"
  using assms
proof (induction ms arbitrary: m)
  case (Cons kv ms)
  obtain k v where [simp]: "kv = (k, v)" by fastforce
  have "AList.update k v m = m @ [(k, v)]"
    using Cons.prems(1) by (induction m) auto
  with Cons.IH [of "m @ [(k, v)]"] Cons.prems show ?case by simp
qed simp

text \<open>Encoding a map and decoding the text gives the map back, with its keys in order.\<close>

lemma distinct_sort_key: "distinct (map fst m) \<Longrightarrow> distinct (map fst (sort_key fst m))"
  using mset_eq_imp_distinct_iff [of "map fst (sort_key fst m)" "map fst m"] by simp

lemma map_of_sort_key:
  assumes "distinct (map fst m)"
  shows "map_of (sort_key fst m) = map_of m"
proof
  fix k
  have "map_of (sort_key fst m) k = Some v \<longleftrightarrow> map_of m k = Some v" for v
    using map_of_eq_Some_iff [OF assms] map_of_eq_Some_iff [OF distinct_sort_key [OF assms]] by simp
  then show "map_of (sort_key fst m) k = map_of m k" by (metis option.exhaust)
qed

lemma map_roundtrip:
  assumes "map_ok m"
  shows "json_parse (compact (encode_map False m)) = Some (encode_map False m)"
    and "dec_map (encode_map False m) None = (Some (sort_key fst m), False)"
    and "map_of (sort_key fst m) = map_of m"
proof -
  have "wf_json 0 (encode_map False m)"
    using assms by (auto simp: encode_map_def map_ok_def maxNestingDepth_def ok_str_quote)
  then show "json_parse (compact (encode_map False m)) = Some (encode_map False m)" by (rule json_parse_compact)
  have d: "distinct (map fst m)" using assms by (simp add: map_ok_def)
  show "dec_map (encode_map False m) None = (Some (sort_key fst m), False)"
    using fold_update_new [of "[]" "sort_key fst m" "quote_body False"] distinct_sort_key [OF d] assms
    by (simp add: encode_map_def map_ok_def unquote_quote)
  show "map_of (sort_key fst m) = map_of m" by (rule map_of_sort_key [OF d])
qed

subsection \<open>Fuel\<close>

lemma skip_ws_length: "length (skip_ws s) \<le> length s"
  by (simp add: skip_ws_def length_dropWhile_le)

lemma skip_ws_Cons: "skip_ws s = c # cs \<Longrightarrow> length cs < length s"
  using skip_ws_length [of s] by simp

lemma scan_lengths:
  "scan_str s = Some (raw, rest) \<Longrightarrow> length rest < length s"
  "scan_num s = Some (l, rest) \<Longrightarrow> length rest < length s"
  "scan_lit lit v s = Some (v', rest) \<Longrightarrow> lit \<noteq> [] \<Longrightarrow> length rest < length s"
  by (auto dest!: scan_str_Some scan_num_Some simp: ok_num_def scan_lit_def has_prefix_iff split: if_splits)

lemma parse_shorter:
  "pval n d s = Some (v, rest) \<Longrightarrow> length rest < length s"
  "pelems n d s = Some (vs, rest) \<Longrightarrow> length rest < length s"
  "pmembers n d s = Some (ms, rest) \<Longrightarrow> length rest < length s"
proof (induction n d s and n d s and n d s arbitrary: v rest and vs rest and ms rest rule: pval_pelems_pmembers.induct)
  case (2 n d s)
  then show ?case
    by (fastforce dest!: skip_ws_Cons dest: scan_lengths split: list.splits if_splits)
next
  case (4 n d s)
  then show ?case by (fastforce dest!: skip_ws_Cons split: option.splits list.splits if_splits)
next
  case (6 n d s)
  then show ?case by (fastforce dest!: skip_ws_Cons dest: scan_lengths split: option.splits list.splits if_splits)
qed simp_all

lemma fuel_step:
  "(2 * length s + 1 \<le> n \<longrightarrow> pval (Suc n) d s = pval n d s) \<and>
   (2 * length s + 2 \<le> n \<longrightarrow> pelems (Suc n) d s = pelems n d s) \<and>
   (2 * length s + 2 \<le> n \<longrightarrow> pmembers (Suc n) d s = pmembers n d s)"
proof (induction n arbitrary: d s)
  case (Suc n)
  have v: "pval (Suc n) d s = pval n d s" if "2 * length s + 1 \<le> n" for d s using Suc that by blast
  have es: "pelems (Suc n) d s = pelems n d s" "pmembers (Suc n) d s = pmembers n d s" if "2 * length s + 2 \<le> n" for d s
    using Suc that by blast+
  have "pval (Suc (Suc n)) d s = pval (Suc n) d s" if "2 * length s + 1 \<le> Suc n"
  proof (cases "skip_ws s")
    case (Cons c cs)
    with that have "2 * length cs + 2 \<le> n" using skip_ws_Cons [OF Cons] by simp
    from es [OF this] Cons show ?thesis by (simp only: pval.simps list.case)
  qed simp
  moreover have "pelems (Suc (Suc n)) d s = pelems (Suc n) d s" if len: "2 * length s + 2 \<le> Suc n"
  proof -
    have e: "pelems (Suc n) d rest = pelems n d rest" if "pval n d s = Some (w, s1)" "skip_ws s1 = x # rest" for w s1 x rest
      using es(1) [of rest] parse_shorter(1) [OF that(1)] skip_ws_Cons [OF that(2)] len by simp
    have "pval (Suc n) d s = pval n d s" using v [of s] len by simp
    then show ?thesis
      unfolding pelems.simps(2) [of "Suc n" d s] pelems.simps(2) [of n d s]
      by (auto split: option.splits list.splits simp del: pelems.simps pval.simps simp: e)
  qed
  moreover have "pmembers (Suc (Suc n)) d s = pmembers (Suc n) d s" if len: "2 * length s + 2 \<le> Suc n"
  proof -
    have w: "pval (Suc n) d s2 = pval n d s2"
      if "skip_ws s = q # s0" "scan_str s0 = Some (key, s1)" "skip_ws s1 = c # s2" for q s0 key s1 c s2
      using v [of s2] skip_ws_Cons [OF that(1)] scan_lengths(1) [OF that(2)] skip_ws_Cons [OF that(3)] len by simp
    have e: "pmembers (Suc n) d rest = pmembers n d rest"
      if "skip_ws s = q # s0" "scan_str s0 = Some (key, s1)" "skip_ws s1 = c # s2" "pval n d s2 = Some (y, s3)" "skip_ws s3 = x # rest"
      for q s0 key s1 c s2 y s3 x rest
      using es(2) [of rest] skip_ws_Cons [OF that(1)] scan_lengths(1) [OF that(2)] skip_ws_Cons [OF that(3)]
        parse_shorter(1) [OF that(4)] skip_ws_Cons [OF that(5)] len by simp
    show ?thesis
      unfolding pmembers.simps(2) [of "Suc n" d s] pmembers.simps(2) [of n d s]
      by (auto split: option.splits list.splits simp del: pmembers.simps pval.simps simp: w e)
  qed
  ultimately show ?case by blast
qed simp

lemma parse_fuel_enough: "2 * length s + 1 \<le> n \<Longrightarrow> pval n d s = pval (2 * length s + 1) d s"
  by (induction n rule: dec_induct) (use fuel_step in \<open>metis\<close>)+

end
