(* ===== verification/Accounting.thy ===== *)
theory Accounting
  imports Json
begin

text \<open>
  Token accounting (\<^verbatim>\<open>src/internal/accounting\<close>): the usage a backend reports (\<^verbatim>\<open>record.go\<close>), the
  per-key token windows and their reconstruction from the log (\<^verbatim>\<open>quota.go\<close>), the usage report
  (\<^verbatim>\<open>report.go\<close>) and the bounded queue of the log writer (\<^verbatim>\<open>writer.go\<close>).

  Parameters: \<open>parse_time\<close> is the parser of RFC 3339 time stamps that \<^verbatim>\<open>time.Time.UnmarshalJSON\<close>
  applies to the literal, and the clock is an argument. A file is its contents together with a flag
  saying whether reading it ends in an I/O error instead of end of file.
\<close>

section \<open>Definitions\<close>

subsection \<open>Records and usage\<close>

datatype usage_status = UsageExact | UsageUnknown

definition status_text :: "usage_status \<Rightarrow> string" where
  "status_text s = (case s of UsageExact \<Rightarrow> ''exact'' | UsageUnknown \<Rightarrow> ''unknown'')"

record acc_record =
  rc_Time :: time
  rc_RequestID :: string
  rc_KeyID :: string
  rc_Model :: string
  rc_Backend :: string
  rc_Endpoint :: string
  rc_Status :: int
  rc_DurationMS :: int
  rc_InputTokens :: int
  rc_OutputTokens :: int
  rc_TotalTokens :: int
  rc_CachedTokens :: int
  rc_ReasoningTokens :: int
  rc_UsageStatus :: string
  rc_Retries :: int
  rc_ChargedTokens :: int

definition zero_record :: acc_record where
  "zero_record = \<lparr>rc_Time = 0, rc_RequestID = [], rc_KeyID = [], rc_Model = [], rc_Backend = [], rc_Endpoint = [],
     rc_Status = 0, rc_DurationMS = 0, rc_InputTokens = 0, rc_OutputTokens = 0, rc_TotalTokens = 0,
     rc_CachedTokens = 0, rc_ReasoningTokens = 0, rc_UsageStatus = [], rc_Retries = 0, rc_ChargedTokens = 0\<rparr>"

record usage =
  us_Input :: int
  us_Output :: int
  us_Total :: int
  us_Cached :: int
  us_Reasoning :: int
  us_Present :: bool

definition no_usage :: usage where
  "no_usage = \<lparr>us_Input = 0, us_Output = 0, us_Total = 0, us_Cached = 0, us_Reasoning = 0, us_Present = False\<rparr>"

definition StatusOf :: "usage \<Rightarrow> usage_status" where
  "StatusOf u = (if us_Present u then UsageExact else UsageUnknown)"

definition satAdd :: "int \<Rightarrow> int \<Rightarrow> int" where
  "satAdd a b =
     (if 0 < b \<and> wrap64 (MaxInt64 - b) < a then MaxInt64
      else let s = wrap64 (a + b) in if s < 0 then 0 else s)"

definition maxUsageTokens :: int where "maxUsageTokens = 2 ^ 40"

definition clampUsage :: "int \<Rightarrow> int" where
  "clampUsage v = (if v < 0 then 0 else if maxUsageTokens < v then maxUsageTokens else v)"

text \<open>
  The two usage shapes have the same form up to the names of their fields, which are the arguments
  \<open>inp\<close> and \<open>outp\<close>: \<open>prompt\<close>/\<open>completion\<close> for Chat and Completions, \<open>input\<close>/\<open>output\<close> for Responses.
\<close>

record usage_body =
  ub_In :: int
  ub_Out :: int
  ub_Total :: int
  ub_InDetails :: "int option"
  ub_OutDetails :: "int option"

definition dec_details :: "string \<Rightarrow> json \<Rightarrow> int \<Rightarrow> int \<times> bool" where
  "dec_details tag = dec_struct [tag] (\<lambda>t. dec_int64)"

definition dec_usage_body :: "string \<Rightarrow> string \<Rightarrow> json \<Rightarrow> usage_body \<Rightarrow> usage_body \<times> bool" where
  "dec_usage_body inp outp =
     dec_struct [inp @ ''_tokens'', outp @ ''_tokens'', ''total_tokens'', inp @ ''_tokens_details'', outp @ ''_tokens_details'']
       (\<lambda>t v r.
          if t = inp @ ''_tokens'' then set_field (dec_int64 v (ub_In r)) (\<lambda>x. r\<lparr>ub_In := x\<rparr>)
          else if t = outp @ ''_tokens'' then set_field (dec_int64 v (ub_Out r)) (\<lambda>x. r\<lparr>ub_Out := x\<rparr>)
          else if t = ''total_tokens'' then set_field (dec_int64 v (ub_Total r)) (\<lambda>x. r\<lparr>ub_Total := x\<rparr>)
          else if t = inp @ ''_tokens_details'' then
            set_field (dec_ptr 0 (dec_details ''cached_tokens'') v (ub_InDetails r)) (\<lambda>x. r\<lparr>ub_InDetails := x\<rparr>)
          else set_field (dec_ptr 0 (dec_details ''reasoning_tokens'') v (ub_OutDetails r)) (\<lambda>x. r\<lparr>ub_OutDetails := x\<rparr>))"

definition usage_of_body :: "usage_body \<Rightarrow> usage" where
  "usage_of_body b =
     (if ub_In b = 0 \<and> ub_Out b = 0 \<and> ub_Total b = 0 then no_usage
      else
        let u = \<lparr>us_Input = clampUsage (ub_In b), us_Output = clampUsage (ub_Out b), us_Total = clampUsage (ub_Total b),
                 us_Cached = (case ub_InDetails b of None \<Rightarrow> 0 | Some c \<Rightarrow> clampUsage c),
                 us_Reasoning = (case ub_OutDetails b of None \<Rightarrow> 0 | Some c \<Rightarrow> clampUsage c),
                 us_Present = True\<rparr>
        in if us_Total u = 0 then u\<lparr>us_Total := satAdd (us_Input u) (us_Output u)\<rparr> else u)"

definition usage_shape :: "string \<Rightarrow> string \<Rightarrow> json \<Rightarrow> usage" where
  "usage_shape inp outp raw =
     (case dec_usage_body inp outp raw \<lparr>ub_In = 0, ub_Out = 0, ub_Total = 0, ub_InDetails = None, ub_OutDetails = None\<rparr> of
        (b, err) \<Rightarrow> if err then no_usage else usage_of_body b)"

record key_check =
  kc_Input :: "json option"
  kc_Prompt :: "json option"

definition fromUsageJSON :: "json \<Rightarrow> usage" where
  "fromUsageJSON raw =
     (let kc = fst (dec_struct [''input_tokens'', ''prompt_tokens'']
                      (\<lambda>t v r. if t = ''input_tokens'' then set_field (dec_raw v (kc_Input r)) (\<lambda>x. r\<lparr>kc_Input := x\<rparr>)
                              else set_field (dec_raw v (kc_Prompt r)) (\<lambda>x. r\<lparr>kc_Prompt := x\<rparr>))
                      raw \<lparr>kc_Input = None, kc_Prompt = None\<rparr>)
      in if kc_Prompt kc \<noteq> None then usage_shape ''prompt'' ''completion'' raw
         else if kc_Input kc \<noteq> None then usage_shape ''input'' ''output'' raw
         else no_usage)"

record usage_top =
  ut_Usage :: "json option"
  ut_Response :: "json option"

definition ParseUsage :: "string \<Rightarrow> usage" where
  "ParseUsage body =
     (if body = [] then no_usage
      else
        case unmarshal (dec_struct [''usage'', ''response'']
               (\<lambda>t v r. if t = ''usage'' then set_field (dec_raw v (ut_Usage r)) (\<lambda>x. r\<lparr>ut_Usage := x\<rparr>)
                       else set_field (dec_struct [''usage''] (\<lambda>t. dec_raw) v (ut_Response r)) (\<lambda>x. r\<lparr>ut_Response := x\<rparr>)))
               body \<lparr>ut_Usage = None, ut_Response = None\<rparr> of
          (tp, err) \<Rightarrow>
            if err then no_usage
            else
              (let u1 = (case ut_Usage tp of None \<Rightarrow> no_usage | Some raw \<Rightarrow> fromUsageJSON raw) in
               if us_Present u1 then u1
               else let u2 = (case ut_Response tp of None \<Rightarrow> no_usage | Some raw \<Rightarrow> fromUsageJSON raw) in
                 if us_Present u2 then u2 else no_usage))"

definition ParseStreamChunk :: "string \<Rightarrow> usage" where
  "ParseStreamChunk data = ParseUsage data"

subsection \<open>Token windows\<close>

definition hourKey :: "time \<Rightarrow> int" where
  "hourKey t = time_unix t - go_mod (time_unix t) 3600"

definition dayKey :: "time \<Rightarrow> int" where
  "dayKey t = time_unix t - go_mod (time_unix t) 86400"

record key_quota =
  kq_hourKey :: int
  kq_hour :: int
  kq_dayKey :: int
  kq_day :: int

type_synonym quota = "string \<rightharpoonup> key_quota"

record window_limit =
  wl_TokensPerHour :: int
  wl_TokensPerDay :: int

definition stateFor :: "quota \<Rightarrow> string \<Rightarrow> time \<Rightarrow> quota \<times> key_quota" where
  "stateFor q keyID now =
     (let h = hourKey now; d = dayKey now;
          st = (case q keyID of
                  None \<Rightarrow> \<lparr>kq_hourKey = h, kq_hour = 0, kq_dayKey = d, kq_day = 0\<rparr>
                | Some st \<Rightarrow>
                    let st1 = (if kq_hourKey st < h then st\<lparr>kq_hour := 0, kq_hourKey := h\<rparr> else st)
                    in if kq_dayKey st1 < d then st1\<lparr>kq_day := 0, kq_dayKey := d\<rparr> else st1)
      in (q(keyID \<mapsto> st), st))"

datatype quota_reason = TokensPerHourExceeded | TokensPerDayExceeded

definition Admit :: "quota \<Rightarrow> string \<Rightarrow> window_limit \<Rightarrow> int \<Rightarrow> time \<Rightarrow> quota \<times> quota_reason option" where
  "Admit q keyID limits reservation now =
     (if wl_TokensPerHour limits \<le> 0 \<and> wl_TokensPerDay limits \<le> 0 then (q, None)
      else
        (let (q', st) = stateFor q keyID now in
         if 0 < wl_TokensPerHour limits \<and>
            (wl_TokensPerHour limits < reservation \<or> wrap64 (wl_TokensPerHour limits - reservation) < kq_hour st)
         then (q', Some TokensPerHourExceeded)
         else if 0 < wl_TokensPerDay limits \<and>
            (wl_TokensPerDay limits < reservation \<or> wrap64 (wl_TokensPerDay limits - reservation) < kq_day st)
         then (q', Some TokensPerDayExceeded)
         else (q', None)))"

definition Settle :: "quota \<Rightarrow> string \<Rightarrow> int \<Rightarrow> time \<Rightarrow> quota" where
  "Settle q keyID tokens now =
     (if tokens \<le> 0 then q
      else let (q', st) = stateFor q keyID now in
        q'(keyID \<mapsto> st\<lparr>kq_hour := satAdd (kq_hour st) tokens, kq_day := satAdd (kq_day st) tokens\<rparr>))"

subsection \<open>Reading the log\<close>

definition maxAccountingLine :: nat where "maxAccountingLine = 2 ^ 20"

text \<open>
  The lines that the bounded scanner hands out from a reader with a buffer of \<open>cap\<close> bytes: a line
  whose newline is among the next \<open>cap\<close> bytes, or a last line of fewer than \<open>cap\<close> bytes. A longer
  line is drained and skipped.
\<close>

function scan_lines :: "nat \<Rightarrow> string \<Rightarrow> string list" where
  "scan_lines cap s =
     (if s = [] then []
      else
        let line = takeWhile (\<lambda>c. c \<noteq> CHR 0x0A) s; rest = dropWhile (\<lambda>c. c \<noteq> CHR 0x0A) s in
        if length line < cap \<and> rest \<noteq> [] then line # scan_lines cap (tl rest)
        else if length line < cap then [line]
        else scan_lines cap (tl rest))"
  by pat_completeness auto
termination
proof (relation "measure (\<lambda>(_, s). length s)", goal_cases)
  case (2 cap s line rest)
  then have "length rest \<le> length s" "0 < length s" by (simp_all add: length_dropWhile_le)
  then show ?case by (cases s) auto
next
  case (3 cap s line rest)
  then have "length rest \<le> length s" "0 < length s" by (simp_all add: length_dropWhile_le)
  then show ?case by (cases s) auto
qed auto

declare scan_lines.simps [simp del]

datatype io_error = IOError

definition scanBounded :: "nat \<Rightarrow> string \<Rightarrow> bool \<Rightarrow> ('s \<Rightarrow> string \<Rightarrow> 's) \<Rightarrow> 's \<Rightarrow> 's \<times> (io_error + unit)" where
  "scanBounded cap content rerr fn s = (foldl fn s (scan_lines cap content), if rerr then Inl IOError else Inr ())"

definition dec_time :: "(string \<Rightarrow> time option) \<Rightarrow> json \<Rightarrow> time \<Rightarrow> time \<times> bool" where
  "dec_time parse_time v old =
     (case v of
        JNull \<Rightarrow> (old, False)
      | JStr raw \<Rightarrow> (case parse_time raw of None \<Rightarrow> (old, True) | Some t \<Rightarrow> (t, False))
      | _ \<Rightarrow> (old, True))"

definition record_tags :: "string list" where
  "record_tags = [''time'', ''request_id'', ''key_id'', ''model'', ''backend'', ''endpoint'', ''status'', ''duration_ms'',
     ''input_tokens'', ''output_tokens'', ''total_tokens'', ''cached_tokens'', ''reasoning_tokens'', ''usage_status'',
     ''retries'', ''charged_tokens'']"

definition dec_record :: "(string \<Rightarrow> time option) \<Rightarrow> json \<Rightarrow> acc_record \<Rightarrow> acc_record \<times> bool" where
  "dec_record parse_time =
     dec_struct record_tags
       (\<lambda>t v r.
          if t = ''time'' then set_field (dec_time parse_time v (rc_Time r)) (\<lambda>x. r\<lparr>rc_Time := x\<rparr>)
          else if t = ''request_id'' then set_field (dec_string v (rc_RequestID r)) (\<lambda>x. r\<lparr>rc_RequestID := x\<rparr>)
          else if t = ''key_id'' then set_field (dec_string v (rc_KeyID r)) (\<lambda>x. r\<lparr>rc_KeyID := x\<rparr>)
          else if t = ''model'' then set_field (dec_string v (rc_Model r)) (\<lambda>x. r\<lparr>rc_Model := x\<rparr>)
          else if t = ''backend'' then set_field (dec_string v (rc_Backend r)) (\<lambda>x. r\<lparr>rc_Backend := x\<rparr>)
          else if t = ''endpoint'' then set_field (dec_string v (rc_Endpoint r)) (\<lambda>x. r\<lparr>rc_Endpoint := x\<rparr>)
          else if t = ''status'' then set_field (dec_int64 v (rc_Status r)) (\<lambda>x. r\<lparr>rc_Status := x\<rparr>)
          else if t = ''duration_ms'' then set_field (dec_int64 v (rc_DurationMS r)) (\<lambda>x. r\<lparr>rc_DurationMS := x\<rparr>)
          else if t = ''input_tokens'' then set_field (dec_int64 v (rc_InputTokens r)) (\<lambda>x. r\<lparr>rc_InputTokens := x\<rparr>)
          else if t = ''output_tokens'' then set_field (dec_int64 v (rc_OutputTokens r)) (\<lambda>x. r\<lparr>rc_OutputTokens := x\<rparr>)
          else if t = ''total_tokens'' then set_field (dec_int64 v (rc_TotalTokens r)) (\<lambda>x. r\<lparr>rc_TotalTokens := x\<rparr>)
          else if t = ''cached_tokens'' then set_field (dec_int64 v (rc_CachedTokens r)) (\<lambda>x. r\<lparr>rc_CachedTokens := x\<rparr>)
          else if t = ''reasoning_tokens'' then set_field (dec_int64 v (rc_ReasoningTokens r)) (\<lambda>x. r\<lparr>rc_ReasoningTokens := x\<rparr>)
          else if t = ''usage_status'' then set_field (dec_string v (rc_UsageStatus r)) (\<lambda>x. r\<lparr>rc_UsageStatus := x\<rparr>)
          else if t = ''retries'' then set_field (dec_int64 v (rc_Retries r)) (\<lambda>x. r\<lparr>rc_Retries := x\<rparr>)
          else set_field (dec_int64 v (rc_ChargedTokens r)) (\<lambda>x. r\<lparr>rc_ChargedTokens := x\<rparr>))"

definition unmarshal_record :: "(string \<Rightarrow> time option) \<Rightarrow> string \<Rightarrow> acc_record option" where
  "unmarshal_record parse_time line =
     (case unmarshal (dec_record parse_time) line zero_record of (r, err) \<Rightarrow> if err then None else Some r)"

text \<open>The part of \<^verbatim>\<open>replayLine\<close> after the line has been decoded.\<close>

definition replay_record :: "quota \<Rightarrow> time \<Rightarrow> acc_record \<Rightarrow> quota" where
  "replay_record q now r =
     (let tokens = (if rc_ChargedTokens r = 0 then rc_TotalTokens r else rc_ChargedTokens r) in
      if rc_KeyID r = [] \<or> tokens \<le> 0 then q
      else
        (let (q', st) = stateFor q (rc_KeyID r) now;
             st1 = (if hourKey (rc_Time r) = kq_hourKey st then st\<lparr>kq_hour := satAdd (kq_hour st) tokens\<rparr> else st);
             st2 = (if dayKey (rc_Time r) = kq_dayKey st1 then st1\<lparr>kq_day := satAdd (kq_day st1) tokens\<rparr> else st1)
         in q'(rc_KeyID r \<mapsto> st2)))"

definition replayLine :: "(string \<Rightarrow> time option) \<Rightarrow> time \<Rightarrow> quota \<Rightarrow> string \<Rightarrow> quota" where
  "replayLine parse_time now q line =
     (case unmarshal_record parse_time line of None \<Rightarrow> q | Some r \<Rightarrow> replay_record q now r)"

datatype log_file = NotExist | OpenError | Contents string bool

text \<open>
  Which part of the file is scanned: all of it, or the last \<open>maxBytes\<close> without the fragment of a line
  that the window starts in. Of that fragment at most one buffer is dropped.
\<close>

definition discard_fragment :: "nat \<Rightarrow> string \<Rightarrow> string" where
  "discard_fragment cap s =
     (let line = takeWhile (\<lambda>c. c \<noteq> CHR 0x0A) s in
      if length line < cap then drop (length line + 1) s else drop cap s)"

definition replay_window :: "nat \<Rightarrow> string \<Rightarrow> int \<Rightarrow> string" where
  "replay_window cap content maxBytes =
     (if maxBytes \<le> 0 \<or> int (length content) \<le> maxBytes then content
      else
        (let start = length content - nat maxBytes;
             aligned = (content ! (start - 1) = CHR 0x0A);
             tail = drop start content
         in if aligned then tail else discard_fragment cap tail))"

definition Replay :: "(string \<Rightarrow> time option) \<Rightarrow> quota \<Rightarrow> log_file \<Rightarrow> int \<Rightarrow> time \<Rightarrow> quota \<times> (io_error + unit)" where
  "Replay parse_time q f maxBytes now =
     (case f of
        NotExist \<Rightarrow> (q, Inr ())
      | OpenError \<Rightarrow> (q, Inl IOError)
      | Contents content rerr \<Rightarrow>
          scanBounded maxAccountingLine (replay_window maxAccountingLine content maxBytes) rerr
            (replayLine parse_time now) q)"

subsection \<open>Usage report\<close>

record key_usage =
  ku_KeyID :: string
  ku_Requests :: int
  ku_InputTokens :: int
  ku_OutputTokens :: int
  ku_TotalTokens :: int
  ku_CachedTokens :: int

text \<open>The report under construction: the entries in the order in which their keys were first seen.\<close>

definition add_usage :: "acc_record \<Rightarrow> key_usage \<Rightarrow> key_usage" where
  "add_usage r ku = ku\<lparr>
     ku_Requests := wrap64 (ku_Requests ku + 1),
     ku_InputTokens := satAdd (ku_InputTokens ku) (clampUsage (rc_InputTokens r)),
     ku_OutputTokens := satAdd (ku_OutputTokens ku) (clampUsage (rc_OutputTokens r)),
     ku_TotalTokens := satAdd (ku_TotalTokens ku) (clampUsage (rc_TotalTokens r)),
     ku_CachedTokens := satAdd (ku_CachedTokens ku) (clampUsage (rc_CachedTokens r))\<rparr>"

definition report_record :: "key_usage list \<Rightarrow> acc_record \<Rightarrow> key_usage list" where
  "report_record kus r =
     (if rc_KeyID r = [] then kus
      else
        (let kus' = (if rc_KeyID r \<in> ku_KeyID ` set kus then kus
                     else kus @ [\<lparr>ku_KeyID = rc_KeyID r, ku_Requests = 0, ku_InputTokens = 0, ku_OutputTokens = 0,
                                  ku_TotalTokens = 0, ku_CachedTokens = 0\<rparr>])
         in map (\<lambda>ku. if ku_KeyID ku = rc_KeyID r then add_usage r ku else ku) kus'))"

definition ReportFile :: "(string \<Rightarrow> time option) \<Rightarrow> log_file \<Rightarrow> io_error + key_usage list" where
  "ReportFile parse_time f =
     (case f of
        NotExist \<Rightarrow> Inr []
      | OpenError \<Rightarrow> Inl IOError
      | Contents content rerr \<Rightarrow>
          (case scanBounded maxAccountingLine content rerr
                  (\<lambda>kus line. case unmarshal_record parse_time line of None \<Rightarrow> kus | Some r \<Rightarrow> report_record kus r) [] of
             (kus, Inl e) \<Rightarrow> Inl e
           | (kus, Inr _) \<Rightarrow> Inr kus))"

subsection \<open>The log writer\<close>

text \<open>
  The writer as a state machine. A request thread first reads the closed flag and then tries the
  queue (\<open>wr_entered\<close> holds the records of the threads between the two); the consumer takes records until
  it sees the stop channel closed, drains what is queued and finishes; \<^verbatim>\<open>Close\<close> raises the flag, closes
  the stop channel, waits for the consumer and empties the queue once more. Whether a record could be
  written is part of the event.
\<close>

datatype writer_phase = Running | Draining | Finished | Returned

record writer =
  wr_cap :: nat
  wr_q :: "acc_record list"
  wr_entered :: "acc_record list"
  wr_written :: "acc_record list"
  wr_dropped :: int
  wr_closed :: bool
  wr_phase :: writer_phase
  wr_lastAlert :: int
  wr_alerts :: "int list"

definition alertCadence :: int where "alertCadence = 30"

definition alertDue :: "writer \<Rightarrow> int \<Rightarrow> writer \<times> bool" where
  "alertDue w now =
     (if now < wr_lastAlert w then (w, False)
      else (w\<lparr>wr_lastAlert := now + alertCadence\<rparr>, True))"

datatype writer_error = UnsupportedOverflow string | OpenLogFailed

definition NewWriter :: "int \<Rightarrow> string \<Rightarrow> bool \<Rightarrow> writer_error + writer" where
  "NewWriter queueSize overflow openOK =
     (let size = (if queueSize \<le> 0 then 4096 else queueSize);
          policy = (if overflow = [] then ''drop-and-alert'' else overflow)
      in if policy \<noteq> ''drop-and-alert'' then Inl (UnsupportedOverflow policy)
         else if \<not> openOK then Inl OpenLogFailed
         else Inr \<lparr>wr_cap = nat size, wr_q = [], wr_entered = [], wr_written = [], wr_dropped = 0, wr_closed = False,
                   wr_phase = Running, wr_lastAlert = 0, wr_alerts = []\<rparr>)"

text \<open>\<^verbatim>\<open>Enqueue\<close>, first half: the closed flag.\<close>

definition enqueue_enter :: "writer \<Rightarrow> acc_record \<Rightarrow> writer" where
  "enqueue_enter w r =
     (if wr_closed w then w\<lparr>wr_dropped := wr_dropped w + 1\<rparr>
      else w\<lparr>wr_entered := wr_entered w @ [r]\<rparr>)"

text \<open>\<^verbatim>\<open>Enqueue\<close>, second half: the non-blocking send of the \<open>i\<close>-th waiting record at Unix time \<open>now\<close>.\<close>

definition enqueue_send :: "writer \<Rightarrow> nat \<Rightarrow> int \<Rightarrow> writer" where
  "enqueue_send w i now =
     (let r = wr_entered w ! i;
          w1 = w\<lparr>wr_entered := take i (wr_entered w) @ drop (Suc i) (wr_entered w)\<rparr>
      in if length (wr_q w) < wr_cap w then w1\<lparr>wr_q := wr_q w1 @ [r]\<rparr>
         else let (w2, due) = alertDue (w1\<lparr>wr_dropped := wr_dropped w1 + 1\<rparr>) now in
           if due then w2\<lparr>wr_alerts := wr_alerts w2 @ [now]\<rparr> else w2)"

definition Enqueue :: "writer \<Rightarrow> acc_record \<Rightarrow> int \<Rightarrow> writer" where
  "Enqueue w r now =
     (let w1 = enqueue_enter w r in
      if wr_closed w then w1 else enqueue_send w1 (length (wr_entered w)) now)"

text \<open>The consumer takes one record from the queue and writes it.\<close>

definition consume :: "writer \<Rightarrow> bool \<Rightarrow> writer" where
  "consume w ok =
     (case wr_q w of
        [] \<Rightarrow> w
      | r # q \<Rightarrow>
          if ok then w\<lparr>wr_q := q, wr_written := wr_written w @ [r]\<rparr>
          else w\<lparr>wr_q := q, wr_dropped := wr_dropped w + 1\<rparr>)"

datatype writer_event =
    Enter acc_record | Send nat int
  | Consume bool
  | CloseBegin
  | SeeStop
  | Finish
  | FinalDrain

text \<open>One step; an event that is not enabled leaves the state alone.\<close>

fun writer_step :: "writer \<Rightarrow> writer_event \<Rightarrow> writer" where
  "writer_step w (Enter r) = enqueue_enter w r"
| "writer_step w (Send i now) = (if i < length (wr_entered w) then enqueue_send w i now else w)"
| "writer_step w (Consume ok) = (if wr_phase w \<in> {Running, Draining} then consume w ok else w)"
| "writer_step w CloseBegin = w\<lparr>wr_closed := True\<rparr>"
| "writer_step w SeeStop = (if wr_phase w = Running \<and> wr_closed w then w\<lparr>wr_phase := Draining\<rparr> else w)"
| "writer_step w Finish = (if wr_phase w = Draining \<and> wr_q w = [] then w\<lparr>wr_phase := Finished\<rparr> else w)"
| "writer_step w FinalDrain =
     (if wr_phase w = Finished
      then w\<lparr>wr_dropped := wr_dropped w + int (length (wr_q w)), wr_q := [], wr_phase := Returned\<rparr> else w)"

fun submitted :: "writer_event list \<Rightarrow> nat" where
  "submitted [] = 0"
| "submitted (Enter r # es) = Suc (submitted es)"
| "submitted (_ # es) = submitted es"

section \<open>Lemmas\<close>

subsection \<open>Saturating sums\<close>

abbreviation count_ok :: "int \<Rightarrow> bool" where
  "count_ok n \<equiv> 0 \<le> n \<and> n \<le> MaxInt64"

lemma satAdd_spec: "count_ok a \<Longrightarrow> int64_ok b \<Longrightarrow> satAdd a b = max 0 (min MaxInt64 (a + b))"
proof -
  assume a: "count_ok a" and b: "int64_ok b"
  show ?thesis
  proof (cases "MaxInt64 < a + b")
    case True
    then have "0 < b" "MaxInt64 - b < a" "int64_ok (MaxInt64 - b)" using a b by (auto simp: int64_ok_def)
    with True show ?thesis by (simp add: satAdd_def)
  next
    case False
    then have "int64_ok (a + b)" "0 < b \<longrightarrow> int64_ok (MaxInt64 - b)" using a b by (auto simp: int64_ok_def)
    with False show ?thesis by (auto simp: satAdd_def Let_def)
  qed
qed

lemma satAdd_ok: "count_ok a \<Longrightarrow> int64_ok b \<Longrightarrow> count_ok (satAdd a b)"
  by (simp add: satAdd_spec)

lemma clampUsage_bounds: "0 \<le> clampUsage v" "clampUsage v \<le> maxUsageTokens"
  by (auto simp: clampUsage_def maxUsageTokens_def)

definition sat_sum :: "int list \<Rightarrow> int" where
  "sat_sum ns = min MaxInt64 (sum_list ns)"

lemma sat_sum_Nil [simp]: "sat_sum [] = 0"
  by (simp add: sat_sum_def)

lemma sat_sum_ok: "\<forall>n \<in> set ns. 0 \<le> n \<Longrightarrow> count_ok (sat_sum ns)"
  by (simp add: sat_sum_def sum_list_nonneg)

lemma sat_sum_snoc:
  assumes "\<forall>n \<in> set ns. 0 \<le> n" "count_ok n"
  shows "satAdd (sat_sum ns) n = sat_sum (ns @ [n])"
  using assms sat_sum_ok [OF assms(1)] sum_list_nonneg [of ns]
  by (subst satAdd_spec) (auto simp: sat_sum_def int64_ok_def)

subsection \<open>A fixed token window\<close>

text \<open>
  The contract of one window: its period key never decreases with time. A window is absent or holds
  the key of its period and the tokens charged in it. The locale shows that charging as the requests
  complete and reconstructing from their records give the same total, whichever period is meant.
\<close>

locale token_window =
  fixes period :: "time \<Rightarrow> int"
  assumes period_mono: "t \<le> u \<Longrightarrow> period t \<le> period u"
begin

definition roll :: "(int \<times> int) option \<Rightarrow> time \<Rightarrow> int \<times> int" where
  "roll w now = (case w of None \<Rightarrow> (period now, 0) | Some (p, n) \<Rightarrow> if p < period now then (period now, 0) else (p, n))"

definition charge :: "(int \<times> int) option \<Rightarrow> int \<times> time \<Rightarrow> (int \<times> int) option" where
  "charge w e = (case roll w (snd e) of (p, n) \<Rightarrow> Some (p, satAdd n (fst e)))"

definition restore :: "time \<Rightarrow> (int \<times> int) option \<Rightarrow> int \<times> time \<Rightarrow> (int \<times> int) option" where
  "restore now w e = (case roll w now of (p, n) \<Rightarrow> Some (p, if period (snd e) = p then satAdd n (fst e) else n))"

definition in_period :: "int \<Rightarrow> (int \<times> time) list \<Rightarrow> int list" where
  "in_period p es = map fst (filter (\<lambda>e. period (snd e) = p) es)"

lemma charge_simps:
  "charge None e = Some (period (snd e), satAdd 0 (fst e))"
  "charge (Some (p, n)) e =
     (if p < period (snd e) then Some (period (snd e), satAdd 0 (fst e)) else Some (p, satAdd n (fst e)))"
  by (simp_all add: charge_def roll_def)

lemma in_period_snoc: "in_period p (es @ [e]) = in_period p es @ (if period (snd e) = p then [fst e] else [])"
  by (simp add: in_period_def)

lemma in_period_nonneg: "\<forall>e \<in> set es. count_ok (fst e) \<Longrightarrow> \<forall>n \<in> set (in_period p es). 0 \<le> n"
  by (auto simp: in_period_def)

lemma charge_all:
  assumes "sorted (map snd es)" "\<forall>e \<in> set es. count_ok (fst e)" "es \<noteq> []"
  shows "foldl charge None es = Some (period (snd (last es)), sat_sum (in_period (period (snd (last es))) es))"
  using assms
proof (induction es rule: rev_induct)
  case (snoc e es)
  have nn: "\<forall>n \<in> set (in_period p es). 0 \<le> n" for p
    by (rule in_period_nonneg) (use snoc.prems(2) in simp)
  have e: "count_ok (fst e)" using snoc.prems by simp
  show ?case
  proof (cases "es = []")
    case True
    with e sat_sum_snoc [of "[]" "fst e"] show ?thesis by (simp add: charge_simps in_period_def)
  next
    case False
    then have IH: "foldl charge None es = Some (period (snd (last es)), sat_sum (in_period (period (snd (last es))) es))"
      using snoc by (simp add: sorted_append)
    have earlier: "period (snd x) \<le> period (snd (last es))" if "x \<in> set es" for x
    proof -
      obtain xs l where es: "es = xs @ [l]" using False by (cases es rule: rev_cases) auto
      then have "snd x \<le> snd l" using snoc.prems(1) that by (auto simp: sorted_append)
      then show ?thesis using es by (simp add: period_mono)
    qed
    have "snd (last es) \<le> snd e" using snoc.prems False by (simp add: sorted_append)
    then have le: "period (snd (last es)) \<le> period (snd e)" by (rule period_mono)
    show ?thesis
    proof (cases "period (snd (last es)) < period (snd e)")
      case True
      then have "in_period (period (snd e)) es = []" using earlier by (force simp: in_period_def filter_empty_conv)
      with True IH e sat_sum_snoc [of "[]" "fst e"] show ?thesis by (simp add: charge_simps in_period_snoc)
    next
      case False
      with le have "period (snd e) = period (snd (last es))" by simp
      with IH e sat_sum_snoc [OF nn] show ?thesis by (simp add: charge_simps in_period_snoc)
    qed
  qed
qed simp

lemma charged_total:
  assumes "sorted (map snd es)" "\<forall>e \<in> set es. count_ok (fst e) \<and> snd e \<le> now"
  shows "roll (foldl charge None es) now = (period now, sat_sum (in_period (period now) es))"
proof (cases es rule: rev_cases)
  case (snoc xs l)
  then have all: "foldl charge None es = Some (period (snd l), sat_sum (in_period (period (snd l)) es))"
    using charge_all [of es] assms by simp
  have "period (snd l) \<le> period now" using assms(2) snoc by (simp add: period_mono)
  moreover have "in_period (period now) es = []" if "period (snd l) < period now"
  proof -
    have "period (snd x) \<le> period (snd l)" if "x \<in> set es" for x
      using assms(1) snoc that by (auto simp: sorted_append intro: period_mono)
    with that show ?thesis by (force simp: in_period_def filter_empty_conv)
  qed
  ultimately show ?thesis using all by (auto simp: roll_def)
qed (simp add: roll_def in_period_def)

lemma restored_total:
  assumes "\<forall>e \<in> set es. count_ok (fst e)"
  shows "roll (foldl (restore now) None es) now = (period now, sat_sum (in_period (period now) es))"
  using assms
proof (induction es rule: rev_induct)
  case (snoc e es)
  have "\<forall>n \<in> set (in_period (period now) es). 0 \<le> n" by (rule in_period_nonneg) (use snoc.prems in simp)
  from sat_sum_snoc [OF this] snoc show ?case by (auto simp: restore_def in_period_snoc roll_def [of "Some _"])
qed (simp add: roll_def in_period_def)

lemma restored_eq_charged:
  "sorted (map snd es) \<Longrightarrow> \<forall>e \<in> set es. count_ok (fst e) \<and> snd e \<le> now \<Longrightarrow>
     roll (foldl (restore now) None es) now = roll (foldl charge None es) now"
  by (simp add: charged_total restored_total)

end

lemma period_key_mono:
  assumes "0 < p" "a \<le> b"
  shows "a - go_mod a p \<le> b - go_mod b p"
proof -
  have "go_div a p \<le> go_div b p"
  proof (cases "0 \<le> a")
    case True
    with assms show ?thesis by (cases "a = 0"; cases "b = 0") (auto simp: go_div_def zdiv_mono1 pos_imp_zdiv_nonneg_iff)
  next
    case a: False
    show ?thesis
    proof (cases "0 \<le> b")
      case True
      then have "go_div a p \<le> 0" "0 \<le> go_div b p" using a assms(1)
        by (cases "b = 0"; simp add: go_div_def pos_imp_zdiv_nonneg_iff)+
      then show ?thesis by simp
    next
      case False
      then have "- b div p \<le> - a div p" using assms by (intro zdiv_mono1) auto
      with a False assms(1) show ?thesis by (simp add: go_div_def)
    qed
  qed
  then show ?thesis using assms by (simp add: go_div_mult mult_left_mono)
qed

interpretation hour_window: token_window hourKey
  by unfold_locales (simp add: hourKey_def period_key_mono time_unix_mono)

interpretation day_window: token_window dayKey
  by unfold_locales (simp add: dayKey_def period_key_mono time_unix_mono)

subsection \<open>The quota table as two windows per key\<close>

definition hour_part :: "quota \<Rightarrow> string \<Rightarrow> (int \<times> int) option" where
  "hour_part q k = map_option (\<lambda>st. (kq_hourKey st, kq_hour st)) (q k)"

definition day_part :: "quota \<Rightarrow> string \<Rightarrow> (int \<times> int) option" where
  "day_part q k = map_option (\<lambda>st. (kq_dayKey st, kq_day st)) (q k)"

lemma part_upd [simp]:
  "hour_part (q(k \<mapsto> st)) k' = (if k' = k then Some (kq_hourKey st, kq_hour st) else hour_part q k')"
  "day_part (q(k \<mapsto> st)) k' = (if k' = k then Some (kq_dayKey st, kq_day st) else day_part q k')"
  by (simp_all add: hour_part_def day_part_def)

lemma stateFor_roll:
  "stateFor q k now = (q', st) \<Longrightarrow>
     hour_window.roll (hour_part q k) now = (kq_hourKey st, kq_hour st) \<and>
     day_window.roll (day_part q k) now = (kq_dayKey st, kq_day st) \<and> q' = q(k \<mapsto> st)"
  by (auto simp: stateFor_def hour_window.roll_def day_window.roll_def hour_part_def day_part_def Let_def split: option.splits)

lemma Settle_parts:
  assumes "0 < n"
  shows "hour_part (Settle q k n t) k' = (if k' = k then hour_window.charge (hour_part q k) (n, t) else hour_part q k')"
    and "day_part (Settle q k n t) k' = (if k' = k then day_window.charge (day_part q k) (n, t) else day_part q k')"
proof -
  obtain q' st where st: "stateFor q k t = (q', st)" by fastforce
  note sr = stateFor_roll [OF st]
  show "hour_part (Settle q k n t) k' = (if k' = k then hour_window.charge (hour_part q k) (n, t) else hour_part q k')"
    using sr assms by (simp add: Settle_def st hour_window.charge_def)
  show "day_part (Settle q k n t) k' = (if k' = k then day_window.charge (day_part q k) (n, t) else day_part q k')"
    using sr assms by (simp add: Settle_def st day_window.charge_def)
qed

definition charged :: "acc_record \<Rightarrow> int" where
  "charged r = (if rc_ChargedTokens r = 0 then rc_TotalTokens r else rc_ChargedTokens r)"

lemma replay_parts:
  assumes "0 < charged r" "rc_KeyID r \<noteq> []"
  shows "hour_part (replay_record q now r) k' =
      (if k' = rc_KeyID r then hour_window.restore now (hour_part q k') (charged r, rc_Time r) else hour_part q k')"
    and "day_part (replay_record q now r) k' =
      (if k' = rc_KeyID r then day_window.restore now (day_part q k') (charged r, rc_Time r) else day_part q k')"
proof -
  obtain q' st where st: "stateFor q (rc_KeyID r) now = (q', st)" by fastforce
  note sr = stateFor_roll [OF st]
  have eq: "replay_record q now r = q(rc_KeyID r \<mapsto> st\<lparr>
      kq_hour := (if hourKey (rc_Time r) = kq_hourKey st then satAdd (kq_hour st) (charged r) else kq_hour st),
      kq_day := (if dayKey (rc_Time r) = kq_dayKey st then satAdd (kq_day st) (charged r) else kq_day st)\<rparr>)"
    using assms sr by (simp add: replay_record_def st charged_def Let_def)
  show "hour_part (replay_record q now r) k' =
      (if k' = rc_KeyID r then hour_window.restore now (hour_part q k') (charged r, rc_Time r) else hour_part q k')"
    using sr by (simp add: eq hour_window.restore_def)
  show "day_part (replay_record q now r) k' =
      (if k' = rc_KeyID r then day_window.restore now (day_part q k') (charged r, rc_Time r) else day_part q k')"
    using sr by (simp add: eq day_window.restore_def)
qed

lemma replay_skip: "\<not> 0 < charged r \<or> rc_KeyID r = [] \<Longrightarrow> replay_record q now r = q"
  by (auto simp: replay_record_def charged_def Let_def)

text \<open>The charges of one key among a list of records, in order.\<close>

definition key_events :: "string \<Rightarrow> acc_record list \<Rightarrow> (int \<times> time) list" where
  "key_events k rs = map (\<lambda>r. (charged r, rc_Time r)) (filter (\<lambda>r. rc_KeyID r = k \<and> 0 < charged r) rs)"

definition settle_all :: "acc_record list \<Rightarrow> quota" where
  "settle_all rs = foldl (\<lambda>q r. Settle q (rc_KeyID r) (charged r) (rc_Time r)) Map.empty rs"

definition replay_all :: "time \<Rightarrow> acc_record list \<Rightarrow> quota" where
  "replay_all now rs = foldl (\<lambda>q r. replay_record q now r) Map.empty rs"

lemma settle_all_parts:
  "hour_part (settle_all rs) k = foldl hour_window.charge None (key_events k rs)"
  "day_part (settle_all rs) k = foldl day_window.charge None (key_events k rs)"
proof (induction rs rule: rev_induct)
  case (snoc r rs)
  {
    case 1
    show ?case
      using snoc(1) Settle_parts(1) [of "charged r"]
      by (cases "0 < charged r") (auto simp: settle_all_def key_events_def Settle_def)
  next
    case 2
    show ?case
      using snoc(2) Settle_parts(2) [of "charged r"]
      by (cases "0 < charged r") (auto simp: settle_all_def key_events_def Settle_def)
  }
qed (simp_all add: settle_all_def key_events_def hour_part_def day_part_def)

lemma replay_all_parts:
  assumes "k \<noteq> []"
  shows "hour_part (replay_all now rs) k = foldl (hour_window.restore now) None (key_events k rs)"
    and "day_part (replay_all now rs) k = foldl (day_window.restore now) None (key_events k rs)"
proof (induction rs rule: rev_induct)
  case (snoc r rs)
  {
    case 1
    show ?case
      using snoc(1) replay_parts(1) [of r] replay_skip [of r] assms
      by (cases "0 < charged r \<and> rc_KeyID r \<noteq> []") (auto simp: replay_all_def key_events_def)
  next
    case 2
    show ?case
      using snoc(2) replay_parts(2) [of r] replay_skip [of r] assms
      by (cases "0 < charged r \<and> rc_KeyID r \<noteq> []") (auto simp: replay_all_def key_events_def)
  }
qed (simp_all add: replay_all_def key_events_def hour_part_def day_part_def)

definition tokens_in :: "(time \<Rightarrow> int) \<Rightarrow> int \<Rightarrow> string \<Rightarrow> acc_record list \<Rightarrow> int" where
  "tokens_in per p k rs =
     sum_list (map charged (filter (\<lambda>r. rc_KeyID r = k \<and> 0 < charged r \<and> per (rc_Time r) = p) rs))"

lemma tokens_in_hour: "sum_list (hour_window.in_period p (key_events k rs)) = tokens_in hourKey p k rs"
  by (induction rs) (auto simp: hour_window.in_period_def key_events_def tokens_in_def)

lemma tokens_in_day: "sum_list (day_window.in_period p (key_events k rs)) = tokens_in dayKey p k rs"
  by (induction rs) (auto simp: day_window.in_period_def key_events_def tokens_in_def)

lemma Admit_windows:
  assumes "hour_window.roll (hour_part q k) now = hour_window.roll (hour_part q' k) now"
    and "day_window.roll (day_part q k) now = day_window.roll (day_part q' k) now"
  shows "snd (Admit q k limits res now) = snd (Admit q' k limits res now)"
proof -
  obtain p st p' st' where st: "stateFor q k now = (p, st)" "stateFor q' k now = (p', st')" by fastforce
  have "kq_hour st = kq_hour st'" "kq_day st = kq_day st'"
    using stateFor_roll [OF st(1)] stateFor_roll [OF st(2)] assms by (metis prod.inject)+
  then show ?thesis by (auto simp: Admit_def st)
qed

lemma Admit_None:
  "stateFor q k now = (q', st) \<Longrightarrow> snd (Admit q k limits res now) = None \<longleftrightarrow>
     (wl_TokensPerHour limits \<le> 0 \<or>
        \<not> (wl_TokensPerHour limits < res \<or> wrap64 (wl_TokensPerHour limits - res) < kq_hour st)) \<and>
     (wl_TokensPerDay limits \<le> 0 \<or>
        \<not> (wl_TokensPerDay limits < res \<or> wrap64 (wl_TokensPerDay limits - res) < kq_day st))"
  by (auto simp: Admit_def)

text \<open>The comparison written without overflow is the plain one.\<close>

lemma over_limit:
  assumes "0 < l" "l < MaxInt64" "0 \<le> n" "0 \<le> res"
  shows "(l < res \<or> wrap64 (l - res) < min MaxInt64 n) \<longleftrightarrow> \<not> n + res \<le> l"
proof (cases "l < res")
  case False
  then have "int64_ok (l - res)" using assms by (simp add: int64_ok_def)
  with False assms show ?thesis by auto
qed (use assms in auto)

definition history_ok :: "time \<Rightarrow> acc_record list \<Rightarrow> bool" where
  "history_ok now rs \<longleftrightarrow> sorted (map rc_Time rs) \<and> (\<forall>r \<in> set rs. rc_Time r \<le> now \<and> charged r \<le> MaxInt64)"

lemma history_events:
  assumes "history_ok now rs"
  shows "sorted (map snd (key_events k rs))" "\<forall>e \<in> set (key_events k rs). count_ok (fst e) \<and> snd e \<le> now"
proof -
  have "sorted (map rc_Time (filter (\<lambda>r. rc_KeyID r = k \<and> 0 < charged r) rs))"
    using assms by (simp add: history_ok_def sorted_filter)
  then show "sorted (map snd (key_events k rs))" by (simp add: key_events_def comp_def)
qed (use assms in \<open>auto simp: history_ok_def key_events_def\<close>)

subsection \<open>Lines\<close>

lemma scan_lines_bound: "l \<in> set (scan_lines cap s) \<Longrightarrow> length l < cap \<and> CHR 0x0A \<notin> set l"
proof (induction cap s rule: scan_lines.induct)
  case (1 cap s)
  let ?line = "takeWhile (\<lambda>c. c \<noteq> CHR 0x0A) s" and ?rest = "dropWhile (\<lambda>c. c \<noteq> CHR 0x0A) s"
  have line: "CHR 0x0A \<notin> set ?line" by (auto dest: set_takeWhileD)
  have s: "s \<noteq> []" using "1.prems" by (auto simp: scan_lines.simps [of cap s])
  consider "length ?line < cap" "?rest \<noteq> []" | "length ?line < cap" "?rest = []" | "\<not> length ?line < cap" by blast
  then show ?case
  proof cases
    case 1
    with "1.prems" s have "l = ?line \<or> l \<in> set (scan_lines cap (tl ?rest))"
      by (auto simp: scan_lines.simps [of cap s] Let_def)
    with "1.IH"(1) [OF s refl refl] 1 line show ?thesis by blast
  next
    case 2
    with "1.prems" s have "l = ?line" by (auto simp: scan_lines.simps [of cap s] Let_def)
    with 2 line show ?thesis by blast
  next
    case 3
    with "1.prems" s have "l \<in> set (scan_lines cap (tl ?rest))" by (auto simp: scan_lines.simps [of cap s] Let_def)
    with "1.IH"(2) [OF s refl refl] 3 show ?thesis by blast
  qed
qed

lemma scan_lines_Cons:
  assumes "CHR 0x0A \<notin> set l" "length l < cap"
  shows "scan_lines cap (l @ CHR 0x0A # s) = l # scan_lines cap s"
proof -
  have "takeWhile (\<lambda>c. c \<noteq> CHR 0x0A) (l @ CHR 0x0A # s) = l" "dropWhile (\<lambda>c. c \<noteq> CHR 0x0A) (l @ CHR 0x0A # s) = CHR 0x0A # s"
    using assms(1) by (auto simp: takeWhile_append dropWhile_append)
  then show ?thesis using assms(2) by (subst scan_lines.simps) (simp add: Let_def)
qed

lemma scan_lines_exact:
  "\<forall>l \<in> set ls. CHR 0x0A \<notin> set l \<and> length l < cap \<Longrightarrow> scan_lines cap (concat (map (\<lambda>l. l @ [CHR 0x0A]) ls)) = ls"
proof (induction ls)
  case Nil
  then show ?case by (subst scan_lines.simps) simp
next
  case (Cons l ls)
  then show ?case using scan_lines_Cons [of l cap "concat (map (\<lambda>l. l @ [CHR 0x0A]) ls)"] by simp
qed

lemma Replay_whole:
  "fst (Replay pt Map.empty (Contents content rerr) 0 now) =
     replay_all now (List.map_filter (unmarshal_record pt) (scan_lines maxAccountingLine content))"
proof -
  have "foldl (replayLine pt now) q ls = foldl (\<lambda>q r. replay_record q now r) q (List.map_filter (unmarshal_record pt) ls)" for q ls
    by (induction ls arbitrary: q) (auto simp: replayLine_def map_filter_simps split: option.splits)
  then show ?thesis by (simp add: Replay_def scanBounded_def replay_window_def replay_all_def)
qed

subsection \<open>Usage values\<close>

definition usage_ok :: "usage \<Rightarrow> bool" where
  "usage_ok u \<longleftrightarrow>
     us_Input u \<in> {0..maxUsageTokens} \<and> us_Output u \<in> {0..maxUsageTokens} \<and> us_Total u \<in> {0..2 * maxUsageTokens} \<and>
     us_Cached u \<in> {0..maxUsageTokens} \<and> us_Reasoning u \<in> {0..maxUsageTokens}"

lemma no_usage_ok [simp]: "usage_ok no_usage" "\<not> us_Present no_usage"
  by (simp_all add: usage_ok_def no_usage_def maxUsageTokens_def)

lemma usage_of_body_ok: "usage_ok (usage_of_body b)"
proof -
  have sum: "satAdd (clampUsage a) (clampUsage c) = clampUsage a + clampUsage c" for a c
    using clampUsage_bounds [of a] clampUsage_bounds [of c]
    by (subst satAdd_spec) (auto simp: int64_ok_def maxUsageTokens_def)
  have ok: "clampUsage a + clampUsage c \<le> 2 * maxUsageTokens" "0 \<le> clampUsage a + clampUsage c"
      "clampUsage a \<le> 2 * maxUsageTokens" for a c
    using clampUsage_bounds [of a] clampUsage_bounds [of c] by linarith+
  have m: "0 \<le> maxUsageTokens" by (simp add: maxUsageTokens_def)
  show ?thesis
  proof (cases "ub_In b = 0 \<and> ub_Out b = 0 \<and> ub_Total b = 0")
    case False
    then show ?thesis
      by (simp add: usage_of_body_def usage_ok_def Let_def sum ok clampUsage_bounds m no_usage_def split: option.split)
  qed (simp add: usage_of_body_def)
qed

lemma fromUsageJSON_ok: "usage_ok (fromUsageJSON raw)"
  by (auto simp: fromUsageJSON_def usage_shape_def usage_of_body_ok Let_def split: prod.splits)

subsection \<open>Report\<close>

text \<open>What the entry of a key should be.\<close>

definition summary :: "string \<Rightarrow> acc_record list \<Rightarrow> key_usage" where
  "summary k rs =
     (let mine = filter (\<lambda>r. rc_KeyID r = k) rs; total = (\<lambda>f. sat_sum (map (\<lambda>r. clampUsage (f r)) mine)) in
      \<lparr>ku_KeyID = k, ku_Requests = int (length mine), ku_InputTokens = total rc_InputTokens,
       ku_OutputTokens = total rc_OutputTokens, ku_TotalTokens = total rc_TotalTokens, ku_CachedTokens = total rc_CachedTokens\<rparr>)"

lemma summary_KeyID [simp]: "ku_KeyID (summary k rs) = k"
  by (simp add: summary_def Let_def)

lemma satAdd_clamp_snoc:
  "satAdd (sat_sum (map (\<lambda>r. clampUsage (f r)) rs)) (clampUsage (f r)) = sat_sum (map (\<lambda>r. clampUsage (f r)) (rs @ [r]))"
  using sat_sum_snoc [of "map (\<lambda>r. clampUsage (f r)) rs" "clampUsage (f r)"] clampUsage_bounds
  by (simp add: maxUsageTokens_def order_trans [OF clampUsage_bounds(2)])

lemma add_usage_summary:
  assumes "int (length rs) < MaxInt64"
  shows "add_usage r (summary (rc_KeyID r) rs) = summary (rc_KeyID r) (rs @ [r])"
proof -
  have "length (filter (\<lambda>x. rc_KeyID x = rc_KeyID r) rs) \<le> length rs" by simp
  then have "int (length (filter (\<lambda>x. rc_KeyID x = rc_KeyID r) rs)) + 1 \<le> MaxInt64" using assms by linarith
  then have "int64_ok (int (length (filter (\<lambda>x. rc_KeyID x = rc_KeyID r) rs)) + 1)" by (simp only: int64_ok_def) simp
  then show ?thesis by (simp add: add_usage_def summary_def Let_def satAdd_clamp_snoc del: map_append)
qed

lemma summary_other: "rc_KeyID r \<noteq> k \<Longrightarrow> summary k (rs @ [r]) = summary k rs"
  by (simp add: summary_def)

lemma summary_none: "\<forall>r \<in> set rs. rc_KeyID r \<noteq> k \<Longrightarrow>
    summary k rs = \<lparr>ku_KeyID = k, ku_Requests = 0, ku_InputTokens = 0, ku_OutputTokens = 0, ku_TotalTokens = 0, ku_CachedTokens = 0\<rparr>"
  by (simp add: summary_def Let_def filter_False)

lemma report_all:
  assumes "int (length rs) \<le> MaxInt64"
  shows "\<exists>ks. foldl report_record [] rs = map (\<lambda>k. summary k rs) ks \<and> distinct ks \<and> set ks = rc_KeyID ` set rs - {[]}"
  using assms
proof (induction rs rule: rev_induct)
  case (snoc r rs)
  then obtain ks where ks: "foldl report_record [] rs = map (\<lambda>k. summary k rs) ks" "distinct ks" "set ks = rc_KeyID ` set rs - {[]}"
    by auto
  let ?k = "rc_KeyID r"
  have len: "int (length rs) < MaxInt64" using snoc.prems by simp
  have one: "(if k = ?k then add_usage r (summary k rs) else summary k rs) = summary k (rs @ [r])" for k
    using add_usage_summary [OF len, of r] summary_other [of r k rs] by metis
  have upd: "map (\<lambda>ku. if ku_KeyID ku = ?k then add_usage r ku else ku) (map (\<lambda>k. summary k rs) js) = map (\<lambda>k. summary k (rs @ [r])) js" for js
    by (simp add: comp_def one)
  show ?case
  proof (cases "?k = []")
    case True
    then have "map (\<lambda>k. summary k (rs @ [r])) ks = map (\<lambda>k. summary k rs) ks"
      using ks(3) by (intro map_cong) (auto simp: one [symmetric])
    moreover have "report_record kus r = kus" for kus using True by (simp add: report_record_def)
    ultimately show ?thesis using ks True by (intro exI [of _ ks]) auto
  next
    case False
    show ?thesis
    proof (cases "?k \<in> set ks")
      case True
      have "report_record (map (\<lambda>k. summary k rs) ks) r =
          map (\<lambda>ku. if ku_KeyID ku = ?k then add_usage r ku else ku) (map (\<lambda>k. summary k rs) ks)"
        using True False by (simp add: report_record_def image_image)
      also note upd [of ks]
      finally have "report_record (map (\<lambda>k. summary k rs) ks) r = map (\<lambda>k. summary k (rs @ [r])) ks" .
      moreover have "set ks = rc_KeyID ` set (rs @ [r]) - {[]}" 
        using True unfolding ks(3) by auto
      ultimately show ?thesis using ks(1,2) by (intro exI [of _ ks]) simp
    next
      case new: False
      then have "\<forall>x \<in> set rs. rc_KeyID x \<noteq> ?k" using False unfolding ks(3) by (auto simp: image_iff)
      from summary_none [OF this] have "report_record (map (\<lambda>k. summary k rs) ks) r =
          map (\<lambda>ku. if ku_KeyID ku = ?k then add_usage r ku else ku) (map (\<lambda>k. summary k rs) (ks @ [?k]))"
        using False new by (simp add: report_record_def image_image)
      also note upd [of "ks @ [?k]"]
      finally have "report_record (map (\<lambda>k. summary k rs) ks) r = map (\<lambda>k. summary k (rs @ [r])) (ks @ [?k])" .
      moreover have "set (ks @ [?k]) = rc_KeyID ` set (rs @ [r]) - {[]}" using ks(3) False by (simp add: insert_Diff_if)
      ultimately show ?thesis using ks(1,2) new by (intro exI [of _ "ks @ [?k]"]) simp
    qed
  qed
qed simp

subsection \<open>Writer\<close>

lemma alertDue_frame:
  "alertDue w now = (w', due) \<Longrightarrow> wr_q w' = wr_q w \<and> wr_entered w' = wr_entered w \<and> wr_written w' = wr_written w \<and>
     wr_dropped w' = wr_dropped w \<and> wr_cap w' = wr_cap w \<and> wr_phase w' = wr_phase w \<and> wr_closed w' = wr_closed w"
  by (auto simp: alertDue_def split: if_splits)

text \<open>Every record submitted is between the flag and the queue, in the queue, written, or counted as dropped.\<close>

definition accounted :: "writer \<Rightarrow> int" where
  "accounted w = int (length (wr_entered w)) + int (length (wr_q w)) + int (length (wr_written w)) + wr_dropped w"

lemma length_remove_nth: "i < length xs \<Longrightarrow> length (take i xs @ drop (Suc i) xs) = length xs - 1"
  by simp

lemma writer_step_accounted:
  "accounted (writer_step w e) = accounted w + (case e of Enter r \<Rightarrow> 1 | _ \<Rightarrow> 0)"
proof (cases e)
  case (Send i now)
  then show ?thesis
    by (auto simp: accounted_def enqueue_send_def Let_def of_nat_diff dest!: alertDue_frame split: prod.splits)
next
  case (Consume ok)
  then show ?thesis by (auto simp: accounted_def consume_def split: list.splits)
qed (auto simp: accounted_def enqueue_enter_def)

lemma writer_step_cap:
  "length (wr_q w) \<le> wr_cap w \<Longrightarrow> length (wr_q (writer_step w e)) \<le> wr_cap (writer_step w e) \<and> wr_cap (writer_step w e) = wr_cap w"
proof (cases e)
  case (Send i now)
  then show "length (wr_q w) \<le> wr_cap w \<Longrightarrow> ?thesis"
    by (auto simp: enqueue_send_def Let_def dest!: alertDue_frame split: prod.splits)
next
  case (Consume ok)
  then show "length (wr_q w) \<le> wr_cap w \<Longrightarrow> ?thesis" by (auto simp: consume_def split: list.splits)
qed (auto simp: enqueue_enter_def)

section \<open>Properties\<close>

text \<open>A log of one line, for the witnesses.\<close>

definition ex_line :: string where
  "ex_line = compact (JObj [(''key_id'', JStr ''k''), (''charged_tokens'', JNum ''7'')])"

lemma ex_line: "unmarshal_record (\<lambda>s. None) ex_line = Some (zero_record\<lparr>rc_KeyID := ''k'', rc_ChargedTokens := 7\<rparr>)"
  by code_simp

definition ex_charge :: "string \<Rightarrow> int \<Rightarrow> time \<Rightarrow> acc_record" where
  "ex_charge k n t = zero_record\<lparr>rc_KeyID := k, rc_ChargedTokens := n, rc_Time := t\<rparr>"



text \<open>
  C10: Admission is exact. For a history of charges in order of time, a request is admitted iff the
  tokens its key was charged in the current UTC hour plus the reservation stay within the hourly limit,
  and likewise for the day; a limit of zero or less is no limit. Saturation and the overflow-free form
  of the comparison never change the answer.
\<close>

theorem admit_exact:
  assumes hist: "history_ok now rs" and res: "0 \<le> reservation" "reservation \<le> MaxInt64"
    and lim: "wl_TokensPerHour limits < MaxInt64" "wl_TokensPerDay limits < MaxInt64"
  shows "snd (Admit (settle_all rs) k limits reservation now) = None \<longleftrightarrow>
    (wl_TokensPerHour limits \<le> 0 \<or>
       tokens_in hourKey (hourKey now) k rs + reservation \<le> wl_TokensPerHour limits) \<and>
    (wl_TokensPerDay limits \<le> 0 \<or>
       tokens_in dayKey (dayKey now) k rs + reservation \<le> wl_TokensPerDay limits)"
proof -
  obtain q' st where st: "stateFor (settle_all rs) k now = (q', st)" by fastforce
  note ev = history_events [OF hist, of k]
  have "(kq_hourKey st, kq_hour st) = (hourKey now, sat_sum (hour_window.in_period (hourKey now) (key_events k rs)))"
    using stateFor_roll [OF st] settle_all_parts(1) [of rs k] hour_window.charged_total [OF ev] by metis
  then have "kq_hour st = min MaxInt64 (tokens_in hourKey (hourKey now) k rs)"
    by (simp only: prod.inject sat_sum_def tokens_in_hour)
  moreover have "(kq_dayKey st, kq_day st) = (dayKey now, sat_sum (day_window.in_period (dayKey now) (key_events k rs)))"
    using stateFor_roll [OF st] settle_all_parts(2) [of rs k] day_window.charged_total [OF ev] by metis
  then have "kq_day st = min MaxInt64 (tokens_in dayKey (dayKey now) k rs)"
    by (simp only: prod.inject sat_sum_def tokens_in_day)
  moreover have "0 \<le> tokens_in per p k rs" for per p by (auto simp: tokens_in_def intro!: sum_list_nonneg)
  ultimately show ?thesis
    unfolding Admit_None [OF st] using over_limit [OF _ lim(1) _ res(1)] over_limit [OF _ lim(2) _ res(1)]
    by (metis not_le)
qed

theorem admit_exact_witness:
  "snd (Admit (settle_all [ex_charge ''k'' 7 0, ex_charge ''j'' 9 1]) ''k'' \<lparr>wl_TokensPerHour = 10, wl_TokensPerDay = 0\<rparr> 3 5) = None"
  using admit_exact [where now = 5 and rs = "[ex_charge ''k'' 7 0, ex_charge ''j'' 9 1]" and reservation = 3 and k = "''k''"
      and limits = "\<lparr>wl_TokensPerHour = 10, wl_TokensPerDay = 0\<rparr>"]
  by (simp add: history_ok_def charged_def ex_charge_def zero_record_def tokens_in_def hourKey_def time_unix_def)

text \<open>
  Whatever bytes a backend sends as its response, the usage read from them is bounded: no count is
  negative, none exceeds \<open>2 ^ 40\<close> (the total \<open>2 ^ 41\<close>), so a report cannot wrap a quota counter or shrink it.
\<close>

theorem ParseUsage_bounded: "usage_ok (ParseUsage body)"
  by (auto simp: ParseUsage_def fromUsageJSON_ok Let_def split: prod.splits option.splits)

text \<open>
  C36: The accounting writer loses no record silently while it runs. For every interleaving of request
  threads, consumer and \<^verbatim>\<open>Close\<close>, the records submitted are exactly those written, those counted as
  dropped, those queued and those whose thread has not reached the queue yet; and the queue never holds
  more than its capacity.
\<close>

theorem writer_conserves:
  fixes es :: "writer_event list"
  assumes "NewWriter queueSize overflow openOK = Inr w0"
  defines "w \<equiv> foldl writer_step w0 es"
  shows "int (submitted es) =
      int (length (wr_written w)) + wr_dropped w + int (length (wr_q w)) + int (length (wr_entered w)) \<and>
    length (wr_q w) \<le> wr_cap w \<and> (0 < queueSize \<longrightarrow> wr_cap w = nat queueSize)"
proof -
  have acc: "accounted (foldl writer_step v es) = accounted v + int (submitted es)" for v
  proof (induction es arbitrary: v)
    case (Cons e es)
    then show ?case by (cases e) (simp_all add: writer_step_accounted del: writer_step.simps)
  qed simp
  have cap: "length (wr_q v) \<le> wr_cap v \<Longrightarrow>
      length (wr_q (foldl writer_step v es)) \<le> wr_cap (foldl writer_step v es) \<and> wr_cap (foldl writer_step v es) = wr_cap v" for v
  proof (induction es arbitrary: v)
    case (Cons e es)
    from Cons.IH [of "writer_step v e"] writer_step_cap [OF Cons.prems, of e] show ?case by (simp del: writer_step.simps)
  qed simp
  have w0: "accounted w0 = 0" "wr_q w0 = []" "0 < queueSize \<longrightarrow> wr_cap w0 = nat queueSize"
    using assms(1) by (auto simp: NewWriter_def accounted_def Let_def split: if_splits)
  show ?thesis using acc [of w0] cap [of w0] w0 by (simp add: w_def accounted_def)
qed

definition ex_writer :: "nat \<Rightarrow> writer" where
  "ex_writer cap = \<lparr>wr_cap = cap, wr_q = [], wr_entered = [], wr_written = [], wr_dropped = 0, wr_closed = False,
     wr_phase = Running, wr_lastAlert = 0, wr_alerts = []\<rparr>"

lemma NewWriter_fresh: "NewWriter queueSize overflow openOK = Inr w0 \<Longrightarrow> \<exists>cap. 0 < cap \<and> w0 = ex_writer cap"
  by (auto simp: NewWriter_def ex_writer_def Let_def split: if_splits)

theorem writer_conserves_witness:
  "let w = foldl writer_step (ex_writer 1) [Enter zero_record, Enter zero_record, Send 0 0, Send 0 0, Consume True]
   in int (length (wr_written w)) + wr_dropped w + int (length (wr_q w)) + int (length (wr_entered w)) = 2 \<and>
      length (wr_q w) \<le> 1"
  using writer_conserves [of 1 "[]" True "ex_writer 1" "[Enter zero_record, Enter zero_record, Send 0 0, Send 0 0, Consume True]"]
  by (simp add: NewWriter_def ex_writer_def Let_def del: writer_step.simps)

text \<open>
  C37: After \<^verbatim>\<open>Close\<close> a record can still be lost without being counted: a request thread that read the
  closed flag before \<^verbatim>\<open>Close\<close> and reaches the queue after its last drain puts its record into a
  channel nobody reads. The record is neither written nor dropped, contrary to the comments on
  \<^verbatim>\<open>Enqueue\<close> and \<^verbatim>\<open>Close\<close>.
\<close>

theorem writer_close_race:
  fixes r :: acc_record and now :: int
  assumes "NewWriter queueSize overflow openOK = Inr w0"
  defines "w \<equiv> foldl writer_step w0 [Enter r, CloseBegin, SeeStop, Finish, FinalDrain, Send 0 now]"
  shows "wr_phase w = Returned \<and> wr_q w = [r] \<and> wr_written w = [] \<and> wr_dropped w = 0"
proof -
  obtain cap where "0 < cap" "w0 = ex_writer cap" using NewWriter_fresh [OF assms(1)] by blast
  then show ?thesis by (simp add: w_def ex_writer_def enqueue_enter_def enqueue_send_def Let_def)
qed

theorem writer_close_race_witness:
  "wr_q (foldl writer_step (ex_writer 4) [Enter zero_record, CloseBegin, SeeStop, Finish, FinalDrain, Send 0 7]) = [zero_record]"
  using writer_close_race [of 4 "[]" True "ex_writer 4" zero_record 7] by (simp add: NewWriter_def ex_writer_def del: writer_step.simps)

text \<open>
  The usage report is complete and exact: one entry per key that occurs in a well-formed line, no key
  twice, and each entry holds the number of that key's records and the saturating sums of their clamped
  token counts.
\<close>

theorem report_exact:
  assumes "rs = List.map_filter (unmarshal_record parse_time) (scan_lines maxAccountingLine content)"
    and "int (length rs) \<le> MaxInt64"
  shows "\<exists>ks. ReportFile parse_time (Contents content False) = Inr (map (\<lambda>k. summary k rs) ks) \<and>
    distinct ks \<and> set ks = rc_KeyID ` set rs - {[]}"
proof -
  have "foldl (\<lambda>kus line. case unmarshal_record parse_time line of None \<Rightarrow> kus | Some r \<Rightarrow> report_record kus r) acc ls =
      foldl report_record acc (List.map_filter (unmarshal_record parse_time) ls)" for acc ls
    by (induction ls arbitrary: acc) (auto simp: map_filter_simps split: option.splits)
  then show ?thesis using report_all [OF assms(2)] by (simp add: ReportFile_def scanBounded_def assms(1))
qed

theorem report_exact_witness:
  "\<exists>ks. ReportFile (\<lambda>s. None) (Contents (ex_line @ [CHR 0x0A]) False) = Inr (map (\<lambda>k. summary k [ex_charge ''k'' 7 0]) ks) \<and>
     distinct ks \<and> set ks = {''k''}"
proof -
  have nl: "CHR 0x0A \<notin> set ex_line" "length ex_line < maxAccountingLine"
    by code_simp (simp add: ex_line_def maxAccountingLine_def)
  have "scan_lines maxAccountingLine (ex_line @ [CHR 0x0A]) = [ex_line]"
    using scan_lines_exact [of "[ex_line]" maxAccountingLine] nl by simp
  then have "[ex_charge ''k'' 7 0] = List.map_filter (unmarshal_record (\<lambda>s. None)) (scan_lines maxAccountingLine (ex_line @ [CHR 0x0A]))"
    by (simp add: ex_line map_filter_simps ex_charge_def zero_record_def)
  from report_exact [OF this] show ?thesis by (simp add: ex_charge_def zero_record_def)
qed

end
