(* ===== verification/Affinity.thy ===== *)
theory Affinity
  imports Prelude
begin

text \<open>
  The bounded table that binds a response to the key that created it (\<^verbatim>\<open>src/internal/proxy/affinity.go\<close>).
  The clock is an argument of every operation, and so is the order in which Go ranges over the map,
  a list of the keys of the table without repetition. The mutex makes every operation one step.
\<close>

section \<open>Definitions\<close>

record aff_key =
  ak_KeyID :: string
  ak_RespID :: string

record aff_val =
  av_Backend :: string
  av_Model :: string
  av_Expiry :: time

record affinity =
  af_ttl :: duration
  af_max :: int
  af_table :: "aff_key \<rightharpoonup> aff_val"

definition newAffinity :: "duration \<Rightarrow> int \<Rightarrow> affinity" where
  "newAffinity ttl mx = \<lparr>af_ttl = ttl, af_max = (if mx \<le> 0 then 1 else mx), af_table = Map.empty\<rparr>"

definition affProbeBudget :: nat where "affProbeBudget = 64"

definition tsize :: "(aff_key \<rightharpoonup> aff_val) \<Rightarrow> int" where
  "tsize t = int (card (dom t))"

text \<open>
  The loop of \<^verbatim>\<open>evictLocked\<close>: expired entries are deleted as they are met; of the others the one that
  expires first is remembered, and after the probe budget the loop stops if the table is still full.
\<close>

fun probe_loop ::
  "time \<Rightarrow> int \<Rightarrow> aff_key list \<Rightarrow> (aff_key \<rightharpoonup> aff_val) \<Rightarrow> (aff_key \<times> time) option \<Rightarrow> nat \<Rightarrow>
   (aff_key \<rightharpoonup> aff_val) \<times> (aff_key \<times> time) option" where
  "probe_loop now mx [] t oldest probed = (t, oldest)"
| "probe_loop now mx (k # ks) t oldest probed =
     (case t k of
        None \<Rightarrow> probe_loop now mx ks t oldest probed
      | Some v \<Rightarrow>
          if av_Expiry v < now then probe_loop now mx ks (t(k := None)) oldest probed
          else
            (let oldest' = (case oldest of
                              None \<Rightarrow> Some (k, av_Expiry v)
                            | Some (o', e) \<Rightarrow> if av_Expiry v < e then Some (k, av_Expiry v) else Some (o', e))
             in if affProbeBudget \<le> Suc probed \<and> mx \<le> tsize t then (t, oldest')
                else probe_loop now mx ks t oldest' (Suc probed)))"

definition evictLocked :: "aff_key list \<Rightarrow> affinity \<Rightarrow> time \<Rightarrow> affinity" where
  "evictLocked order a now =
     (if tsize (af_table a) < af_max a then a
      else
        (let (t, oldest) = probe_loop now (af_max a) order (af_table a) None 0 in
         case oldest of
           None \<Rightarrow> a\<lparr>af_table := t\<rparr>
         | Some (k, _) \<Rightarrow> if af_max a \<le> tsize t then a\<lparr>af_table := t(k := None)\<rparr> else a\<lparr>af_table := t\<rparr>))"

definition Put :: "aff_key list \<Rightarrow> affinity \<Rightarrow> time \<Rightarrow> string \<Rightarrow> string \<Rightarrow> string \<Rightarrow> string \<Rightarrow> affinity" where
  "Put order a now keyID respID backend publicModel =
     (let a1 = evictLocked order a now in
      a1\<lparr>af_table := (af_table a1)(\<lparr>ak_KeyID = keyID, ak_RespID = respID\<rparr> \<mapsto>
           \<lparr>av_Backend = backend, av_Model = publicModel, av_Expiry = now + af_ttl a1\<rparr>)\<rparr>)"

definition Get :: "affinity \<Rightarrow> time \<Rightarrow> string \<Rightarrow> string \<Rightarrow> affinity \<times> (string \<times> string) option" where
  "Get a now keyID respID =
     (let k = \<lparr>ak_KeyID = keyID, ak_RespID = respID\<rparr> in
      case af_table a k of
        None \<Rightarrow> (a, None)
      | Some v \<Rightarrow>
          if av_Expiry v < now then (a\<lparr>af_table := (af_table a)(k := None)\<rparr>, None)
          else (a, Some (av_Backend v, av_Model v)))"

text \<open>The history of a table: what was put and looked up, and when.\<close>

datatype aff_event = EvPut time string string string string | EvGet time string string

inductive aff_reach :: "affinity \<Rightarrow> aff_event list \<Rightarrow> affinity \<Rightarrow> bool" for a0 where
  start: "aff_reach a0 [] a0"
| put: "aff_reach a0 es a \<Longrightarrow> set order = dom (af_table a) \<Longrightarrow> distinct order \<Longrightarrow>
     aff_reach a0 (es @ [EvPut now keyID respID b m]) (Put order a now keyID respID b m)"
| get: "aff_reach a0 es a \<Longrightarrow> aff_reach a0 (es @ [EvGet now keyID respID]) (fst (Get a now keyID respID))"

text \<open>The last value put for a key and response, with its time.\<close>

fun last_put :: "string \<Rightarrow> string \<Rightarrow> aff_event list \<Rightarrow> (time \<times> string \<times> string) option" where
  "last_put k r [] = None"
| "last_put k r (EvPut now k' r' b m # es) =
     (case last_put k r es of Some x \<Rightarrow> Some x | None \<Rightarrow> if k' = k \<and> r' = r then Some (now, b, m) else None)"
| "last_put k r (EvGet _ _ _ # es) = last_put k r es"

section \<open>Lemmas\<close>

lemma probe_loop_inv:
  assumes "probe_loop now mx ks t oldest probed = (t', oldest')" "finite (dom t)"
    and "\<forall>k e. oldest = Some (k, e) \<longrightarrow> (\<exists>v. t k = Some v \<and> av_Expiry v = e \<and> k \<notin> set ks)" "distinct ks"
  shows "t' \<subseteq>\<^sub>m t \<and> (\<forall>k v. t k = Some v \<and> t' k = None \<longrightarrow> av_Expiry v < now) \<and>
    (\<forall>k e. oldest' = Some (k, e) \<longrightarrow> (\<exists>v. t' k = Some v \<and> av_Expiry v = e)) \<and>
    (oldest' = None \<longrightarrow> (\<forall>k \<in> set ks. t' k = None))"
  using assms
proof (induction now mx ks t oldest probed arbitrary: t' oldest' rule: probe_loop.induct)
  case (2 now mx k ks t oldest probed)
  show ?case
  proof (cases "t k")
    case None
    have "\<forall>k e. oldest = Some (k, e) \<longrightarrow> (\<exists>v. t k = Some v \<and> av_Expiry v = e \<and> k \<notin> set ks)" using "2.prems"(3) by fastforce
    from "2.IH"(1) [OF None _ "2.prems"(2) this] "2.prems" None show ?thesis
      by (auto simp: map_le_def dom_def)
  next
    case (Some v)
    show ?thesis
    proof (cases "av_Expiry v < now")
      case True
      have pre: "\<forall>j e. oldest = Some (j, e) \<longrightarrow> (\<exists>v. (t(k := None)) j = Some v \<and> av_Expiry v = e \<and> j \<notin> set ks)"
        using "2.prems"(3) by fastforce
      have run: "probe_loop now mx ks (t(k := None)) oldest probed = (t', oldest')" using "2.prems"(1) Some True by simp
      have fin: "finite (dom (t(k := None)))" using "2.prems"(2) by simp
      have IH: "t' \<subseteq>\<^sub>m t(k := None) \<and> (\<forall>j w. (t(k := None)) j = Some w \<and> t' j = None \<longrightarrow> av_Expiry w < now) \<and>
          (\<forall>j e. oldest' = Some (j, e) \<longrightarrow> (\<exists>v. t' j = Some v \<and> av_Expiry v = e)) \<and> (oldest' = None \<longrightarrow> (\<forall>j \<in> set ks. t' j = None))"
        by (rule "2.IH"(2) [OF Some True run fin pre]) (use "2.prems"(4) in simp)
      have "t' k = None" using IH by (metis map_le_def domI fun_upd_same option.exhaust option.distinct(1))
      moreover have "t' \<subseteq>\<^sub>m t" using IH by (metis map_le_trans map_le_imp_upd_le map_le_def domI domIff fun_upd_apply)
      moreover have "av_Expiry w < now" if "t j = Some w" "t' j = None" for j w
      proof (cases "j = k")
        case True
        with that Some \<open>av_Expiry v < now\<close> show ?thesis by simp
      next
        case False
        with that(1) have "(t(k := None)) j = Some w" by simp
        with IH that(2) show ?thesis by blast
      qed
      ultimately show ?thesis using IH by auto
    next
      case False
      define o1 where "o1 = (case oldest of None \<Rightarrow> Some (k, av_Expiry v)
          | Some (o', e) \<Rightarrow> if av_Expiry v < e then Some (k, av_Expiry v) else Some (o', e))"
      have pre: "\<forall>j e. o1 = Some (j, e) \<longrightarrow> (\<exists>v. t j = Some v \<and> av_Expiry v = e \<and> j \<notin> set ks)"
        using "2.prems"(3,4) Some by (fastforce simp: o1_def split: option.splits if_splits)
      have ne: "o1 \<noteq> None" by (auto simp: o1_def split: option.splits)
      show ?thesis
      proof (cases "affProbeBudget \<le> Suc probed \<and> mx \<le> tsize t")
        case True
        then have "t' = t" "oldest' = o1" using "2.prems"(1) Some False by (auto simp: Let_def o1_def)
        with pre ne show ?thesis by auto
      next
        case go: False
        have run: "probe_loop now mx ks t o1 (Suc probed) = (t', oldest')"
          using "2.prems"(1) Some False go by (simp add: Let_def o1_def)
        have "oldest' \<noteq> None"
        proof -
          have "oldest \<noteq> None \<Longrightarrow> snd (probe_loop now mx ks t oldest probed) \<noteq> None" for ks t oldest probed
            by (induction now mx ks t oldest probed rule: probe_loop.induct)
              (auto simp: Let_def split: option.splits)
          from this [of o1 ks t "Suc probed"] ne run show ?thesis by simp
        qed
        with "2.IH"(3) [OF Some False, of o1] run pre "2.prems"(2,4) go show ?thesis by (simp add: o1_def) blast
      qed
    qed
  qed
qed auto

lemma map_le_finite: "t' \<subseteq>\<^sub>m t \<Longrightarrow> finite (dom t) \<Longrightarrow> finite (dom t') \<and> card (dom t') \<le> card (dom t)"
  by (meson card_mono finite_subset map_le_implies_dom_le)

definition aff_ok :: "affinity \<Rightarrow> bool" where
  "aff_ok a \<longleftrightarrow> 1 \<le> af_max a \<and> finite (dom (af_table a)) \<and> tsize (af_table a) \<le> af_max a"

text \<open>An eviction only removes entries, and leaves room for one more.\<close>

lemma evictLocked_spec:
  assumes "aff_ok a" "set order = dom (af_table a)" "distinct order"
  shows "af_table (evictLocked order a now) \<subseteq>\<^sub>m af_table a \<and> tsize (af_table (evictLocked order a now)) < af_max a \<and>
    af_max (evictLocked order a now) = af_max a \<and> af_ttl (evictLocked order a now) = af_ttl a"
proof (cases "tsize (af_table a) < af_max a")
  case True
  then show ?thesis by (simp add: evictLocked_def)
next
  case full: False
  obtain t oldest where run: "probe_loop now (af_max a) order (af_table a) None 0 = (t, oldest)" by fastforce
  have fin: "finite (dom (af_table a))" using assms(1) by (simp add: aff_ok_def)
  have P: "t \<subseteq>\<^sub>m af_table a" "\<forall>k e. oldest = Some (k, e) \<longrightarrow> (\<exists>v. t k = Some v \<and> av_Expiry v = e)"
      "oldest = None \<longrightarrow> (\<forall>k \<in> dom (af_table a). t k = None)"
    using probe_loop_inv [OF run fin _ assms(3)] assms(2) by auto
  have sz: "finite (dom t)" "tsize t \<le> af_max a"
    using map_le_finite [OF P(1) fin] assms(1) by (auto simp: aff_ok_def tsize_def)
  show ?thesis
  proof (cases oldest)
    case None
    then have "t = Map.empty" using P(1,3) by (metis domIff map_le_def option.collapse ext)
    then show ?thesis using full run None assms(1) by (simp add: evictLocked_def tsize_def aff_ok_def)
  next
    case (Some ke)
    obtain k e where ke: "ke = (k, e)" by fastforce
    then obtain v where "t k = Some v" using P(2) Some by blast
    then have "tsize (t(k := None)) < tsize t"
      using card_dom_delete [OF sz(1)] by (force simp: tsize_def)
    moreover have "t(k := None) \<subseteq>\<^sub>m af_table a" using P(1) by (auto simp: map_le_def)
    ultimately show ?thesis using full run Some ke P(1) sz(2) by (auto simp: evictLocked_def)
  qed
qed

lemma Put_ok:
  assumes "aff_ok a" "set order = dom (af_table a)" "distinct order"
  shows "aff_ok (Put order a now keyID respID b m)"
proof -
  note E = evictLocked_spec [OF assms, of now]
  have fin: "finite (dom (af_table (evictLocked order a now)))"
    using map_le_finite [of "af_table (evictLocked order a now)"] E assms(1) by (auto simp: aff_ok_def)
  show ?thesis
    using card_dom_upd_le [OF fin] E fin assms(1)
    by (fastforce simp: Put_def aff_ok_def Let_def tsize_def card_insert_if)
qed

lemma Get_table: "af_table (fst (Get a now k r)) \<subseteq>\<^sub>m af_table a" "af_max (fst (Get a now k r)) = af_max a"
    "af_ttl (fst (Get a now k r)) = af_ttl a"
  by (auto simp: Get_def Let_def map_le_def split: option.splits)

lemma Get_ok: "aff_ok a \<Longrightarrow> aff_ok (fst (Get a now k r))"
  using map_le_finite [OF Get_table(1) [of a now k r]] by (auto simp: aff_ok_def Get_table tsize_def)

lemma newAffinity_ok: "aff_ok (newAffinity ttl mx)"
  by (simp add: newAffinity_def aff_ok_def tsize_def)

lemma reach_ok:
  "aff_reach a0 es a \<Longrightarrow> aff_ok a0 \<Longrightarrow> aff_ok a \<and> af_max a = af_max a0 \<and> af_ttl a = af_ttl a0"
proof (induction rule: aff_reach.induct)
  case (put es a order now keyID respID b m)
  then have "af_max (Put order a now keyID respID b m) = af_max a0" "af_ttl (Put order a now keyID respID b m) = af_ttl a0"
    using evictLocked_spec [of a order now] by (simp_all add: Put_def Let_def)
  with put show ?case using Put_ok [of a order] by simp
qed (simp_all add: Get_ok Get_table)

lemma last_put_append:
  "last_put k r (es @ [EvPut now k' r' b m]) = (if k' = k \<and> r' = r then Some (now, b, m) else last_put k r es)"
  "last_put k r (es @ [EvGet now k' r']) = last_put k r es"
  by (induction k r es rule: last_put.induct) (auto split: option.splits)

text \<open>
  The abstract table never forgets: it maps a key and response to the last value put for them. The bounded
  table is at every moment a part of it.
\<close>

definition abs_table :: "duration \<Rightarrow> aff_event list \<Rightarrow> aff_key \<rightharpoonup> aff_val" where
  "abs_table ttl es k =
     map_option (\<lambda>(t, b, m). \<lparr>av_Backend = b, av_Model = m, av_Expiry = t + ttl\<rparr>) (last_put (ak_KeyID k) (ak_RespID k) es)"

lemma abs_table_put:
  "abs_table ttl (es @ [EvPut now k r b m]) =
     (abs_table ttl es)(\<lparr>ak_KeyID = k, ak_RespID = r\<rparr> \<mapsto> \<lparr>av_Backend = b, av_Model = m, av_Expiry = now + ttl\<rparr>)"
proof
  fix x :: aff_key
  show "abs_table ttl (es @ [EvPut now k r b m]) x =
     ((abs_table ttl es)(\<lparr>ak_KeyID = k, ak_RespID = r\<rparr> \<mapsto> \<lparr>av_Backend = b, av_Model = m, av_Expiry = now + ttl\<rparr>)) x"
    by (cases x) (auto simp: abs_table_def last_put_append)
qed

lemma table_refines:
  "aff_reach a0 es a \<Longrightarrow> aff_ok a0 \<Longrightarrow> af_table a0 = Map.empty \<Longrightarrow> af_table a \<subseteq>\<^sub>m abs_table (af_ttl a0) es"
proof (induction rule: aff_reach.induct)
  case (put es a order now keyID respID b m)
  have ok: "aff_ok a" "af_ttl a = af_ttl a0" using reach_ok [OF put.hyps(1) put.prems(1)] by auto
  note E = evictLocked_spec [OF ok(1) put.hyps(2,3), of now]
  have "af_table (evictLocked order a now) \<subseteq>\<^sub>m abs_table (af_ttl a0) es"
    using E put.IH put.prems map_le_trans by blast
  moreover have "af_table (Put order a now keyID respID b m) = (af_table (evictLocked order a now))
      (\<lparr>ak_KeyID = keyID, ak_RespID = respID\<rparr> \<mapsto> \<lparr>av_Backend = b, av_Model = m, av_Expiry = now + af_ttl a0\<rparr>)"
    using E ok by (simp add: Put_def Let_def)
  ultimately show ?case by (simp only: abs_table_put map_le_upd)
next
  case (get es a now keyID respID)
  then have "af_table (fst (Get a now keyID respID)) \<subseteq>\<^sub>m abs_table (af_ttl a0) es"
    using Get_table(1) map_le_trans by blast
  then show ?case by (simp add: abs_table_def [abs_def] last_put_append)
qed (simp add: map_le_def)

section \<open>Properties\<close>

text \<open>
  C14: The affinity table refines an unbounded map bound to the creating key. Whatever sequence of lookups
  and inserts happened, in whatever order the map was ranged over, a lookup by key \<open>k\<close> of response \<open>r\<close>
  answers only with the backend and model of the last insert made for that same key and response, and
  only until its time to live has passed; so no key ever learns of a response created by another key.
\<close>

theorem affinity_refines:
  assumes "aff_reach (newAffinity ttl mx) es a" "snd (Get a now k r) = Some (b, m)"
  shows "\<exists>t. last_put k r es = Some (t, b, m) \<and> now \<le> t + ttl"
proof -
  have "af_table a \<subseteq>\<^sub>m abs_table ttl es"
    using table_refines [OF assms(1) newAffinity_ok] by (simp add: newAffinity_def)
  moreover obtain v where "af_table a \<lparr>ak_KeyID = k, ak_RespID = r\<rparr> = Some v" "\<not> av_Expiry v < now"
      "b = av_Backend v" "m = av_Model v"
    using assms(2) by (auto simp: Get_def Let_def split: option.splits if_splits)
  ultimately show ?thesis by (force simp: map_le_def abs_table_def dom_def)
qed

text \<open>
  The affinity table never holds more entries than configured (at least one), and an insert is always
  found by the next lookup of the same key within its time to live, whatever it had to evict.
\<close>

theorem affinity_bounded:
  assumes "aff_reach (newAffinity ttl mx) es a"
  shows "int (card (dom (af_table a))) \<le> max 1 mx \<and>
    (set order = dom (af_table a) \<and> distinct order \<and> t \<le> now + ttl \<longrightarrow>
      snd (Get (Put order a now k r b m) t k r) = Some (b, m))"
proof -
  have ok: "aff_ok a" "af_max a = (if mx \<le> 0 then 1 else mx)" "af_ttl a = ttl"
    using reach_ok [OF assms newAffinity_ok] by (simp_all add: newAffinity_def)
  have "snd (Get (Put order a now k r b m) t k r) = Some (b, m)"
    if "set order = dom (af_table a)" "distinct order" "t \<le> now + ttl"
    using evictLocked_spec [OF ok(1) that(1,2), of now] that(3) ok(3) by (simp add: Put_def Get_def Let_def)
  then show ?thesis using ok by (auto simp: aff_ok_def tsize_def max_def)
qed

definition ex_affinity :: affinity where
  "ex_affinity = Put [] (newAffinity 10 1) 0 ''key-a'' ''resp_1'' ''b1'' ''m''"

lemma ex_affinity: "aff_reach (newAffinity 10 1) [EvPut 0 ''key-a'' ''resp_1'' ''b1'' ''m''] ex_affinity"
  using aff_reach.put [OF aff_reach.start, of "[]" "newAffinity 10 1"] by (simp add: ex_affinity_def newAffinity_def)

theorem affinity_refines_witness:
  "snd (Get ex_affinity 10 ''key-a'' ''resp_1'') = Some (''b1'', ''m'') \<and>
   (\<exists>t. last_put ''key-a'' ''resp_1'' [EvPut 0 ''key-a'' ''resp_1'' ''b1'' ''m''] = Some (t, ''b1'', ''m'') \<and> 10 \<le> t + 10)"
proof -
  have g: "snd (Get ex_affinity 10 ''key-a'' ''resp_1'') = Some (''b1'', ''m'')"
    by (simp add: ex_affinity_def Put_def Get_def newAffinity_def evictLocked_def tsize_def Let_def)
  show ?thesis using g affinity_refines [OF ex_affinity g] by blast
qed

theorem affinity_bounded_witness:
  "snd (Get (Put [\<lparr>ak_KeyID = ''key-a'', ak_RespID = ''resp_1''\<rparr>] ex_affinity 3 ''key-b'' ''resp_2'' ''b2'' ''m2'') 13 ''key-b'' ''resp_2'') = Some (''b2'', ''m2'')"
  using affinity_bounded [OF ex_affinity, of "[\<lparr>ak_KeyID = ''key-a'', ak_RespID = ''resp_1''\<rparr>]" 13 3]
  by (simp add: ex_affinity_def Put_def newAffinity_def evictLocked_def tsize_def Let_def)

end
