(* ===== verification/Budget.thy ===== *)
theory Budget
  imports Prelude
begin

text \<open>
  The process-wide byte budget (\<^verbatim>\<open>src/internal/proxy/budget.go\<close>). \<open>Acquire\<close> and \<open>Release\<close> are the
  operations as an undisturbed thread sees them; the second part takes the compare-and-swap loop apart
  into its atomic steps and runs any number of threads in any interleaving.
\<close>

section \<open>Definitions\<close>

definition budgetWeight :: int where "budgetWeight = 16"

record budget =
  bu_total :: int
  bu_used :: int

definition newBudget :: "int \<Rightarrow> budget" where
  "newBudget tot = \<lparr>bu_total = tot, bu_used = 0\<rparr>"

text \<open>The guard before the loop, and the test inside it on the value loaded.\<close>

definition too_big :: "budget \<Rightarrow> int \<Rightarrow> bool" where
  "too_big b bodyBytes \<longleftrightarrow> go_div (bu_total b) budgetWeight < bodyBytes"

definition over_total :: "budget \<Rightarrow> int \<Rightarrow> int \<Rightarrow> bool" where
  "over_total b cur bodyBytes \<longleftrightarrow> bu_total b < wrap64 (cur + wrap64 (bodyBytes * budgetWeight))"

definition Acquire :: "budget \<Rightarrow> int \<Rightarrow> budget \<times> bool" where
  "Acquire b bodyBytes =
     (if too_big b bodyBytes \<or> over_total b (bu_used b) bodyBytes then (b, False)
      else (b\<lparr>bu_used := wrap64 (bu_used b + wrap64 (bodyBytes * budgetWeight))\<rparr>, True))"

definition Release :: "budget \<Rightarrow> int \<Rightarrow> budget" where
  "Release b bodyBytes = b\<lparr>bu_used := wrap64 (bu_used b + wrap64 (- bodyBytes * budgetWeight))\<rparr>"

subsection \<open>Threads\<close>

text \<open>
  Where a request thread stands: about to load the counter, about to swap with the value it loaded,
  rejected, or holding a reservation of so many bytes.
\<close>

datatype bud_thread = Loading int | Swapping int int | Rejected | Holding int

record bud_sys =
  bs_budget :: budget
  bs_threads :: "bud_thread list"

datatype bud_event = Start int | Step nat | Give nat int

definition start_thread :: "budget \<Rightarrow> int \<Rightarrow> bud_thread" where
  "start_thread b n = (if too_big b n then Rejected else Loading n)"

fun thread_step :: "budget \<Rightarrow> bud_thread \<Rightarrow> budget \<times> bud_thread" where
  "thread_step b (Loading n) = (b, if over_total b (bu_used b) n then Rejected else Swapping n (bu_used b))"
| "thread_step b (Swapping n cur) =
     (if bu_used b = cur
      then (b\<lparr>bu_used := wrap64 (cur + wrap64 (n * budgetWeight))\<rparr>, Holding n)
      else (b, Loading n))"
| "thread_step b t = (b, t)"

text \<open>A holder gives back a part of its reservation (the surplus of a chunked body) or all of it.\<close>

fun give_back :: "budget \<Rightarrow> bud_thread \<Rightarrow> int \<Rightarrow> budget \<times> bud_thread" where
  "give_back b (Holding n) m = (if 0 \<le> m \<and> m \<le> n then (Release b m, Holding (n - m)) else (b, Holding n))"
| "give_back b t m = (b, t)"

fun bud_step :: "bud_sys \<Rightarrow> bud_event \<Rightarrow> bud_sys" where
  "bud_step s (Start n) = s\<lparr>bs_threads := bs_threads s @ [start_thread (bs_budget s) n]\<rparr>"
| "bud_step s (Step i) =
     (if i < length (bs_threads s)
      then (let (b, t) = thread_step (bs_budget s) (bs_threads s ! i)
            in \<lparr>bs_budget = b, bs_threads = (bs_threads s)[i := t]\<rparr>) else s)"
| "bud_step s (Give i m) =
     (if i < length (bs_threads s)
      then (let (b, t) = give_back (bs_budget s) (bs_threads s ! i) m
            in \<lparr>bs_budget = b, bs_threads = (bs_threads s)[i := t]\<rparr>) else s)"

definition bud_run :: "int \<Rightarrow> bud_event list \<Rightarrow> bud_sys" where
  "bud_run tot es = foldl bud_step \<lparr>bs_budget = newBudget tot, bs_threads = []\<rparr> es"

fun holding :: "bud_thread \<Rightarrow> int" where
  "holding (Holding n) = n"
| "holding _ = 0"

definition reserved :: "bud_sys \<Rightarrow> int" where
  "reserved s = sum_list (map holding (bs_threads s))"

section \<open>Lemmas\<close>

text \<open>
  The invariant: the counter is the weight of what is held and within the total; a thread past the
  guard asks for no more than the total, and a thread about to swap saw a value that leaves room.
\<close>

fun thread_ok :: "int \<Rightarrow> bud_thread \<Rightarrow> bool" where
  "thread_ok tot (Loading n) = (0 \<le> n \<and> n * 16 \<le> tot)"
| "thread_ok tot (Swapping n cur) = (0 \<le> n \<and> n * 16 \<le> tot \<and> 0 \<le> cur \<and> cur + n * 16 \<le> tot)"
| "thread_ok tot (Holding n) = (0 \<le> n)"
| "thread_ok tot Rejected = True"

definition bud_inv :: "int \<Rightarrow> bud_sys \<Rightarrow> bool" where
  "bud_inv tot s \<longleftrightarrow> bu_total (bs_budget s) = tot \<and> bu_used (bs_budget s) = reserved s * 16 \<and>
     0 \<le> reserved s \<and> reserved s * 16 \<le> tot \<and> (\<forall>t \<in> set (bs_threads s). thread_ok tot t)"

lemma go_div_guard: "0 \<le> tot \<Longrightarrow> \<not> go_div tot 16 < n \<Longrightarrow> n * 16 \<le> tot"
  by (cases "tot = 0") (auto simp: go_div_def)

lemma reserved_upd:
  "i < length ts \<Longrightarrow> sum_list (map holding (ts[i := t])) = sum_list (map holding ts) - holding (ts ! i) + holding t"
  by (induction ts arbitrary: i) (auto split: nat.splits)

lemma ok_upd: "\<forall>t \<in> set ts. thread_ok c t \<Longrightarrow> thread_ok c t' \<Longrightarrow> \<forall>t \<in> set (ts[i := t']). thread_ok c t"
  using set_update_subset_insert by fastforce

lemma held_le_reserved:
  "\<forall>t \<in> set ts. thread_ok c t \<Longrightarrow> i < length ts \<Longrightarrow> holding (ts ! i) \<le> sum_list (map holding ts) \<and> 0 \<le> sum_list (map holding ts)"
proof (induction ts arbitrary: i)
  case (Cons t ts)
  have "0 \<le> holding u" if "thread_ok c u" for u using that by (cases u) auto
  moreover from this have "0 \<le> sum_list (map holding ts)" using Cons.prems(1) by (intro sum_list_nonneg) auto
  ultimately show ?case using Cons by (cases i) (auto simp: add_increasing)
qed simp

text \<open>Replacing one thread keeps the invariant when the counter moves by what the thread holds.\<close>

lemma bud_inv_upd:
  assumes "bud_inv tot s" "i < length (bs_threads s)" "thread_ok tot t" "bu_total b = tot"
    and "bu_used b = (reserved s - holding (bs_threads s ! i) + holding t) * 16"
    and "0 \<le> reserved s - holding (bs_threads s ! i) + holding t"
    and "(reserved s - holding (bs_threads s ! i) + holding t) * 16 \<le> tot"
  shows "bud_inv tot \<lparr>bs_budget = b, bs_threads = (bs_threads s)[i := t]\<rparr>"
proof -
  have "reserved \<lparr>bs_budget = b, bs_threads = (bs_threads s)[i := t]\<rparr> = reserved s - holding (bs_threads s ! i) + holding t"
    using reserved_upd [OF assms(2)] by (simp add: reserved_def)
  moreover have "\<forall>t' \<in> set ((bs_threads s)[i := t]). thread_ok tot t'" 
    by (rule ok_upd) (use assms(1,3) in \<open>simp_all add: bud_inv_def\<close>)
  ultimately show ?thesis using assms(4-7) by (simp add: bud_inv_def)
qed

lemma bud_step_inv:
  assumes inv: "bud_inv tot s" and tot: "0 \<le> tot" "2 * tot \<le> MaxInt64"
    and ev: "\<forall>n. e = Start n \<longrightarrow> 0 \<le> n"
  shows "bud_inv tot (bud_step s e)"
proof (cases e)
  case (Start n)
  then have "thread_ok tot (start_thread (bs_budget s) n)"
    using go_div_guard [OF tot(1), of n] ev inv by (auto simp: start_thread_def too_big_def budgetWeight_def bud_inv_def)
  then show ?thesis using inv Start by (auto simp: bud_inv_def reserved_def start_thread_def)
next
  case (Step i)
  show ?thesis
  proof (cases "i < length (bs_threads s)")
    case i: True
    let ?t = "bs_threads s ! i" and ?b = "bs_budget s"
    have ok: "thread_ok tot ?t" using inv i by (simp add: bud_inv_def)
    show ?thesis
    proof (cases ?t)
      case (Loading n)
      have r: "0 \<le> reserved s" "reserved s * 16 \<le> tot" "bu_used ?b = reserved s * 16" "bu_total ?b = tot"
        using inv by (auto simp: bud_inv_def)
      have n: "0 \<le> n" "n * 16 \<le> tot" using ok Loading by simp_all
      have w: "wrap64 (n * 16) = n * 16" "wrap64 (reserved s * 16 + n * 16) = reserved s * 16 + n * 16"
        using n r tot by (simp_all add: int64_ok_def)
      define t where "t = (if tot < reserved s * 16 + n * 16 then Rejected else Swapping n (reserved s * 16))"
      have st: "thread_step ?b ?t = (?b, t)" unfolding Loading thread_step.simps over_total_def budgetWeight_def r w t_def ..
      have "thread_ok tot t" "holding t = 0" using n r(1) by (simp_all add: t_def)
      with bud_inv_upd [OF inv i, of t ?b] r Loading
      have "bud_inv tot \<lparr>bs_budget = ?b, bs_threads = (bs_threads s)[i := t]\<rparr>" by simp
      then show ?thesis using Step i st by simp
    next
      case (Swapping n cur)
      have "int64_ok (n * 16)" "int64_ok (cur + n * 16)" using ok Swapping tot by (auto simp: int64_ok_def)
      then have st: "thread_step ?b ?t = (if bu_used ?b = cur then (?b\<lparr>bu_used := cur + n * 16\<rparr>, Holding n) else (?b, Loading n))"
        by (simp add: Swapping budgetWeight_def)
      show ?thesis
      proof (cases "bu_used ?b = cur")
        case True
        have "bud_inv tot \<lparr>bs_budget = ?b\<lparr>bu_used := cur + n * 16\<rparr>, bs_threads = (bs_threads s)[i := Holding n]\<rparr>"
          by (rule bud_inv_upd [OF inv i]) (use True inv ok Swapping in \<open>simp_all add: bud_inv_def\<close>)
        then show ?thesis using Step i st True by simp
      next
        case False
        have "bud_inv tot \<lparr>bs_budget = ?b, bs_threads = (bs_threads s)[i := Loading n]\<rparr>"
          by (rule bud_inv_upd [OF inv i]) (use inv ok Swapping in \<open>simp_all add: bud_inv_def\<close>)
        then show ?thesis using Step i st False by simp
      qed
    next
      case Rejected
      then have "bud_step s e = s" using Step i list_update_id [of "bs_threads s" i] by simp
      then show ?thesis using inv by simp
    next
      case (Holding n)
      then have "bud_step s e = s" using Step i list_update_id [of "bs_threads s" i] by simp
      then show ?thesis using inv by simp
    qed
  qed (use Step inv in simp)
next
  case (Give i m)
  show ?thesis
  proof (cases "\<exists>n. i < length (bs_threads s) \<and> bs_threads s ! i = Holding n \<and> 0 \<le> m \<and> m \<le> n")
    case True
    then obtain n where n: "i < length (bs_threads s)" "bs_threads s ! i = Holding n" "0 \<le> m" "m \<le> n" by blast
    have le: "n \<le> reserved s" using held_le_reserved [OF _ n(1), of tot] inv n(2) by (simp add: bud_inv_def reserved_def)
    have r: "reserved s * 16 \<le> tot" "bu_used (bs_budget s) = reserved s * 16" using inv by (simp_all add: bud_inv_def)
    have "int64_ok (- m * 16)" "int64_ok (reserved s * 16 + - m * 16)" using n le r tot by (auto simp: int64_ok_def)
    then have "Release (bs_budget s) m = (bs_budget s)\<lparr>bu_used := (reserved s - m) * 16\<rparr>"
      using r by (simp add: Release_def budgetWeight_def)
    moreover have "bud_inv tot \<lparr>bs_budget = (bs_budget s)\<lparr>bu_used := (reserved s - m) * 16\<rparr>, bs_threads = (bs_threads s)[i := Holding (n - m)]\<rparr>"
      by (rule bud_inv_upd [OF inv n(1)]) (use inv n le in \<open>simp_all add: bud_inv_def\<close>)
    ultimately show ?thesis using Give n by simp
  next
    case False
    then have "bud_step s e = s"
      using Give list_update_id [of "bs_threads s" i] by (cases "bs_threads s ! i") auto
    then show ?thesis using inv by simp
  qed
qed

lemma bud_run_inv:
  assumes "0 \<le> tot" "2 * tot \<le> MaxInt64" "\<forall>n. Start n \<in> set es \<longrightarrow> 0 \<le> n"
  shows "bud_inv tot (bud_run tot es)"
  using assms(3)
proof (induction es rule: rev_induct)
  case Nil
  then show ?case using assms(1) by (simp add: bud_run_def bud_inv_def newBudget_def reserved_def)
next
  case (snoc e es)
  then show ?case using bud_step_inv [OF _ assms(1,2), of "bud_run tot es" e] by (simp add: bud_run_def)
qed

section \<open>Properties\<close>

text \<open>
  The byte budget is never over-subscribed. However many request threads race through the
  compare-and-swap loop and give back all or part of what they hold, the counter is always sixteen times
  the bytes held and never exceeds the total; in particular a swap that was prepared on a stale value
  never goes through with a wrong sum.
\<close>

theorem budget_never_oversubscribed:
  assumes "0 \<le> tot" "2 * tot \<le> MaxInt64" "\<forall>n. Start n \<in> set es \<longrightarrow> 0 \<le> n"
  shows "bu_used (bs_budget (bud_run tot es)) = budgetWeight * reserved (bud_run tot es) \<and>
    bu_used (bs_budget (bud_run tot es)) \<le> tot"
  using bud_run_inv [OF assms] by (simp add: bud_inv_def budgetWeight_def)

theorem budget_never_oversubscribed_witness:
  "bu_used (bs_budget (bud_run 100 [Start 4, Start 3, Step 0, Step 1, Step 1, Step 0, Step 0])) \<le> 100"
  using budget_never_oversubscribed [of 100 "[Start 4, Start 3, Step 0, Step 1, Step 1, Step 0, Step 0]"] by simp

text \<open>
  The loop of \<open>Acquire\<close> makes progress: a swap fails only when another thread has changed the counter
  since it was loaded, so a thread that takes two steps undisturbed from its load is decided, and its answer
  is that of the sequential operation.
\<close>

theorem acquire_progress:
  assumes "\<not> too_big b n"
  shows "(let (b1, t1) = thread_step b (Loading n); (b2, t2) = thread_step b1 t1 in
    (b2, t2) = (fst (Acquire b n), if snd (Acquire b n) then Holding n else Rejected))"
  using assms by (auto simp: Acquire_def)

theorem acquire_progress_witness:
  "(let (b1, t1) = thread_step (newBudget 100) (Loading 4); (b2, t2) = thread_step b1 t1 in
    (b2, t2) = (fst (Acquire (newBudget 100) 4), Holding 4))"
  using acquire_progress [of "newBudget 100" 4]
  by (simp add: too_big_def newBudget_def go_div_def budgetWeight_def Acquire_def over_total_def int64_ok_def del: thread_step.simps)

end
