(* ===== verification/Sse.thy ===== *)
theory Sse
  imports Prelude
begin

text \<open>
  The bounded parser of server-sent events (\<^verbatim>\<open>src/internal/proxy/sse.go\<close>). The reader under it is the
  list of bytes it still has to give and the error it reports after the last of them, \<open>EOF\<close> for a stream
  that closes cleanly. Sizes are compared as integers.
\<close>

section \<open>Definitions\<close>

abbreviation LF :: char where "LF \<equiv> CHR 0x0A"
abbreviation CR :: char where "CR \<equiv> CHR 0x0D"

definition maxSSELine :: int where "maxSSELine = 256 * 1024"
definition maxSSEEvent :: int where "maxSSEEvent = 1024 * 1024"

datatype sse_error = EOF | ErrSSELineTooLarge | ErrSSEEventTooLarge | ReadError string

record sseParser =
  sp_br :: bytes
  sp_end :: sse_error
  sp_line :: bytes
  sp_event :: bytes
  sp_have :: bool

definition newSSEParser :: "bytes \<Rightarrow> sse_error \<Rightarrow> sseParser" where
  "newSSEParser bs e = \<lparr>sp_br = bs, sp_end = e, sp_line = [], sp_event = [], sp_have = False\<rparr>"

definition sse_reset :: "sseParser \<Rightarrow> sseParser" where
  "sse_reset p = p\<lparr>sp_line := [], sp_event := [], sp_have := False\<rparr>"

text \<open>The byte-wise scan for one line: the line, the error returned with it, and the bytes left.\<close>

fun read_loop :: "bytes \<Rightarrow> bytes \<Rightarrow> sse_error \<Rightarrow> (bytes \<times> sse_error option) \<times> bytes" where
  "read_loop line [] e = (if e = EOF then (line, Some EOF) else ([], Some e), [])"
| "read_loop line (b # bs) e =
     (if b = LF then ((if line \<noteq> [] \<and> last line = CR then butlast line else line, None), bs)
      else if b = CR then ((line, None), if bs \<noteq> [] \<and> hd bs = LF then tl bs else bs)
      else if maxSSELine \<le> int (length line) then (([], Some ErrSSELineTooLarge), bs)
      else read_loop (line @ [b]) bs e)"

definition readLine :: "sseParser \<Rightarrow> (bytes \<times> sse_error option) \<times> sseParser" where
  "readLine p = (let (r, bs) = read_loop [] (sp_br p) (sp_end p) in (r, p\<lparr>sp_br := bs\<rparr>))"

lemma read_loop_consumes: "read_loop acc bs e = ((l, None), bs') \<Longrightarrow> length bs' < length bs"
  by (induction acc bs e rule: read_loop.induct) (fastforce split: if_splits)+

lemma read_loop_le: "read_loop acc bs e = (r, bs') \<Longrightarrow> length bs' \<le> length bs"
  by (induction acc bs e rule: read_loop.induct) (fastforce split: if_splits)+

lemma readLine_consumes: "readLine p = ((l, None), p') \<Longrightarrow> length (sp_br p') < length (sp_br p)"
  by (auto simp: readLine_def split: prod.splits dest: read_loop_consumes)

function nextEvent :: "sseParser \<Rightarrow> (sse_error + bytes) \<times> sseParser" where
  "nextEvent p =
     (case readLine p of
        ((line, Some err), p1) \<Rightarrow>
          if err = EOF then
            (if line \<noteq> [] \<and> maxSSEEvent < int (length (sp_event p1)) + int (length line) + 2
             then (Inl ErrSSEEventTooLarge, sse_reset p1)
             else let p2 = (if line \<noteq> [] then p1\<lparr>sp_line := line, sp_have := True, sp_event := sp_event p1 @ line\<rparr> else p1)
                  in if sp_event p2 \<noteq> [] then (Inr (sp_event p2), sse_reset p2) else (Inl EOF, p2))
          else (Inl err, sse_reset p1)
      | ((line, None), p1) \<Rightarrow>
          let p2 = p1\<lparr>sp_line := line\<rparr> in
          if line = [] then
            (if \<not> sp_have p2 then nextEvent p2
             else (Inr (sp_event p2 @ [LF]), sse_reset p2))
          else if maxSSEEvent < int (length (sp_event p2)) + int (length line) + 2
          then (Inl ErrSSEEventTooLarge, sse_reset p2)
          else nextEvent (p2\<lparr>sp_have := True, sp_event := sp_event p2 @ line @ [LF]\<rparr>))"
  by auto
termination
  by (relation "measure (\<lambda>p. length (sp_br p))") (auto dest: readLine_consumes [OF sym])

declare nextEvent.simps [simp del]

text \<open>\<^verbatim>\<open>TrimEventNewline\<close>, and the data of an event.\<close>

definition TrimEventNewline :: "bytes \<Rightarrow> bytes" where
  "TrimEventNewline ev = rev (dropWhile (\<lambda>c. c = LF) (rev ev))"

definition data_line :: "bytes \<Rightarrow> bytes option" where
  "data_line l = (if has_prefix l ''data:''
     then let v = drop 5 l in Some (if v \<noteq> [] \<and> hd v = CHR '' '' then tl v else v) else None)"

fun data_loop :: "bytes \<Rightarrow> bytes list \<Rightarrow> bytes" where
  "data_loop sb [] = sb"
| "data_loop sb (l # ls) =
     (case data_line l of None \<Rightarrow> data_loop sb ls
      | Some v \<Rightarrow> data_loop ((if sb \<noteq> [] then sb @ [LF] else sb) @ v) ls)"

definition dataField :: "bytes \<Rightarrow> bytes option" where
  "dataField ev = (let sb = data_loop [] (split_on LF (TrimEventNewline ev)) in if sb = [] then None else Some sb)"

section \<open>Lemmas\<close>

text \<open>A returned event uses up input: the reader's bytes and the buffered part together get shorter.\<close>

definition sse_size :: "sseParser \<Rightarrow> nat" where
  "sse_size p = length (sp_br p) + length (sp_event p)"

lemma read_loop_line: "read_loop acc bs e = ((l, None), bs') \<Longrightarrow> length l + 1 + length bs' \<le> length acc + length bs"
  by (induction acc bs e rule: read_loop.induct) (fastforce split: if_splits)+

lemma read_loop_eof: "read_loop acc bs e = ((l, Some EOF), bs') \<Longrightarrow> bs' = [] \<and> l = acc @ bs"
  by (induction acc bs e rule: read_loop.induct) (auto split: if_splits)

text \<open>One unfolding of the loop, for each outcome of the line it reads.\<close>

lemma nextEvent_line:
  assumes "read_loop [] (sp_br p) (sp_end p) = ((line, None), bs)"
  shows "line = [] \<Longrightarrow> \<not> sp_have p \<Longrightarrow> nextEvent p = nextEvent (p\<lparr>sp_br := bs, sp_line := []\<rparr>)"
    and "line = [] \<Longrightarrow> sp_have p \<Longrightarrow> nextEvent p = (Inr (sp_event p @ [LF]), sse_reset (p\<lparr>sp_br := bs\<rparr>))"
    and "line \<noteq> [] \<Longrightarrow> maxSSEEvent < int (length (sp_event p)) + int (length line) + 2 \<Longrightarrow>
      nextEvent p = (Inl ErrSSEEventTooLarge, sse_reset (p\<lparr>sp_br := bs\<rparr>))"
    and "line \<noteq> [] \<Longrightarrow> int (length (sp_event p)) + int (length line) + 2 \<le> maxSSEEvent \<Longrightarrow>
      nextEvent p = nextEvent (p\<lparr>sp_br := bs, sp_line := line, sp_have := True, sp_event := sp_event p @ line @ [LF]\<rparr>)"
  using assms by (simp_all add: nextEvent.simps [of p] readLine_def sse_reset_def Let_def)

lemma nextEvent_end:
  assumes "read_loop [] (sp_br p) (sp_end p) = ((line, Some err), bs)"
  shows "err \<noteq> EOF \<Longrightarrow> nextEvent p = (Inl err, sse_reset (p\<lparr>sp_br := bs\<rparr>))"
    and "err = EOF \<Longrightarrow> sp_event p @ line = [] \<Longrightarrow> nextEvent p = (Inl EOF, p\<lparr>sp_br := bs\<rparr>)"
    and "err = EOF \<Longrightarrow> line = [] \<Longrightarrow> sp_event p \<noteq> [] \<Longrightarrow> nextEvent p = (Inr (sp_event p), sse_reset (p\<lparr>sp_br := bs\<rparr>))"
    and "err = EOF \<Longrightarrow> line \<noteq> [] \<Longrightarrow> int (length (sp_event p)) + int (length line) + 2 \<le> maxSSEEvent \<Longrightarrow>
      nextEvent p = (Inr (sp_event p @ line), sse_reset (p\<lparr>sp_br := bs\<rparr>))"
    and "err = EOF \<Longrightarrow> line \<noteq> [] \<Longrightarrow> maxSSEEvent < int (length (sp_event p)) + int (length line) + 2 \<Longrightarrow>
      nextEvent p = (Inl ErrSSEEventTooLarge, sse_reset (p\<lparr>sp_br := bs\<rparr>))"
  using assms by (simp_all add: nextEvent.simps [of p] readLine_def sse_reset_def Let_def)

text \<open>
  The loop as an induction: what holds of the two ways to return an event, holds of every returned
  event if the two ways to go on carry it over.
\<close>

lemma nextEvent_Inr_induct [consumes 1, case_names skip blank grow flush last]:
  assumes "nextEvent p = (Inr ev, p')"
    and "\<And>p bs. read_loop [] (sp_br p) (sp_end p) = (([], None), bs) \<Longrightarrow> \<not> sp_have p \<Longrightarrow>
      P (p\<lparr>sp_br := bs, sp_line := []\<rparr>) ev p' \<Longrightarrow> P p ev p'"
    and "\<And>p bs. read_loop [] (sp_br p) (sp_end p) = (([], None), bs) \<Longrightarrow> sp_have p \<Longrightarrow>
      ev = sp_event p @ [LF] \<Longrightarrow> p' = sse_reset (p\<lparr>sp_br := bs\<rparr>) \<Longrightarrow> P p ev p'"
    and "\<And>p line bs. read_loop [] (sp_br p) (sp_end p) = ((line, None), bs) \<Longrightarrow> line \<noteq> [] \<Longrightarrow>
      int (length (sp_event p)) + int (length line) + 2 \<le> maxSSEEvent \<Longrightarrow>
      P (p\<lparr>sp_br := bs, sp_line := line, sp_have := True, sp_event := sp_event p @ line @ [LF]\<rparr>) ev p' \<Longrightarrow> P p ev p'"
    and "\<And>p bs. read_loop [] (sp_br p) (sp_end p) = (([], Some EOF), bs) \<Longrightarrow> sp_event p \<noteq> [] \<Longrightarrow>
      ev = sp_event p \<Longrightarrow> p' = sse_reset (p\<lparr>sp_br := bs\<rparr>) \<Longrightarrow> P p ev p'"
    and "\<And>p line bs. read_loop [] (sp_br p) (sp_end p) = ((line, Some EOF), bs) \<Longrightarrow> line \<noteq> [] \<Longrightarrow>
      int (length (sp_event p)) + int (length line) + 2 \<le> maxSSEEvent \<Longrightarrow>
      ev = sp_event p @ line \<Longrightarrow> p' = sse_reset (p\<lparr>sp_br := bs\<rparr>) \<Longrightarrow> P p ev p'"
  shows "P p ev p'"
  using assms(1)
proof (induction "length (sp_br p)" arbitrary: p rule: less_induct)
  case less
  obtain line er bs where rl: "read_loop [] (sp_br p) (sp_end p) = ((line, er), bs)" by (metis prod.collapse)
  show ?case
  proof (cases er)
    case None
    note rl = rl [unfolded None]
    have lt: "length bs < length (sp_br p)" using read_loop_consumes [OF rl] .
    consider "line = []" "\<not> sp_have p" | "line = []" "sp_have p"
      | "line \<noteq> []" "maxSSEEvent < int (length (sp_event p)) + int (length line) + 2"
      | "line \<noteq> []" "int (length (sp_event p)) + int (length line) + 2 \<le> maxSSEEvent" by linarith
    then show ?thesis
    proof cases
      case 1
      with rl lt less nextEvent_line(1) [OF rl] show ?thesis using assms(2) by simp
    next
      case 2
      with rl less(2) nextEvent_line(2) [OF rl] show ?thesis by (intro assms(3) [of p bs]) auto
    next
      case 3
      with rl less nextEvent_line(3) [OF rl] show ?thesis by simp
    next
      case 4
      with rl lt less nextEvent_line(4) [OF rl] show ?thesis using assms(4) by simp
    qed
  next
    case (Some err)
    note rl = rl [unfolded Some]
    show ?thesis
    proof (cases "err = EOF")
      case True
      note rl = rl [unfolded True]
      consider "sp_event p @ line = []" | "line = []" "sp_event p \<noteq> []"
        | "line \<noteq> []" "maxSSEEvent < int (length (sp_event p)) + int (length line) + 2"
        | "line \<noteq> []" "int (length (sp_event p)) + int (length line) + 2 \<le> maxSSEEvent"
        by fastforce
      then show ?thesis
      proof cases
        case 1
        with less(2) nextEvent_end(2) [OF rl] show ?thesis by simp
      next
        case 2
        with rl less(2) nextEvent_end(3) [OF rl] show ?thesis by (intro assms(5) [of p bs]) auto
      next
        case 3
        with less(2) nextEvent_end(5) [OF rl] show ?thesis by simp
      next
        case 4
        with rl less(2) nextEvent_end(4) [OF rl] show ?thesis by (intro assms(6) [of p line bs]) auto
      qed
    qed (use less(2) nextEvent_end(1) [OF rl] in simp)
  qed
qed

lemma nextEvent_decreases: "nextEvent p = (Inr ev, p') \<Longrightarrow> sse_size p' < sse_size p"
proof (induction p ev p' rule: nextEvent_Inr_induct)
  case (last p line bs)
  then show ?case using read_loop_eof [OF last(1)] by (simp add: sse_size_def sse_reset_def)
next
  case (flush p bs)
  then show ?case using read_loop_eof [OF flush(1)] by (simp add: sse_size_def sse_reset_def)
qed (auto simp: sse_size_def sse_reset_def dest!: read_loop_line)

lemma nextEvent_small: "nextEvent p = (Inr ev, p') \<Longrightarrow> int (length (sp_event p)) + (if sp_have p then 1 else 0) \<le> maxSSEEvent \<Longrightarrow>
    ev \<noteq> [] \<and> int (length ev) \<le> maxSSEEvent"
  by (induction p ev p' rule: nextEvent_Inr_induct) (auto split: if_splits)

text \<open>The events of a stream, one call after the other until an error, as the relay loop takes them.\<close>

function sse_events :: "sseParser \<Rightarrow> bytes list \<times> sse_error" where
  "sse_events p = (case nextEvent p of (Inl e, p') \<Rightarrow> ([], e)
     | (Inr ev, p') \<Rightarrow> (let (evs, e) = sse_events p' in (ev # evs, e)))"
  by auto
termination
  by (relation "measure sse_size") (auto dest: nextEvent_decreases [OF sym])

declare sse_events.simps [simp del]

text \<open>A parser between two events holds nothing.\<close>

lemma nextEvent_fresh:
  "nextEvent p = (Inr ev, p') \<Longrightarrow> p' = newSSEParser (sp_br p') (sp_end p)"
  by (induction p ev p' rule: nextEvent_Inr_induct) (simp_all add: sse_reset_def newSSEParser_def)

lemma sse_events_small:
  "p = newSSEParser bs e \<Longrightarrow> \<forall>ev \<in> set (fst (sse_events p)). ev \<noteq> [] \<and> int (length ev) \<le> maxSSEEvent"
proof (induction p arbitrary: bs rule: sse_events.induct)
  case (1 p)
  obtain r p' where n: "nextEvent p = (r, p')" by fastforce
  show ?case
  proof (cases r)
    case (Inr ev)
    note n = n [unfolded Inr]
    have "ev \<noteq> [] \<and> int (length ev) \<le> maxSSEEvent" using nextEvent_small [OF n] 1(2) by (simp add: newSSEParser_def maxSSEEvent_def)
    moreover have "\<forall>ev \<in> set (fst (sse_events p')). ev \<noteq> [] \<and> int (length ev) \<le> maxSSEEvent"
      using 1(1) [OF n [symmetric], OF refl, of "sp_br p'"] nextEvent_fresh [OF n] 1(2) by (simp add: newSSEParser_def)
    ultimately show ?thesis by (auto simp: sse_events.simps [of p] n split: prod.splits)
  qed (simp add: sse_events.simps [of p] n)
qed

subsection \<open>Well-formed streams\<close>

definition plain_line :: "bytes \<Rightarrow> bool" where
  "plain_line l \<longleftrightarrow> LF \<notin> set l \<and> CR \<notin> set l \<and> int (length l) \<le> maxSSELine"

definition lines_with :: "bytes \<Rightarrow> bytes list \<Rightarrow> bytes" where
  "lines_with t ls = concat (map (\<lambda>l. l @ t) ls)"

definition event_with :: "bytes \<Rightarrow> bytes list \<Rightarrow> bytes" where
  "event_with t ls = lines_with t ls @ t"

definition line_ends :: "bytes set" where
  "line_ends = {[LF], [CR], [CR, LF]}"

lemma lines_with_simps [simp]: "lines_with t [] = []" "lines_with t (l # ls) = l @ t @ lines_with t ls"
  by (simp_all add: lines_with_def)

lemma read_loop_plain:
  assumes "LF \<notin> set l" "CR \<notin> set l" "int (length acc) + int (length l) \<le> maxSSELine" "acc = [] \<or> last acc \<noteq> CR"
  shows "t \<in> line_ends \<Longrightarrow> (t = [CR] \<Longrightarrow> rest = [] \<or> hd rest \<noteq> LF) \<Longrightarrow> read_loop acc (l @ t @ rest) e = ((acc @ l, None), rest)"
    and "read_loop acc l e = (if e = EOF then (acc @ l, Some EOF) else ([], Some e), [])"
  using assms by (induction l arbitrary: acc) (auto simp: line_ends_def)

lemma term_step:
  assumes "t \<in> line_ends" "plain_line l" "t = [CR] \<Longrightarrow> rest = [] \<or> hd rest \<noteq> LF"
  shows "read_loop [] (l @ t @ rest) e = ((l, None), rest)"
  using read_loop_plain(1) [of l "[]" t rest e] assms by (simp add: plain_line_def)

text \<open>What follows a line of a well-formed stream never starts with a line feed that a lone CR would swallow.\<close>

definition no_lf :: "bytes \<Rightarrow> bytes \<Rightarrow> bool" where
  "no_lf t rest \<longleftrightarrow> (t = [CR] \<longrightarrow> rest = [] \<or> hd rest \<noteq> LF)"

lemma no_lf_lines: "\<forall>l \<in> set ls. plain_line l \<and> l \<noteq> [] \<Longrightarrow> no_lf t rest \<Longrightarrow> no_lf t (lines_with t ls @ rest)"
  by (cases ls) (auto simp: no_lf_def plain_line_def hd_append dest!: hd_in_set)

lemma no_lf_end: "t \<in> line_ends \<Longrightarrow> no_lf t (t @ rest)"
  by (auto simp: no_lf_def line_ends_def)

lemma nextEvent_lines:
  assumes "t \<in> line_ends" "\<forall>l \<in> set ls. plain_line l \<and> l \<noteq> []" "no_lf t rest"
    and "int (length E) + int (length (lines_with [LF] ls)) + 1 \<le> maxSSEEvent"
  shows "\<exists>ln. nextEvent \<lparr>sp_br = lines_with t ls @ rest, sp_end = e, sp_line = ln0, sp_event = E, sp_have = h\<rparr> =
    nextEvent \<lparr>sp_br = rest, sp_end = e, sp_line = ln, sp_event = E @ lines_with [LF] ls, sp_have = (h \<or> ls \<noteq> [])\<rparr>"
  using assms
proof (induction ls arbitrary: E h ln0)
  case (Cons l ls)
  let ?p = "\<lparr>sp_br = lines_with t (l # ls) @ rest, sp_end = e, sp_line = ln0, sp_event = E, sp_have = h\<rparr>"
  have "no_lf t (lines_with t ls @ rest)" using no_lf_lines Cons.prems(2,3) by simp
  then have rl: "read_loop [] (sp_br ?p) (sp_end ?p) = ((l, None), lines_with t ls @ rest)"
    using term_step [OF Cons.prems(1), of l "lines_with t ls @ rest"] Cons.prems(2) by (simp add: no_lf_def)
  have "nextEvent ?p = nextEvent \<lparr>sp_br = lines_with t ls @ rest, sp_end = e, sp_line = l, sp_event = E @ l @ [LF], sp_have = True\<rparr>"
    using nextEvent_line(4) [OF rl] Cons.prems(2,4) by simp
  with Cons.IH [of "E @ l @ [LF]" l True] Cons.prems show ?case by simp
qed auto

lemma nextEvent_event:
  assumes "t \<in> line_ends" "\<forall>l \<in> set ls. plain_line l \<and> l \<noteq> []" "ls \<noteq> []" "no_lf t rest"
    and "int (length (event_with [LF] ls)) \<le> maxSSEEvent"
  shows "nextEvent (newSSEParser (event_with t ls @ rest) e) = (Inr (event_with [LF] ls), newSSEParser rest e)"
proof -
  have "no_lf t (t @ rest)" using no_lf_end [OF assms(1)] .
  then obtain ln where n: "nextEvent (newSSEParser (event_with t ls @ rest) e) =
      nextEvent \<lparr>sp_br = t @ rest, sp_end = e, sp_line = ln, sp_event = lines_with [LF] ls, sp_have = True\<rparr>"
    using nextEvent_lines [OF assms(1,2), of "t @ rest" "[]" e "[]" False] assms(3,5)
    by (auto simp: newSSEParser_def event_with_def)
  let ?p = "\<lparr>sp_br = t @ rest, sp_end = e, sp_line = ln, sp_event = lines_with [LF] ls, sp_have = True\<rparr>"
  have "read_loop [] (sp_br ?p) (sp_end ?p) = (([], None), rest)"
    using term_step [OF assms(1), of "[]" rest e] assms(4) by (simp add: no_lf_def plain_line_def maxSSELine_def)
  from nextEvent_line(2) [OF this] show ?thesis unfolding n by (simp add: event_with_def sse_reset_def newSSEParser_def)
qed

text \<open>An unfinished event at the end: its finished lines, and the start of another.\<close>

lemma nextEvent_tail:
  assumes "t \<in> line_ends" "\<forall>l \<in> set ls. plain_line l \<and> l \<noteq> []" "plain_line l'"
    and "int (length (lines_with [LF] ls @ l')) + 2 \<le> maxSSEEvent"
  shows "if e = EOF \<and> ls @ [l'] \<noteq> [[]]
    then nextEvent (newSSEParser (lines_with t ls @ l') e) = (Inr (lines_with [LF] ls @ l'), newSSEParser [] e)
    else fst (nextEvent (newSSEParser (lines_with t ls @ l') e)) = Inl e"
proof -
  have "no_lf t l'" using assms(3) by (cases l') (auto simp: no_lf_def plain_line_def)
  then obtain ln where n: "nextEvent (newSSEParser (lines_with t ls @ l') e) =
      nextEvent \<lparr>sp_br = l', sp_end = e, sp_line = ln, sp_event = lines_with [LF] ls, sp_have = (ls \<noteq> [])\<rparr>"
    using nextEvent_lines [OF assms(1,2), of l' "[]" e "[]" False] assms(4) by (auto simp: newSSEParser_def)
  let ?p = "\<lparr>sp_br = l', sp_end = e, sp_line = ln, sp_event = lines_with [LF] ls, sp_have = (ls \<noteq> [])\<rparr>"
  have rl: "read_loop [] (sp_br ?p) (sp_end ?p) = (if e = EOF then (l', Some EOF) else ([], Some e), [])"
    using read_loop_plain(2) [of l' "[]" e] assms(3) by (simp add: plain_line_def)
  have ne: "lines_with [LF] ls = [] \<longleftrightarrow> ls = []" by (cases ls) simp_all
  show ?thesis
  proof (cases "e = EOF")
    case True
    then have rl: "read_loop [] (sp_br ?p) (sp_end ?p) = ((l', Some EOF), [])" using rl by simp
    show ?thesis
      using nextEvent_end(2) [OF rl] nextEvent_end(3) [OF rl] nextEvent_end(4) [OF rl] assms(4) ne n True
      by (cases "l' = []"; cases "ls = []") (simp_all add: sse_reset_def newSSEParser_def)
  next
    case False
    then have rl: "read_loop [] (sp_br ?p) (sp_end ?p) = (([], Some e), [])" using rl by simp
    show ?thesis using nextEvent_end(1) [OF rl] False n by simp
  qed
qed

lemma sse_events_step:
  "nextEvent (newSSEParser bs e) = (Inr ev, newSSEParser bs' e) \<Longrightarrow>
    sse_events (newSSEParser bs e) = (ev # fst (sse_events (newSSEParser bs' e)), snd (sse_events (newSSEParser bs' e)))"
  by (simp add: sse_events.simps [of "newSSEParser bs e"] split: prod.splits)

lemma sse_events_stop: "fst (nextEvent p) = Inl e \<Longrightarrow> sse_events p = ([], e)"
  by (cases "nextEvent p") (auto simp: sse_events.simps [of p])

lemma sse_events_nil: "sse_events (newSSEParser [] e) = ([], e)"
  using nextEvent_tail [of "[LF]" "[]" "[]" e]
  by (intro sse_events_stop) (simp add: line_ends_def plain_line_def maxSSELine_def maxSSEEvent_def)

lemma sse_events_tail:
  assumes "t \<in> line_ends" "\<forall>l \<in> set ls. plain_line l \<and> l \<noteq> []" "plain_line l'"
    and "int (length (lines_with [LF] ls @ l')) + 2 \<le> maxSSEEvent"
  shows "sse_events (newSSEParser (lines_with t ls @ l') e) =
    (if e = EOF \<and> ls @ [l'] \<noteq> [[]] then [lines_with [LF] ls @ l'] else [], e)"
proof (cases "e = EOF \<and> ls @ [l'] \<noteq> [[]]")
  case True
  then show ?thesis using nextEvent_tail [OF assms, of e] sse_events_step sse_events_nil by fastforce
next
  case False
  then show ?thesis using nextEvent_tail [OF assms, of e] sse_events_stop by presburger
qed

lemma nextEvent_conserves: "nextEvent p = (Inr ev, p') \<Longrightarrow> length ev + length (sp_br p') \<le> sse_size p"
proof (induction p ev p' rule: nextEvent_Inr_induct)
  case (last p line bs)
  then show ?case using read_loop_eof [OF last(1)] by (simp add: sse_size_def sse_reset_def)
next
  case (flush p bs)
  then show ?case using read_loop_eof [OF flush(1)] by (simp add: sse_size_def sse_reset_def)
qed (auto simp: sse_size_def sse_reset_def dest!: read_loop_line)

lemma sse_events_conserves: "length (concat (fst (sse_events p))) \<le> sse_size p"
proof (induction p rule: sse_events.induct)
  case (1 p)
  obtain r p' where n: "nextEvent p = (r, p')" by fastforce
  show ?case
  proof (cases r)
    case (Inr ev)
    have "sse_size p' = length (sp_br p')" using nextEvent_fresh [OF n [unfolded Inr]]
      by (metis (no_types) add.right_neutral list.size(3) newSSEParser_def sse_size_def sseParser.select_convs(4))
    then show ?thesis using 1(1) [OF n [symmetric] Inr] nextEvent_conserves [OF n [unfolded Inr]]
      by (auto simp: sse_events.simps [of p] n Inr split: prod.splits)
  qed (simp add: sse_events.simps [of p] n)
qed

subsection \<open>The data of an event\<close>

definition data_values :: "bytes \<Rightarrow> bytes list" where
  "data_values ev = List.map_filter data_line (split_on LF (TrimEventNewline ev))"

lemma data_loop_values:
  "data_loop sb ls = (let vs = List.map_filter data_line ls in
     if sb = [] then join_with LF (dropWhile (\<lambda>v. v = []) vs) else join_with LF (sb # vs))"
proof (induction ls arbitrary: sb)
  case (Cons l ls)
  have j: "join_with LF ((sb @ LF # v) # vs) = join_with LF (sb # v # vs)" for v vs by (cases vs) simp_all
  show ?case by (cases "data_line l") (auto simp: Cons List.map_filter_simps Let_def j simp del: join_with.simps(3))
qed (simp add: List.map_filter_simps Let_def)

section \<open>Properties\<close>

text \<open>
  C38: Relay of well-formed event streams. A stream of events whose lines all end the same way (LF, CRLF or
  CR), each line within 256 KiB and each event within 1 MiB, is taken apart into exactly those events,
  re-emitted with LF line ends: byte for byte the input when that uses LF. An unfinished event at the end is
  emitted as it stands when the stream closes cleanly, and dropped when reading failed; the error is
  reported after the last event.
\<close>

theorem sse_relay:
  assumes "t \<in> line_ends"
    and "\<forall>ls \<in> set evs. ls \<noteq> [] \<and> (\<forall>l \<in> set ls. plain_line l \<and> l \<noteq> []) \<and> int (length (event_with [LF] ls)) \<le> maxSSEEvent"
    and "\<forall>l \<in> set ls. plain_line l \<and> l \<noteq> []" "plain_line l'" "int (length (lines_with [LF] ls @ l')) + 2 \<le> maxSSEEvent"
  shows "sse_events (newSSEParser (concat (map (event_with t) evs) @ lines_with t ls @ l') e) =
    (map (event_with [LF]) evs @ (if e = EOF \<and> ls @ [l'] \<noteq> [[]] then [lines_with [LF] ls @ l'] else []), e)"
  using assms(2)
proof (induction evs)
  case Nil
  show ?case using sse_events_tail [OF assms(1,3-5), of e] by simp
next
  case (Cons ev evs)
  let ?rest = "concat (map (event_with t) evs) @ lines_with t ls @ l'"
  have "no_lf t l'" using assms(4) by (cases l') (auto simp: no_lf_def plain_line_def)
  then have "no_lf t (lines_with t ls @ l')" using no_lf_lines assms(3) by blast
  then have "no_lf t ?rest"
    using Cons.prems by (cases evs) (auto simp: event_with_def intro!: no_lf_lines no_lf_end [OF assms(1)])
  then have "nextEvent (newSSEParser (event_with t ev @ ?rest) e) = (Inr (event_with [LF] ev), newSSEParser ?rest e)"
    using nextEvent_event [OF assms(1), of ev ?rest e] Cons.prems by simp
  from sse_events_step [OF this] Cons show ?case by simp
qed

theorem sse_relay_witness:
  "sse_events (newSSEParser (''data: a'' @ [CR, LF, CR, LF] @ ''data: b'' @ [CR, LF]) EOF) =
    ([''data: a'' @ [LF, LF], ''data: b'' @ [LF]], EOF)"
  using sse_relay [of "[CR, LF]" "[[''data: a'']]" "[''data: b'']" "[]" EOF]
  by (simp add: line_ends_def plain_line_def maxSSELine_def maxSSEEvent_def event_with_def)

text \<open>
  C39: Bounded relaying of arbitrary input. Whatever the backend sends and however reading ends, the event loop
  comes to an end; every event it emits is non-empty and within 1 MiB, and all of them together are no longer
  than what was read.
\<close>

theorem sse_bounded:
  "(\<forall>ev \<in> set (fst (sse_events (newSSEParser bs e))). ev \<noteq> [] \<and> int (length ev) \<le> maxSSEEvent) \<and>
   length (concat (fst (sse_events (newSSEParser bs e)))) \<le> length bs"
  using sse_events_small [OF refl, of bs e] sse_events_conserves [of "newSSEParser bs e"]
  by (simp add: sse_size_def newSSEParser_def)

theorem sse_bounded_witness:
  "length (concat (fst (sse_events (newSSEParser (''data: a'' @ [CR, LF]) (ReadError ''reset''))))) \<le> 9"
  using sse_bounded [of "''data: a'' @ [CR, LF]" "ReadError ''reset''"] by simp

text \<open>
  The data of an event is the values of its data lines joined by newlines, without the empty ones before
  the first non-empty value: a leading empty data line is lost, where the event-stream format keeps it.
\<close>

theorem dataField_values:
  "dataField ev = (let vs = dropWhile (\<lambda>v. v = []) (data_values ev) in if vs = [] then None else Some (join_with LF vs))"
proof -
  have "join_with LF vs = [] \<longleftrightarrow> vs = []" if "vs = [] \<or> hd vs \<noteq> []" for vs
    using that by (cases "(LF, vs)" rule: join_with.cases) auto
  moreover have "dropWhile (\<lambda>v. v = []) vs = [] \<or> hd (dropWhile (\<lambda>v. v = []) vs) \<noteq> []" for vs :: "bytes list"
    using hd_dropWhile by blast
  ultimately show ?thesis
    by (simp add: dataField_def data_loop_values data_values_def Let_def)
qed

end
