(* ===== verification/Inflight.thy ===== *)
theory Inflight
  imports Prelude "HOL-Library.Char_ord" "HOL-Library.List_Lexorder" "HOL-Library.Product_Lexorder" "HOL-Library.Multiset"
begin

text \<open>
  The registry of live requests (\<^verbatim>\<open>src/internal/inflight/inflight.go\<close>). A request object is a location of
  a small store: the handle a caller holds stays valid after \<open>End\<close>, which only takes it out of the live set.
  A nil registry or handle is \<open>None\<close>. The order in which Go ranges over the live set is a parameter of
  \<open>Snapshot\<close>; it also stands for the order in which the unstable sort leaves equal elements.
\<close>

section \<open>Definitions\<close>

datatype phase = PhaseReading | PhaseRouting | PhaseQueued | PhaseWaiting | PhaseStreaming | PhaseSending

fun phase_text :: "phase \<Rightarrow> string" where
  "phase_text PhaseReading = ''reading''"
| "phase_text PhaseRouting = ''routing''"
| "phase_text PhaseQueued = ''queued''"
| "phase_text PhaseWaiting = ''waiting''"
| "phase_text PhaseStreaming = ''streaming''"
| "phase_text PhaseSending = ''sending''"

record live_record =
  lr_RequestID :: string
  lr_KeyID :: string
  lr_KeyName :: string
  lr_Remote :: string
  lr_UserAgent :: string
  lr_Endpoint :: string
  lr_Model :: string
  lr_Backend :: string
  lr_Phase :: phase
  lr_AgeMillis :: int
  lr_BytesIn :: int
  lr_BytesOut :: int
  lr_Tokens :: int

record live_request =
  rq_started :: time
  rq_requestID :: string
  rq_keyID :: string
  rq_keyName :: string
  rq_remote :: string
  rq_userAgent :: string
  rq_endpoint :: string
  rq_phase :: phase
  rq_model :: string
  rq_backend :: string
  rq_bytesIn :: int
  rq_bytesOut :: int
  rq_tokens :: int

record live_registry =
  lg_reqs :: "live_request list"
  lg_live :: "nat list"

definition inflight_New :: live_registry where
  "inflight_New = \<lparr>lg_reqs = [], lg_live = []\<rparr>"

definition Begin :: "live_registry option \<Rightarrow> time \<Rightarrow> string \<Rightarrow> string \<Rightarrow> string \<Rightarrow> string \<Rightarrow> string \<Rightarrow> string \<Rightarrow>
    live_registry option \<times> nat option" where
  "Begin reg now requestID keyID keyName remote userAgent endpoint =
     (case reg of None \<Rightarrow> (None, None)
      | Some r \<Rightarrow>
          let req = \<lparr>rq_started = now, rq_requestID = requestID, rq_keyID = keyID, rq_keyName = keyName,
                rq_remote = remote, rq_userAgent = userAgent, rq_endpoint = endpoint, rq_phase = PhaseReading,
                rq_model = [], rq_backend = [], rq_bytesIn = 0, rq_bytesOut = 0, rq_tokens = 0\<rparr>;
              h = length (lg_reqs r)
          in (Some \<lparr>lg_reqs = lg_reqs r @ [req], lg_live = h # lg_live r\<rparr>, Some h))"

definition End :: "live_registry \<Rightarrow> nat option \<Rightarrow> live_registry" where
  "End r q = (case q of None \<Rightarrow> r | Some h \<Rightarrow> r\<lparr>lg_live := removeAll h (lg_live r)\<rparr>)"

text \<open>The setters write one object of the store.\<close>

definition upd_request :: "live_registry \<Rightarrow> nat option \<Rightarrow> (live_request \<Rightarrow> live_request) \<Rightarrow> live_registry" where
  "upd_request r q f = (case q of None \<Rightarrow> r
     | Some h \<Rightarrow> if h < length (lg_reqs r) then r\<lparr>lg_reqs := (lg_reqs r)[h := f (lg_reqs r ! h)]\<rparr> else r)"

definition set_Phase :: "live_registry \<Rightarrow> nat option \<Rightarrow> phase \<Rightarrow> live_registry" where
  "set_Phase r q p = upd_request r q (\<lambda>x. x\<lparr>rq_phase := p\<rparr>)"

definition set_Target :: "live_registry \<Rightarrow> nat option \<Rightarrow> string \<Rightarrow> string \<Rightarrow> live_registry" where
  "set_Target r q model backend = upd_request r q (\<lambda>x. x\<lparr>rq_model := model, rq_backend := backend\<rparr>)"

definition set_Read :: "live_registry \<Rightarrow> nat option \<Rightarrow> int \<Rightarrow> live_registry" where
  "set_Read r q n = upd_request r q (\<lambda>x. x\<lparr>rq_bytesIn := n\<rparr>)"

definition Wrote :: "live_registry \<Rightarrow> nat option \<Rightarrow> int \<Rightarrow> live_registry" where
  "Wrote r q n = (if n \<le> 0 then r else upd_request r q (\<lambda>x. x\<lparr>rq_bytesOut := wrap64 (rq_bytesOut x + n)\<rparr>))"

definition set_Tokens :: "live_registry \<Rightarrow> nat option \<Rightarrow> int \<Rightarrow> live_registry" where
  "set_Tokens r q n = upd_request r q (\<lambda>x. x\<lparr>rq_tokens := n\<rparr>)"

definition record_of :: "live_request \<Rightarrow> time \<Rightarrow> live_record" where
  "record_of q now = \<lparr>lr_RequestID = rq_requestID q, lr_KeyID = rq_keyID q, lr_KeyName = rq_keyName q,
     lr_Remote = rq_remote q, lr_UserAgent = rq_userAgent q, lr_Endpoint = rq_endpoint q, lr_Model = rq_model q,
     lr_Backend = rq_backend q, lr_Phase = rq_phase q,
     lr_AgeMillis = go_div (time_sub now (rq_started q)) Millisecond, lr_BytesIn = rq_bytesIn q,
     lr_BytesOut = rq_bytesOut q, lr_Tokens = rq_tokens q\<rparr>"

text \<open>The comparison sorts by age, oldest first, then by request ID.\<close>

definition snapshot_key :: "live_record \<Rightarrow> int \<times> string" where
  "snapshot_key a = (- lr_AgeMillis a, lr_RequestID a)"

definition Snapshot :: "nat list \<Rightarrow> live_registry option \<Rightarrow> time \<Rightarrow> live_record list" where
  "Snapshot order reg now = (case reg of None \<Rightarrow> []
     | Some r \<Rightarrow> sort_key snapshot_key (map (\<lambda>h. record_of (lg_reqs r ! h) now) order))"

subsection \<open>Histories\<close>

text \<open>
  The calls a daemon makes on one registry. A handle is the number of requests begun before it.
\<close>

datatype live_call = CBegin time string string string string string string | CEnd nat | CPhase nat phase
  | CTarget nat string string | CRead nat int | CWrote nat int | CTokens nat int

fun live_step :: "live_registry \<Rightarrow> live_call \<Rightarrow> live_registry" where
  "live_step r (CBegin now i k n a u e) = the (fst (Begin (Some r) now i k n a u e))"
| "live_step r (CEnd h) = End r (Some h)"
| "live_step r (CPhase h p) = set_Phase r (Some h) p"
| "live_step r (CTarget h m b) = set_Target r (Some h) m b"
| "live_step r (CRead h n) = set_Read r (Some h) n"
| "live_step r (CWrote h n) = Wrote r (Some h) n"
| "live_step r (CTokens h n) = set_Tokens r (Some h) n"

definition live_run :: "live_call list \<Rightarrow> live_registry" where
  "live_run cs = foldl live_step inflight_New cs"

text \<open>
  What a history, newest call first, says about the requests, without a registry: how many were begun, which
  have ended, and for each the identity given to \<open>Begin\<close>, the last phase, target, size and token count set,
  and the sum of the bytes written.
\<close>

fun n_begun :: "live_call list \<Rightarrow> nat" where
  "n_begun [] = 0"
| "n_begun (CBegin a b c d e f g # cs) = Suc (n_begun cs)"
| "n_begun (_ # cs) = n_begun cs"

fun handle_of :: "live_call \<Rightarrow> nat option" where
  "handle_of (CBegin a b c d e f g) = None"
| "handle_of (CEnd h) = Some h"
| "handle_of (CPhase h p) = Some h"
| "handle_of (CTarget h m b) = Some h"
| "handle_of (CRead h n) = Some h"
| "handle_of (CWrote h n) = Some h"
| "handle_of (CTokens h n) = Some h"

text \<open>A caller has no handle before \<open>Begin\<close> has returned it.\<close>

fun hist_ok :: "live_call list \<Rightarrow> bool" where
  "hist_ok [] = True"
| "hist_ok (c # cs) = (hist_ok cs \<and> (case handle_of c of None \<Rightarrow> True | Some h \<Rightarrow> h < n_begun cs))"

fun hist_begin :: "nat \<Rightarrow> live_call list \<Rightarrow> live_request" where
  "hist_begin h [] = \<lparr>rq_started = 0, rq_requestID = [], rq_keyID = [], rq_keyName = [], rq_remote = [], rq_userAgent = [],
     rq_endpoint = [], rq_phase = PhaseReading, rq_model = [], rq_backend = [], rq_bytesIn = 0, rq_bytesOut = 0, rq_tokens = 0\<rparr>"
| "hist_begin h (CBegin now i k n a u e # cs) =
     (if h = n_begun cs
      then \<lparr>rq_started = now, rq_requestID = i, rq_keyID = k, rq_keyName = n, rq_remote = a, rq_userAgent = u,
        rq_endpoint = e, rq_phase = PhaseReading, rq_model = [], rq_backend = [], rq_bytesIn = 0, rq_bytesOut = 0, rq_tokens = 0\<rparr>
      else hist_begin h cs)"
| "hist_begin h (_ # cs) = hist_begin h cs"

fun latest :: "(live_call \<Rightarrow> 'a option) \<Rightarrow> 'a \<Rightarrow> live_call list \<Rightarrow> 'a" where
  "latest f d [] = d"
| "latest f d (c # cs) = (case f c of Some x \<Rightarrow> x | None \<Rightarrow> latest f d cs)"

fun hist_written :: "nat \<Rightarrow> live_call list \<Rightarrow> int" where
  "hist_written h [] = 0"
| "hist_written h (CWrote h' n # cs) = (if h = h' \<and> 0 < n then n else 0) + hist_written h cs"
| "hist_written h (_ # cs) = hist_written h cs"

fun sel_phase :: "nat \<Rightarrow> live_call \<Rightarrow> phase option" where
  "sel_phase h (CPhase h' p) = (if h' = h then Some p else None)"
| "sel_phase h _ = None"

fun sel_model :: "nat \<Rightarrow> live_call \<Rightarrow> string option" where
  "sel_model h (CTarget h' m b) = (if h' = h then Some m else None)"
| "sel_model h _ = None"

fun sel_backend :: "nat \<Rightarrow> live_call \<Rightarrow> string option" where
  "sel_backend h (CTarget h' m b) = (if h' = h then Some b else None)"
| "sel_backend h _ = None"

fun sel_read :: "nat \<Rightarrow> live_call \<Rightarrow> int option" where
  "sel_read h (CRead h' n) = (if h' = h then Some n else None)"
| "sel_read h _ = None"

fun sel_tokens :: "nat \<Rightarrow> live_call \<Rightarrow> int option" where
  "sel_tokens h (CTokens h' n) = (if h' = h then Some n else None)"
| "sel_tokens h _ = None"

definition hist_request :: "nat \<Rightarrow> live_call list \<Rightarrow> live_request" where
  "hist_request h cs = (hist_begin h cs)
     \<lparr>rq_phase := latest (sel_phase h) PhaseReading cs, rq_model := latest (sel_model h) [] cs,
      rq_backend := latest (sel_backend h) [] cs, rq_bytesIn := latest (sel_read h) 0 cs,
      rq_bytesOut := wrap64 (hist_written h cs), rq_tokens := latest (sel_tokens h) 0 cs\<rparr>"

definition open_requests :: "live_call list \<Rightarrow> nat set" where
  "open_requests cs = {h. h < n_begun cs \<and> CEnd h \<notin> set cs}"

section \<open>Lemmas\<close>

lemma wrap64_wrap64_add: "wrap64 (wrap64 a + b) = wrap64 (a + b)"
  by (simp add: wrap64_def) (metis (no_types, opaque_lifting) add.assoc add.commute mod_add_left_eq)

lemma latest_none: "(\<And>c. c \<in> set cs \<Longrightarrow> f c = None) \<Longrightarrow> latest f d cs = d"
  by (induction cs) auto

lemma hist_handle: "hist_ok cs \<Longrightarrow> c \<in> set cs \<Longrightarrow> handle_of c = Some h \<Longrightarrow> h < n_begun cs"
proof (induction cs)
  case (Cons a cs)
  have "n_begun cs \<le> n_begun (a # cs)" by (cases a) simp_all
  with Cons show ?case by (auto split: option.splits)
qed simp

lemma hist_written_none: "\<forall>c \<in> set cs. handle_of c \<noteq> Some h \<Longrightarrow> hist_written h cs = 0"
  by (induction h cs rule: hist_written.induct) auto

lemma hist_begin_default: "hist_begin h cs = (hist_begin h cs)
    \<lparr>rq_phase := PhaseReading, rq_model := [], rq_backend := [], rq_bytesIn := 0, rq_bytesOut := 0, rq_tokens := 0\<rparr>"
  by (induction h cs rule: hist_begin.induct) simp_all

lemma sel_handle:
  "sel_phase h c = Some p \<Longrightarrow> handle_of c = Some h" "sel_model h c = Some m \<Longrightarrow> handle_of c = Some h"
  "sel_backend h c = Some m \<Longrightarrow> handle_of c = Some h" "sel_read h c = Some n \<Longrightarrow> handle_of c = Some h"
  "sel_tokens h c = Some n \<Longrightarrow> handle_of c = Some h"
  by (cases c; simp split: if_splits)+

lemma latest_fresh:
  assumes "hist_ok cs" "\<And>c x. f c = Some x \<Longrightarrow> handle_of c = Some (n_begun cs)"
  shows "latest f d cs = d"
  by (rule latest_none) (use hist_handle [OF assms(1)] assms(2) in \<open>metis nat_neq_iff option.exhaust\<close>)

lemma hist_fresh: "hist_ok cs \<Longrightarrow> hist_written (n_begun cs) cs = 0"
  by (rule hist_written_none) (use hist_handle in blast)

lemma fresh_facts:
  assumes "hist_ok cs"
  shows "hist_written (n_begun cs) cs = 0" "latest (sel_phase (n_begun cs)) d cs = d" "latest (sel_model (n_begun cs)) s cs = s"
    "latest (sel_backend (n_begun cs)) s cs = s" "latest (sel_read (n_begun cs)) n cs = n" "latest (sel_tokens (n_begun cs)) n cs = n"
  by (rule hist_fresh [OF assms], (rule latest_fresh [OF assms], erule sel_handle)+)

lemma setters_hist:
  assumes "lg_reqs r = map f [0..<n]" "h < n"
  shows "lg_reqs (upd_request r (Some h) g) = map (f(h := g (f h))) [0..<n]"
  using assms by (auto simp: upd_request_def nth_list_update intro!: nth_equalityI)

text \<open>The registry keeps exactly what the history says.\<close>

lemma live_run_snoc: "live_run (rev (c # cs)) = live_step (live_run (rev cs)) c"
  by (simp add: live_run_def)

lemma reqs_hist: "hist_ok cs \<Longrightarrow> lg_reqs (live_run (rev cs)) = map (\<lambda>h. hist_request h cs) [0..<n_begun cs]"
proof (induction cs)
  case (Cons c cs)
  let ?r = "live_run (rev cs)"
  have IH: "lg_reqs ?r = map (\<lambda>h. hist_request h cs) [0..<n_begun cs]" using Cons by simp
  show ?case
  proof (cases c)
    case (CBegin now i k n a u e)
    have "hist_request (n_begun cs) (c # cs) = hist_begin (n_begun cs) (c # cs)"
      using Cons.prems by (simp add: CBegin hist_request_def int64_ok_def fresh_facts)
    moreover have "h < n_begun cs \<Longrightarrow> hist_request h (c # cs) = hist_request h cs" for h by (simp add: CBegin hist_request_def)
    ultimately show ?thesis unfolding live_run_snoc by (simp add: CBegin Begin_def Let_def IH)
  next
    case (CEnd h)
    then show ?thesis unfolding live_run_snoc by (simp add: End_def IH hist_request_def)
  next
    case (CPhase h p)
    then have "(\<lambda>x. hist_request x (c # cs)) = (\<lambda>x. hist_request x cs)(h := (hist_request h cs)\<lparr>rq_phase := p\<rparr>)"
      by (auto simp: hist_request_def fun_eq_iff)
    then show ?thesis using CPhase Cons.prems unfolding live_run_snoc by (simp add: set_Phase_def setters_hist [OF IH])
  next
    case (CTarget h m b)
    then have "(\<lambda>x. hist_request x (c # cs)) = (\<lambda>x. hist_request x cs)(h := (hist_request h cs)\<lparr>rq_model := m, rq_backend := b\<rparr>)"
      by (auto simp: hist_request_def fun_eq_iff)
    then show ?thesis using CTarget Cons.prems unfolding live_run_snoc by (simp add: set_Target_def setters_hist [OF IH])
  next
    case (CRead h n)
    then have "(\<lambda>x. hist_request x (c # cs)) = (\<lambda>x. hist_request x cs)(h := (hist_request h cs)\<lparr>rq_bytesIn := n\<rparr>)"
      by (auto simp: hist_request_def fun_eq_iff)
    then show ?thesis using CRead Cons.prems unfolding live_run_snoc by (simp add: set_Read_def setters_hist [OF IH])
  next
    case (CWrote h n)
    show ?thesis
    proof (cases "n \<le> 0")
      case True
      then have "(\<lambda>x. hist_request x (c # cs)) = (\<lambda>x. hist_request x cs)" by (simp add: CWrote hist_request_def fun_eq_iff)
      then show ?thesis using CWrote True unfolding live_run_snoc by (simp add: Wrote_def IH)
    next
      case False
      then have "(\<lambda>x. hist_request x (c # cs)) =
          (\<lambda>x. hist_request x cs)(h := (hist_request h cs)\<lparr>rq_bytesOut := wrap64 (hist_written h cs + n)\<rparr>)"
        by (simp add: CWrote hist_request_def fun_eq_iff add.commute)
      moreover have "rq_bytesOut (hist_request h cs) = wrap64 (hist_written h cs)" by (simp add: hist_request_def)
      ultimately show ?thesis using CWrote Cons.prems False unfolding live_run_snoc
        by (simp add: Wrote_def setters_hist [OF IH] wrap64_wrap64_add)
    qed
  next
    case (CTokens h n)
    then have "(\<lambda>x. hist_request x (c # cs)) = (\<lambda>x. hist_request x cs)(h := (hist_request h cs)\<lparr>rq_tokens := n\<rparr>)"
      by (auto simp: hist_request_def fun_eq_iff)
    then show ?thesis using CTokens Cons.prems unfolding live_run_snoc by (simp add: set_Tokens_def setters_hist [OF IH])
  qed
qed (simp add: live_run_def inflight_New_def)

lemma live_upd [simp]: "lg_live (upd_request r q f) = lg_live r"
  by (simp add: upd_request_def split: option.splits)

lemma live_hist: "hist_ok cs \<Longrightarrow> set (lg_live (live_run (rev cs))) = open_requests cs \<and> distinct (lg_live (live_run (rev cs)))"
proof (induction cs)
  case (Cons c cs)
  have "lg_reqs (live_run (rev cs)) = map (\<lambda>h. hist_request h cs) [0..<n_begun cs]" using reqs_hist Cons.prems by simp
  moreover have "CEnd (n_begun cs) \<notin> set cs" using hist_handle [of cs "CEnd (n_begun cs)"] Cons.prems by auto
  ultimately show ?case using Cons unfolding live_run_snoc
    by (cases c) (auto simp: Begin_def End_def set_Phase_def set_Target_def set_Read_def Wrote_def set_Tokens_def
        open_requests_def Let_def distinct_removeAll less_Suc_eq)
qed (simp add: live_run_def inflight_New_def open_requests_def)

section \<open>Properties\<close>

text \<open>
  The operator's view is exact. After any sequence of calls by request handlers, and whatever order Go
  ranges over the live set in, a snapshot has one record for each request begun and not ended, holding the
  identity it began with, its last phase, target, body size and token count and the sum of the bytes written;
  the records are ordered by age, oldest first, then by request ID.
\<close>

theorem snapshot_exact:
  assumes "hist_ok (rev cs)" "set order = set (lg_live (live_run cs))" "distinct order"
  shows "mset (Snapshot order (Some (live_run cs)) now) =
      image_mset (\<lambda>h. record_of (hist_request h (rev cs)) now) (mset_set (open_requests (rev cs))) \<and>
    sorted (map snapshot_key (Snapshot order (Some (live_run cs)) now))"
proof -
  have reqs: "lg_reqs (live_run cs) = map (\<lambda>h. hist_request h (rev cs)) [0..<n_begun (rev cs)]"
    and live: "set order = open_requests (rev cs)"
    using reqs_hist [OF assms(1)] live_hist [OF assms(1)] assms(2) by simp_all
  have "mset (map (\<lambda>h. record_of (lg_reqs (live_run cs) ! h) now) order) =
      image_mset (\<lambda>h. record_of (hist_request h (rev cs)) now) (mset order)"
    unfolding mset_map by (rule image_mset_cong) (use live in \<open>simp add: reqs open_requests_def\<close>)
  moreover have "mset order = mset_set (open_requests (rev cs))" using live assms(3) by (metis mset_set_set)
  ultimately show ?thesis by (simp add: Snapshot_def)
qed

definition ex_calls :: "live_call list" where
  "ex_calls = [CBegin 0 ''r1'' ''k'' ''alice'' ''10.0.0.1'' ''curl'' ''chat'', CBegin 7000000 ''r2'' ''k'' ''alice'' ''10.0.0.1'' ''curl'' ''chat'',
     CPhase 1 PhaseStreaming, CWrote 1 10, CWrote 1 5, CEnd 0]"

theorem snapshot_exact_witness:
  "mset (Snapshot [1] (Some (live_run ex_calls)) 9000000) =
     image_mset (\<lambda>h. record_of (hist_request h (rev ex_calls)) 9000000) (mset_set (open_requests (rev ex_calls)))"
  by (rule snapshot_exact [THEN conjunct1]) (simp_all add: ex_calls_def live_run_def inflight_New_def Begin_def End_def set_Phase_def Wrote_def)

end
