(* ===== verification/Diag.thy ===== *)
theory Diag
  imports Json
begin

text \<open>
  The diagnostic taken from a backend's error body (\<^verbatim>\<open>src/internal/backend/diag.go\<close>). The text is handled
  rune by rune, with the character classes of Go's \<^verbatim>\<open>unicode\<close> package written out.
\<close>

section \<open>Definitions\<close>

definition maxDetailType :: nat where "maxDetailType = 64"
definition maxDetailCode :: nat where "maxDetailCode = 64"
definition maxDetailMessage :: nat where "maxDetailMessage = 256"
definition MaxMessageBytes :: nat where "MaxMessageBytes = maxDetailMessage"
definition maxDetailBytes :: nat where "maxDetailBytes = maxDetailType + maxDetailCode + maxDetailMessage"
definition maxDetailParseBytes :: int where "maxDetailParseBytes = 65536"

record detail =
  de_Type :: string
  de_Code :: string
  de_Message :: string

definition no_detail :: detail where
  "no_detail = \<lparr>de_Type = [], de_Code = [], de_Message = []\<rparr>"

record error_fields =
  ef_Type :: "json option"
  ef_Code :: "json option"
  ef_Message :: "json option"

record envelope =
  ev_Object :: string
  ev_Error :: "error_fields option"
  ev_flat :: error_fields

definition no_fields :: error_fields where
  "no_fields = \<lparr>ef_Type = None, ef_Code = None, ef_Message = None\<rparr>"

subsection \<open>Text\<close>

text \<open>The runes of a string as \<^verbatim>\<open>range\<close> gives them, and \<^verbatim>\<open>unicode.IsControl\<close>, the class \<^verbatim>\<open>Cf\<close>, \<^verbatim>\<open>unicode.IsSpace\<close>.\<close>

function runes :: "string \<Rightarrow> nat list" where
  "runes [] = []"
| "runes (c # cs) = (let (r, n) = decode_rune (c # cs) in r # runes (drop (n - 1) cs))"
  by pat_completeness auto
termination by (relation "measure length") (auto simp: less_Suc_eq_le)

definition is_control :: "nat \<Rightarrow> bool" where
  "is_control r \<longleftrightarrow> r < 0x20 \<or> 0x7F \<le> r \<and> r < 0xA0"

definition in_ranges :: "(nat \<times> nat) list \<Rightarrow> nat \<Rightarrow> bool" where
  "in_ranges rs r \<longleftrightarrow> list_ex (\<lambda>(a, b). a \<le> r \<and> r \<le> b) rs"

definition is_Cf :: "nat \<Rightarrow> bool" where
  "is_Cf = in_ranges [(0xAD, 0xAD), (0x600, 0x605), (0x61C, 0x61C), (0x6DD, 0x6DD), (0x70F, 0x70F), (0x890, 0x891), (0x8E2, 0x8E2),
     (0x180E, 0x180E), (0x200B, 0x200F), (0x202A, 0x202E), (0x2060, 0x2064), (0x2066, 0x206F), (0xFEFF, 0xFEFF), (0xFFF9, 0xFFFB),
     (0x110BD, 0x110BD), (0x110CD, 0x110CD), (0x13430, 0x1343F), (0x1BCA0, 0x1BCA3), (0x1D173, 0x1D17A), (0xE0001, 0xE0001),
     (0xE0020, 0xE007F)]"

definition is_space :: "nat \<Rightarrow> bool" where
  "is_space = in_ranges [(0x9, 0xD), (0x20, 0x20), (0x85, 0x85), (0xA0, 0xA0), (0x1680, 0x1680), (0x2000, 0x200A), (0x2028, 0x2029),
     (0x202F, 0x202F), (0x205F, 0x205F), (0x3000, 0x3000)]"

definition sanitize_rune :: "nat \<Rightarrow> nat option" where
  "sanitize_rune c =
     (if c = 9 \<or> c = 10 \<or> c = 13 \<or> c = 11 \<or> c = 12 \<or> c = 0x85 then Some 32
      else if is_control c \<or> is_Cf c then None
      else Some c)"

text \<open>\<^verbatim>\<open>strings.Fields\<close> on runes: the maximal runs without white space.\<close>

fun fields :: "nat list \<Rightarrow> nat list list" where
  "fields [] = []"
| "fields (r # rs) =
     (if is_space r then fields rs
      else case rs of
        [] \<Rightarrow> [[r]]
      | r2 # _ \<Rightarrow> if is_space r2 then [r] # fields rs
                  else (case fields rs of [] \<Rightarrow> [[r]] | f # fs \<Rightarrow> (r # f) # fs))"

fun join_fields :: "nat list list \<Rightarrow> nat list" where
  "join_fields [] = []"
| "join_fields [f] = f"
| "join_fields (f # g # fs) = f @ 32 # join_fields (g # fs)"

definition utf8Start :: "char \<Rightarrow> bool" where
  "utf8Start b \<longleftrightarrow> byte_of b div 64 \<noteq> 2"

text \<open>The loop that moves the cut to a rune boundary.\<close>

fun cut_at :: "string \<Rightarrow> nat \<Rightarrow> nat" where
  "cut_at s 0 = 0"
| "cut_at s (Suc n) = (if \<not> utf8Start (s ! Suc n) then cut_at s n else Suc n)"

definition sanitizeDetailText :: "string \<Rightarrow> nat \<Rightarrow> string" where
  "sanitizeDetailText s limit =
     (let s' = concat (map encode_rune (join_fields (fields (List.map_filter sanitize_rune (runes s)))))
      in if length s' \<le> limit then s' else take (cut_at s' limit) s')"

text \<open>The first byte of a raw value tells its kind, which here is the constructor of the parsed tree.\<close>

definition scalarField :: "json option \<Rightarrow> nat \<Rightarrow> string" where
  "scalarField raw limit =
     (case raw of
        None \<Rightarrow> []
      | Some (JStr s) \<Rightarrow> sanitizeDetailText (unquote s) limit
      | Some (JBool b) \<Rightarrow> if b then ''true'' else ''false''
      | Some (JNum l) \<Rightarrow> if limit < length l then [] else l
      | Some _ \<Rightarrow> [])"

definition dec_error_fields :: "string \<Rightarrow> json \<Rightarrow> error_fields \<Rightarrow> error_fields \<times> bool" where
  "dec_error_fields t v f =
     (if t = ''type'' then set_field (dec_raw v (ef_Type f)) (\<lambda>x. f\<lparr>ef_Type := x\<rparr>)
      else if t = ''code'' then set_field (dec_raw v (ef_Code f)) (\<lambda>x. f\<lparr>ef_Code := x\<rparr>)
      else set_field (dec_raw v (ef_Message f)) (\<lambda>x. f\<lparr>ef_Message := x\<rparr>))"

definition dec_envelope :: "string \<Rightarrow> json \<Rightarrow> envelope \<Rightarrow> envelope \<times> bool" where
  "dec_envelope t v e =
     (if t = ''object'' then set_field (dec_string v (ev_Object e)) (\<lambda>x. e\<lparr>ev_Object := x\<rparr>)
      else if t = ''error''
      then set_field (dec_ptr no_fields (dec_struct [''type'', ''code'', ''message''] dec_error_fields) v (ev_Error e))
             (\<lambda>x. e\<lparr>ev_Error := x\<rparr>)
      else set_field (dec_error_fields t v (ev_flat e)) (\<lambda>x. e\<lparr>ev_flat := x\<rparr>))"

definition upstreamDetail :: "bytes \<Rightarrow> detail" where
  "upstreamDetail body =
     (if body = [] \<or> maxDetailParseBytes < int (length body) then no_detail
      else case unmarshal (dec_struct [''object'', ''error'', ''type'', ''code'', ''message''] dec_envelope) body
                  \<lparr>ev_Object = [], ev_Error = None, ev_flat = no_fields\<rparr> of
        (e, err) \<Rightarrow>
          if err then no_detail
          else case (case ev_Error e of Some f \<Rightarrow> Some f | None \<Rightarrow> if ev_Object e \<noteq> ''error'' then None else Some (ev_flat e)) of
            None \<Rightarrow> no_detail
          | Some f \<Rightarrow> \<lparr>de_Type = scalarField (ef_Type f) maxDetailType, de_Code = scalarField (ef_Code f) maxDetailCode,
                       de_Message = scalarField (ef_Message f) maxDetailMessage\<rparr>)"

section \<open>Lemmas\<close>

definition printable :: "nat \<Rightarrow> bool" where
  "printable r \<longleftrightarrow> \<not> is_control r \<and> \<not> is_Cf r"

definition text_of :: "nat list \<Rightarrow> string" where
  "text_of rs = concat (map encode_rune rs)"

lemma runes_encode: "runes (encode_rune r @ t) = (if is_surrogate r \<or> 0x10FFFF < r then RuneError else r) # runes t"
proof -
  obtain c cs where e: "encode_rune r = c # cs" using decode_encode(2) [of r] by (cases "encode_rune r") auto
  let ?r = "if is_surrogate r \<or> 0x10FFFF < r then RuneError else r"
  have "(?r, length (encode_rune r)) \<noteq> (RuneError, 1)"
    using decode_encode(3) [of r] by (auto simp: encode_rune_def is_surrogate_def)
  from decode_local [OF decode_encode(1) decode_encode(2) this, of t]
  have "decode_rune (c # cs @ t) = (?r, length (c # cs))" by (simp add: e)
  then show ?thesis by (simp add: e)
qed

lemma runes_text: "list_all printable rs \<Longrightarrow> list_all printable (runes (text_of rs))"
proof (induction rs)
  case (Cons r rs)
  have "printable RuneError" by (simp add: RuneError_def printable_def is_control_def is_Cf_def in_ranges_def)
  then show ?case using Cons by (simp add: text_of_def runes_encode)
qed (simp add: text_of_def)

lemma valid_text: "valid_utf8 (text_of rs)"
  by (induction rs) (simp_all add: text_of_def valid_utf8_encode)

lemma cont_not_start: "\<not> utf8Start (char_of (0x80 + x mod 64 :: nat))"
  by (simp add: utf8Start_def)

lemma encode_conts: "i < length (encode_rune r) \<Longrightarrow> utf8Start (encode_rune r ! i) \<Longrightarrow> i = 0"
proof -
  have bom: "\<not> utf8Start (char_of (0xBF::nat))" "\<not> utf8Start (char_of (0xBD::nat))" by (simp_all add: utf8Start_def)
  have "\<forall>c \<in> set (tl (encode_rune r)). \<not> utf8Start c"
    unfolding encode_rune_def using cont_not_start bom by auto
  moreover assume "i < length (encode_rune r)" "utf8Start (encode_rune r ! i)"
  ultimately show ?thesis
    by (metis Suc_less_eq decode_encode(2) list.exhaust_sel length_Cons not0_implies_Suc nth_Cons_Suc nth_mem)
qed

text \<open>A cut at the start of a rune is between two runes.\<close>

lemma take_boundary:
  "n < length (text_of rs) \<Longrightarrow> utf8Start (text_of rs ! n) \<Longrightarrow> \<exists>k. take n (text_of rs) = text_of (take k rs)"
proof (induction rs arbitrary: n)
  case (Cons r rs)
  show ?case
  proof (cases "n < length (encode_rune r)")
    case True
    then have "n = 0" using Cons.prems(2) encode_conts by (simp add: text_of_def nth_append)
    then show ?thesis by (intro exI [of _ 0]) (simp add: text_of_def)
  next
    case False
    with Cons.prems have "n - length (encode_rune r) < length (text_of rs)" "utf8Start (text_of rs ! (n - length (encode_rune r)))"
      by (auto simp: text_of_def nth_append)
    from Cons.IH [OF this] obtain k where "take (n - length (encode_rune r)) (text_of rs) = text_of (take k rs)" by blast
    then show ?thesis using False by (intro exI [of _ "Suc k"]) (simp add: text_of_def)
  qed
qed (simp add: text_of_def)

lemma cut_at_le: "cut_at s n \<le> n"
  by (induction s n rule: cut_at.induct) auto

lemma cut_at_start: "cut_at s n = 0 \<or> utf8Start (s ! cut_at s n)"
  by (induction s n rule: cut_at.induct) auto

lemma take_cut: "n < length (text_of rs) \<Longrightarrow> \<exists>k. take (cut_at (text_of rs) n) (text_of rs) = text_of (take k rs)"
proof (cases "cut_at (text_of rs) n = 0")
  case True
  then show ?thesis by (intro exI [of _ 0]) (simp add: text_of_def)
next
  case False
  assume "n < length (text_of rs)"
  then show ?thesis
    using take_boundary [of "cut_at (text_of rs) n" rs] cut_at_le [of "text_of rs" n] cut_at_start [of "text_of rs" n] False by auto
qed

lemma fields_set: "f \<in> set (fields rs) \<Longrightarrow> set f \<subseteq> set rs"
proof (induction rs arbitrary: f)
  case (Cons r rs)
  show ?case
  proof (cases "is_space r")
    case False
    show ?thesis
    proof (cases "rs = [] \<or> is_space (hd rs)")
      case True
      then have "f = [r] \<or> f \<in> set (fields rs)" using Cons.prems False by (cases rs) auto
      then show ?thesis using Cons.IH by auto
    next
      case ns: False
      show ?thesis
      proof (cases "fields rs")
        case Nil
        then show ?thesis using Cons.prems False ns by (cases rs) auto
      next
        case fs: (Cons g gs)
        then have "f = r # g \<or> f \<in> set gs" using Cons.prems \<open>\<not> is_space r\<close> ns by (cases rs) auto
        then show ?thesis using Cons.IH [of g] Cons.IH [of f] fs by auto
      qed
    qed
  qed (use Cons in auto)
qed simp

lemma join_fields_set: "r \<in> set (join_fields fs) \<Longrightarrow> r = 32 \<or> (\<exists>f \<in> set fs. r \<in> set f)"
  by (induction fs rule: join_fields.induct) auto

lemma sanitize_printable: "list_all printable (join_fields (fields (List.map_filter sanitize_rune rs)))"
proof -
  have sp: "printable 32" by (simp add: printable_def is_control_def is_Cf_def in_ranges_def)
  then have "printable r" if "sanitize_rune c = Some r" for c r
    using that by (auto simp: sanitize_rune_def printable_def split: if_splits)
  then have "printable r" if "r \<in> set (List.map_filter sanitize_rune rs)" for r
    using that by (auto simp: List.map_filter_def)
  moreover have "r = 32 \<or> r \<in> set (List.map_filter sanitize_rune rs)"
    if "r \<in> set (join_fields (fields (List.map_filter sanitize_rune rs)))" for r
    using join_fields_set [OF that] fields_set by blast
  ultimately show ?thesis unfolding list_all_iff using sp by blast
qed

text \<open>What makes a text safe to log and to relay: bounded, valid UTF-8, no control and no format characters.\<close>

definition safe_text :: "nat \<Rightarrow> string \<Rightarrow> bool" where
  "safe_text limit s \<longleftrightarrow> length s \<le> limit \<and> valid_utf8 s \<and> list_all printable (runes s)"

lemma safe_prefix: "list_all printable rs \<Longrightarrow> length (text_of (take k rs)) \<le> n \<Longrightarrow> safe_text n (text_of (take k rs))"
  using runes_text [of "take k rs"] set_take_subset [of k rs] by (auto simp: safe_text_def valid_text list_all_iff)

lemma sanitize_safe: "safe_text limit (sanitizeDetailText s limit)"
proof -
  define rs where "rs = join_fields (fields (List.map_filter sanitize_rune (runes s)))"
  have pr: "list_all printable rs" unfolding rs_def by (rule sanitize_printable)
  show ?thesis
  proof (cases "length (text_of rs) \<le> limit")
    case True
    then have "sanitizeDetailText s limit = text_of (take (length rs) rs)"
      by (simp add: sanitizeDetailText_def Let_def text_of_def rs_def)
    with safe_prefix [OF pr, of "length rs" limit] True show ?thesis by simp
  next
    case False
    then obtain k where k: "take (cut_at (text_of rs) limit) (text_of rs) = text_of (take k rs)"
      using take_cut [of limit rs] by auto
    moreover have "sanitizeDetailText s limit = take (cut_at (text_of rs) limit) (text_of rs)"
      using False by (simp add: sanitizeDetailText_def Let_def text_of_def rs_def)
    moreover have "length (text_of (take k rs)) \<le> limit"
      unfolding k [symmetric] length_take using cut_at_le [of "text_of rs" limit] by linarith
    ultimately show ?thesis using safe_prefix [OF pr, of k limit] by metis
  qed
qed

text \<open>ASCII text between space and tilde is printable.\<close>

lemma safe_ascii: "\<forall>c \<in> set s. 32 \<le> byte_of c \<and> byte_of c < 0x7F \<Longrightarrow> length s \<le> n \<Longrightarrow> safe_text n s"
proof -
  have "printable r" if "32 \<le> r" "r < 0x7F" for r
    using that by (simp add: printable_def is_control_def is_Cf_def in_ranges_def)
  then have "valid_utf8 s \<and> list_all printable (runes s)" if "\<forall>c \<in> set s. 32 \<le> byte_of c \<and> byte_of c < 0x7F"
    using that by (induction s) (auto simp: decode1 RuneError_def)
  then show "\<forall>c \<in> set s. 32 \<le> byte_of c \<and> byte_of c < 0x7F \<Longrightarrow> length s \<le> n \<Longrightarrow> safe_text n s"
    by (simp add: safe_text_def)
qed

subsection \<open>Numbers and fields\<close>

definition num_char :: "char \<Rightarrow> bool" where
  "num_char c \<longleftrightarrow> is_digit c \<or> c \<in> set ''-+.eE''"

lemma num_char_ascii: "num_char c \<Longrightarrow> 32 \<le> byte_of c \<and> byte_of c < 0x7F"
  by (auto simp: num_char_def is_digit_def byte_of_def)

lemma scan_num_chars:
  assumes "scan_num s = Some (l, rest)"
  shows "\<forall>c \<in> set l. num_char c"
proof -
  have digits: "\<forall>c \<in> set ds. num_char c" if "scan_digits s = (ds, r)" for s ds r
    using scan_digits_Some [OF that] by (auto simp: list_all_iff num_char_def)
  have i: "\<forall>c \<in> set i. num_char c" if "scan_int s = Some (i, r)" for s i r
    using that by (auto simp: scan_int_def num_char_def is_digit_def byte_of_def split: list.splits if_splits dest!: digits)
  have f: "\<forall>c \<in> set i. num_char c" if "scan_frac s = Some (i, r)" for s i r
    using that by (auto simp: scan_frac_def num_char_def split: list.splits if_splits prod.splits dest!: digits)
  have e: "\<forall>c \<in> set i. num_char c" if "scan_exp s = Some (i, r)" for s i r
    using that by (auto simp: scan_exp_def scan_sign_def num_char_def split: list.splits if_splits prod.splits dest!: digits)
  show ?thesis using assms
    by (auto simp: scan_num_def num_char_def bind_eq_Some_conv split: list.splits if_splits prod.splits dest!: i f e)
qed

lemma scalar_safe: "raw = None \<or> (\<exists>v. raw = Some v \<and> wf_json d v) \<Longrightarrow> 5 \<le> limit \<Longrightarrow> safe_text limit (scalarField raw limit)"
proof -
  assume raw: "raw = None \<or> (\<exists>v. raw = Some v \<and> wf_json d v)" and l: "5 \<le> limit"
  have nil: "safe_text limit []" by (simp add: safe_text_def)
  have num: "safe_text limit x" if "ok_num x" "length x \<le> limit" for x
  proof (rule safe_ascii [OF _ that(2)])
    have "scan_num (x @ []) = Some (x, [])" using that(1) unfolding ok_num_def by blast
    then show "\<forall>c \<in> set x. 32 \<le> byte_of c \<and> byte_of c < 0x7F" using scan_num_chars num_char_ascii by auto
  qed
  have bool: "safe_text limit ''true''" "safe_text limit ''false''"
    using l by (auto intro!: safe_ascii simp: byte_of_def)
  from raw show ?thesis
    by (auto simp: scalarField_def nil num bool sanitize_safe split: option.splits json.splits)
qed

definition fields_ok :: "error_fields \<Rightarrow> bool" where
  "fields_ok f \<longleftrightarrow> (\<forall>raw \<in> {ef_Type f, ef_Code f, ef_Message f}. raw = None \<or> (\<exists>v. raw = Some v \<and> wf_json 0 v))"

lemma dec_members_inv:
  assumes "\<And>t v r. P r \<Longrightarrow> wf_json 0 v \<Longrightarrow> P (fst (field t v r))" "\<forall>kv \<in> set ms. wf_json 0 (snd kv)" "P r"
  shows "P (fst (dec_members tags field ms (r, e)))"
  using assms(2,3)
proof (induction ms arbitrary: r e)
  case (Cons kv ms)
  obtain k v where [simp]: "kv = (k, v)" by fastforce
  show ?case
  proof (cases "find_tag tags (unquote k)")
    case (Some t)
    have "P (fst (field t v r))" using assms(1) Cons.prems by simp
    then show ?thesis using Cons.IH [of "fst (field t v r)"] Cons.prems Some by (auto split: prod.splits)
  qed (use Cons in simp)
qed simp

lemma dec_struct_inv:
  assumes "\<And>t v r. P r \<Longrightarrow> wf_json 0 v \<Longrightarrow> P (fst (field t v r))" "wf_json 0 v" "P r"
  shows "P (fst (dec_struct tags field v r))"
proof (cases v)
  case (JObj ms)
  then have "\<forall>kv \<in> set ms. wf_json 0 (snd kv)" using assms(2) wf_json_mono [of 1 _ 0] by auto
  from dec_members_inv [of P, OF assms(1) this assms(3)] JObj show ?thesis by simp
qed (use assms(3) in simp_all)

lemma dec_error_fields_ok: "fields_ok f \<Longrightarrow> wf_json 0 v \<Longrightarrow> fields_ok (fst (dec_error_fields t v f))"
  by (simp add: dec_error_fields_def fields_ok_def set_field_def)

definition envelope_ok :: "envelope \<Rightarrow> bool" where
  "envelope_ok e \<longleftrightarrow> fields_ok (ev_flat e) \<and> (\<forall>f. ev_Error e = Some f \<longrightarrow> fields_ok f)"

lemma no_fields_ok: "fields_ok no_fields"
  by (simp add: fields_ok_def no_fields_def)

lemma dec_envelope_ok: "envelope_ok e \<Longrightarrow> wf_json 0 v \<Longrightarrow> envelope_ok (fst (dec_envelope t v e))"
proof -
  assume e: "envelope_ok e" and v: "wf_json 0 v"
  have "fields_ok (fst (dec_struct [''type'', ''code'', ''message''] dec_error_fields v f))" if "fields_ok f" for f
    by (rule dec_struct_inv [where P = fields_ok]) (use dec_error_fields_ok v that in auto)
  with e no_fields_ok dec_error_fields_ok [OF _ v] show ?thesis
    by (auto simp: dec_envelope_def envelope_ok_def set_field_def dec_ptr_def split: prod.splits option.splits if_splits)
       (metis fst_conv)+
qed

lemma detail_safe:
  "safe_text maxDetailType (de_Type (upstreamDetail body)) \<and> safe_text maxDetailCode (de_Code (upstreamDetail body)) \<and>
   safe_text MaxMessageBytes (de_Message (upstreamDetail body))"
proof -
  let ?dec = "dec_struct [''object'', ''error'', ''type'', ''code'', ''message''] dec_envelope"
  let ?e0 = "\<lparr>ev_Object = [], ev_Error = None, ev_flat = no_fields\<rparr>"
  have nil: "safe_text n []" for n by (simp add: safe_text_def)
  have e0: "envelope_ok ?e0" by (simp add: envelope_ok_def no_fields_ok)
  have "envelope_ok (fst (unmarshal ?dec body ?e0))"
  proof (cases "json_parse body")
    case (Some v)
    then show ?thesis
      using dec_struct_inv [where P = envelope_ok, OF dec_envelope_ok json_parse_wf [OF Some] e0] by (simp add: unmarshal_def)
  qed (use e0 in \<open>simp add: unmarshal_def\<close>)
  moreover have "safe_text maxDetailType (scalarField (ef_Type f) maxDetailType) \<and> safe_text maxDetailCode (scalarField (ef_Code f) maxDetailCode) \<and>
      safe_text MaxMessageBytes (scalarField (ef_Message f) maxDetailMessage)" if "fields_ok f" for f
    using that scalar_safe [where d = 0] by (simp add: fields_ok_def maxDetailType_def maxDetailCode_def maxDetailMessage_def MaxMessageBytes_def)
  ultimately show ?thesis
    by (auto simp: upstreamDetail_def no_detail_def nil envelope_ok_def split: prod.splits option.splits)
qed

section \<open>Properties\<close>

text \<open>
  Whatever a backend answers, the diagnostic taken from it is safe to log and to relay: type and code
  have at most 64 bytes and the message at most 256, and each is valid UTF-8 without control characters (so
  without line breaks and terminal escapes) and without invisible format characters such as bidirectional
  overrides, also where a long text was cut.
\<close>

theorem upstreamDetail_safe:
  "safe_text maxDetailType (de_Type (upstreamDetail body)) \<and> safe_text maxDetailCode (de_Code (upstreamDetail body)) \<and>
   safe_text MaxMessageBytes (de_Message (upstreamDetail body))"
  by (rule detail_safe)

end
