(* ===== verification/Egress.thy ===== *)
theory Egress
  imports Diag Config
begin

text \<open>
  The egress side of a backend client: the network policy, base URLs, the policy-checking dialer and the
  classification of errors (\<^verbatim>\<open>src/internal/backend/backend.go\<close>), with the port list of the sandbox policy
  (\<^verbatim>\<open>src/internal/sandbox/sandbox.go\<close>).

  An IP address is the list of its 4 or 16 bytes, as \<^verbatim>\<open>net.IP\<close> has it. \<^verbatim>\<open>url.Parse\<close>, \<^verbatim>\<open>net.ParseIP\<close>,
  \<^verbatim>\<open>net.ParseCIDR\<close>, the resolver and the kernel's connect are parameters. An error is its chain of
  \<^verbatim>\<open>Unwrap\<close>, outermost first.
\<close>

unbundle bit_operations_syntax

section \<open>Definitions\<close>

subsection \<open>Errors\<close>

datatype backend_error = ErrConnect | ErrDialTimeout | ErrHeaderTimeout | ErrTimeout | ErrQueueFull | ErrQueueTimeout
  | ErrDraining | ErrPolicy | ErrTooLarge

fun class_text :: "backend_error \<Rightarrow> string" where
  "class_text ErrConnect = ''backend_connect''"
| "class_text ErrDialTimeout = ''backend_dial_timeout''"
| "class_text ErrHeaderTimeout = ''backend_header_timeout''"
| "class_text ErrTimeout = ''backend_timeout''"
| "class_text ErrQueueFull = ''backend_queue_full''"
| "class_text ErrQueueTimeout = ''backend_queue_timeout''"
| "class_text ErrDraining = ''backend_draining''"
| "class_text ErrPolicy = ''backend_network_policy''"
| "class_text ErrTooLarge = ''backend_response_too_large''"

record upstream =
  up_Status :: int
  up_Detail :: detail

text \<open>
  The errors that the code tells apart: the two context errors, the sentinels above, an answer of the backend,
  \<^verbatim>\<open>*net.DNSError\<close> with its timeout and temporary flags, \<^verbatim>\<open>*url.Error\<close> (whose \<^verbatim>\<open>Timeout\<close> asks the error inside),
  the \<^verbatim>\<open>net\<close> package's own timeout and cancel errors (which are the context errors to \<^verbatim>\<open>errors.Is\<close>), any other
  \<^verbatim>\<open>net.Error\<close> with what its \<^verbatim>\<open>Timeout\<close> says, and the rest.
\<close>

datatype err_node = Canceled | DeadlineExceeded | Sentinel backend_error | UpstreamErr upstream | DNSError bool bool
  | UrlError | NetTimeout | NetCanceled | NetError bool | OtherError string

type_synonym go_error = "err_node list"

definition is_canceled :: "go_error \<Rightarrow> bool" where
  "is_canceled e \<longleftrightarrow> Canceled \<in> set e \<or> NetCanceled \<in> set e"

definition is_deadline :: "go_error \<Rightarrow> bool" where
  "is_deadline e \<longleftrightarrow> DeadlineExceeded \<in> set e \<or> NetTimeout \<in> set e"

definition is_sentinel :: "backend_error \<Rightarrow> go_error \<Rightarrow> bool" where
  "is_sentinel s e \<longleftrightarrow> Sentinel s \<in> set e"

text \<open>The \<^verbatim>\<open>Timeout\<close> of the outermost error that has one, if it is a \<^verbatim>\<open>net.Error\<close> at all (\<^verbatim>\<open>errors.As\<close>).\<close>

fun node_timeout :: "err_node \<Rightarrow> bool option" where
  "node_timeout DeadlineExceeded = Some True"
| "node_timeout (DNSError t _) = Some t"
| "node_timeout NetTimeout = Some True"
| "node_timeout NetCanceled = Some False"
| "node_timeout (NetError t) = Some t"
| "node_timeout _ = None"

fun as_net_error :: "go_error \<Rightarrow> bool option" where
  "as_net_error [] = None"
| "as_net_error (n # e) =
     (case node_timeout n of
        Some t \<Rightarrow> Some t
      | None \<Rightarrow> if n = UrlError
                then Some (case e of UrlError # _ \<Rightarrow> as_net_error e = Some True | m # _ \<Rightarrow> node_timeout m = Some True | [] \<Rightarrow> False)
                else as_net_error e)"

fun as_dns :: "go_error \<Rightarrow> (bool \<times> bool) option" where
  "as_dns [] = None"
| "as_dns (DNSError t tmp # e) = Some (t, tmp)"
| "as_dns (_ # e) = as_dns e"

fun inside_url :: "go_error \<Rightarrow> go_error option" where
  "inside_url [] = None"
| "inside_url (n # e) = (if n = UrlError then Some e else inside_url e)"

definition isTimeout :: "go_error \<Rightarrow> bool" where
  "isTimeout err \<longleftrightarrow>
     (if is_deadline err then True
      else case as_dns err of Some (t, tmp) \<Rightarrow> t \<or> tmp | None \<Rightarrow> as_net_error err = Some True)"

definition dialError :: "go_error \<Rightarrow> go_error" where
  "dialError err =
     (if as_net_error err = Some True then [Sentinel ErrDialTimeout]
      else if is_deadline err then [Sentinel ErrDialTimeout]
      else [Sentinel ErrConnect])"

definition requestError :: "go_error \<Rightarrow> bool \<Rightarrow> go_error" where
  "requestError err stream =
     (if is_canceled err then [Canceled]
      else if is_sentinel ErrConnect err \<or> is_sentinel ErrPolicy err \<or> is_sentinel ErrDialTimeout err then err
      else case as_net_error err of
        Some t \<Rightarrow> if t then (if stream then [Sentinel ErrHeaderTimeout] else [Sentinel ErrTimeout]) else [Sentinel ErrConnect]
      | None \<Rightarrow> [Sentinel ErrConnect])"

definition bodyReadError :: "go_error \<Rightarrow> go_error" where
  "bodyReadError err0 =
     (if is_canceled err0 then [Canceled]
      else if is_deadline err0 then [Sentinel ErrTimeout]
      else let err = (case inside_url err0 of Some e \<Rightarrow> e | None \<Rightarrow> err0)
           in if as_net_error err = Some True then [Sentinel ErrTimeout] else [Sentinel ErrConnect])"

subsection \<open>Addresses and the policy\<close>

type_synonym ip = "nat list"

record ipnet =
  in_IP :: ip
  in_Mask :: "nat list"

definition To4 :: "ip \<Rightarrow> ip option" where
  "To4 ip = (if length ip = 4 then Some ip
     else if length ip = 16 \<and> take 12 ip = replicate 10 0 @ [255, 255] then Some (drop 12 ip) else None)"

definition IsLoopback :: "ip \<Rightarrow> bool" where
  "IsLoopback ip = (case To4 ip of Some v4 \<Rightarrow> hd v4 = 127 | None \<Rightarrow> ip = replicate 15 0 @ [1])"

definition network_and_mask :: "ipnet \<Rightarrow> ip \<times> nat list" where
  "network_and_mask n =
     (let ip = (case To4 (in_IP n) of Some v4 \<Rightarrow> v4 | None \<Rightarrow> in_IP n); m = in_Mask n in
      if To4 (in_IP n) = None \<and> length ip \<noteq> 16 then ([], [])
      else if length m = 4 then (if length ip \<noteq> 4 then ([], []) else (ip, m))
      else if length m = 16 then (if length ip = 4 then (ip, drop 12 m) else (ip, m))
      else ([], []))"

definition Contains :: "ipnet \<Rightarrow> ip \<Rightarrow> bool" where
  "Contains n ip =
     (let (nn, m) = network_and_mask n; x = (case To4 ip of Some v4 \<Rightarrow> v4 | None \<Rightarrow> ip) in
      length x = length nn \<and> list_all2 (\<lambda>(a, k) b. a AND k = b AND k) (zip nn m) x)"

record policy =
  po_Mode :: string
  po_CIDRs :: "ipnet list"

definition allow :: "policy \<Rightarrow> ip \<Rightarrow> bool" where
  "allow p ip =
     (if po_Mode p = ''any'' then True
      else if po_Mode p = ''allowed-cidrs''
      then list_ex (\<lambda>c. Contains c ip \<or> (case To4 ip of Some v4 \<Rightarrow> Contains c v4 | None \<Rightarrow> False)) (po_CIDRs p)
      else IsLoopback ip)"

definition parsePolicy :: "policy \<Rightarrow> string + policy" where
  "parsePolicy p =
     (if po_Mode p = ''loopback-only'' \<or> po_Mode p = ''any'' then Inr p
      else if po_Mode p = ''allowed-cidrs''
      then (if po_CIDRs p = [] then Inl ''network policy allowed-cidrs needs cidrs'' else Inr p)
      else Inl ''unsupported backend network mode'')"

record network_cfg =
  bn_Mode :: string
  bn_CIDRs :: "string list"

fun parse_cidrs :: "(string \<Rightarrow> ipnet option) \<Rightarrow> string list \<Rightarrow> (string + ipnet list)" where
  "parse_cidrs parseCIDR [] = Inr []"
| "parse_cidrs parseCIDR (c # cs) =
     (case parseCIDR c of
        None \<Rightarrow> Inl (''backend network CIDR is not a CIDR: '' @ c)
      | Some n \<Rightarrow> bind_sum (parse_cidrs parseCIDR cs) (\<lambda>ns. Inr (n # ns)))"

definition PolicyFromConfig :: "(string \<Rightarrow> ipnet option) \<Rightarrow> network_cfg \<Rightarrow> string + policy" where
  "PolicyFromConfig parseCIDR bn =
     bind_sum (parse_cidrs parseCIDR (bn_CIDRs bn)) (\<lambda>ns. parsePolicy \<lparr>po_Mode = bn_Mode bn, po_CIDRs = ns\<rparr>)"

subsection \<open>Base URLs\<close>

record url =
  u_Scheme :: string
  u_User :: bool
  u_Host :: string
  u_Path :: string
  u_RawQuery :: string
  u_Fragment :: string

text \<open>\<^verbatim>\<open>strings.LastIndexByte\<close> and \<^verbatim>\<open>strings.IndexByte\<close>.\<close>

fun index_byte :: "char \<Rightarrow> string \<Rightarrow> nat option" where
  "index_byte c [] = None"
| "index_byte c (x # xs) = (if x = c then Some 0 else map_option Suc (index_byte c xs))"

fun last_index_byte :: "char \<Rightarrow> string \<Rightarrow> nat option" where
  "last_index_byte c [] = None"
| "last_index_byte c (x # xs) =
     (case last_index_byte c xs of Some i \<Rightarrow> Some (Suc i) | None \<Rightarrow> if x = c then Some 0 else None)"

text \<open>\<^verbatim>\<open>net.SplitHostPort\<close>; \<open>None\<close> is its error.\<close>

definition net_SplitHostPort :: "string \<Rightarrow> (string \<times> string) option" where
  "net_SplitHostPort hp =
     (case last_index_byte (CHR '':'') hp of
        None \<Rightarrow> None
      | Some i \<Rightarrow>
          if hd hp = CHR ''['' then
            (case index_byte (CHR '']'') hp of
               None \<Rightarrow> None
             | Some e \<Rightarrow>
                 if e + 1 \<noteq> i then None
                 else if CHR ''['' \<in> set (drop 1 hp) \<or> CHR '']'' \<in> set (drop (e + 1) hp) then None
                 else Some (take (e - 1) (drop 1 hp), drop (i + 1) hp))
          else if CHR '':'' \<in> set (take i hp) then None
          else if CHR ''['' \<in> set hp \<or> CHR '']'' \<in> set hp then None
          else Some (take i hp, drop (i + 1) hp))"

text \<open>\<^verbatim>\<open>u.Hostname()\<close> and \<^verbatim>\<open>u.Port()\<close>.\<close>

definition validOptionalPort :: "string \<Rightarrow> bool" where
  "validOptionalPort s \<longleftrightarrow> s = [] \<or> hd s = CHR '':'' \<and> list_all is_digit (tl s)"

definition url_split :: "string \<Rightarrow> string \<times> string" where
  "url_split hp =
     (let (host, port) = (case last_index_byte (CHR '':'') hp of
            Some i \<Rightarrow> if validOptionalPort (drop i hp) then (take i hp, drop (i + 1) hp) else (hp, [])
          | None \<Rightarrow> (hp, []));
          host' = (if has_prefix host ''['' \<and> has_suffix host '']'' then butlast (tl host) else host)
      in (host', port))"

definition Hostname :: "url \<Rightarrow> string" where "Hostname u = fst (url_split (u_Host u))"
definition Port :: "url \<Rightarrow> string" where "Port u = snd (url_split (u_Host u))"

definition DefaultPortForScheme :: "string \<Rightarrow> string option" where
  "DefaultPortForScheme scheme =
     (if scheme = ''http'' then Some ''80'' else if scheme = ''https'' then Some ''443'' else None)"

definition splitHostPort :: "url \<Rightarrow> string \<times> string" where
  "splitHostPort u =
     (case net_SplitHostPort (u_Host u) of
        Some hp \<Rightarrow> hp
      | None \<Rightarrow> (Hostname u, case DefaultPortForScheme (u_Scheme u) of Some p \<Rightarrow> p | None \<Rightarrow> []))"

definition parseBaseURL :: "(string \<Rightarrow> url option) \<Rightarrow> string \<Rightarrow> string + url" where
  "parseBaseURL urlParse raw =
     (case urlParse raw of
        None \<Rightarrow> Inl ''malformed base_url''
      | Some u \<Rightarrow>
          if u_Scheme u \<noteq> ''http'' \<and> u_Scheme u \<noteq> ''https'' then Inl ''base_url scheme must be http or https''
          else if u_Fragment u \<noteq> [] then Inl ''base_url must not contain a fragment''
          else if u_User u then Inl ''base_url must not contain userinfo''
          else if u_RawQuery u \<noteq> [] then Inl ''base_url must not contain a query string''
          else if u_Path u \<noteq> [] \<and> u_Path u \<noteq> ''/'' then Inl ''base_url path must be empty or /''
          else if Hostname u = [] then Inl ''base_url must have a host''
          else if (case net_SplitHostPort (u_Host u) of Some (h, p) \<Rightarrow> p = [] | None \<Rightarrow> False)
          then Inl ''base_url port must not be empty''
          else Inr u)"

text \<open>\<^verbatim>\<open>strconv.ParseUint(s, 10, 16)\<close> and the port list of the sandbox.\<close>

definition parse_uint16 :: "string \<Rightarrow> nat option" where
  "parse_uint16 s =
     (let n = foldl (\<lambda>a c. a * 10 + (byte_of c - 48)) 0 s in
      if s = [] \<or> \<not> list_all is_digit s \<or> 65535 < n then None else Some n)"

definition backend_port :: "(string \<Rightarrow> url option) \<Rightarrow> string \<Rightarrow> string + nat" where
  "backend_port urlParse raw =
     (case urlParse raw of
        None \<Rightarrow> Inl ''backend base URL is not valid''
      | Some u \<Rightarrow>
          if u_Host u = [] then Inl ''backend base URL is not valid''
          else if u_Scheme u \<noteq> ''http'' \<and> u_Scheme u \<noteq> ''https'' then Inl ''unsupported scheme''
          else case (if Port u = [] then DefaultPortForScheme (u_Scheme u) else Some (Port u)) of
            None \<Rightarrow> Inl ''unsupported scheme''
          | Some port \<Rightarrow>
              (case parse_uint16 port of
                 None \<Rightarrow> Inl ''invalid TCP port''
               | Some n \<Rightarrow> if n < 1 then Inl ''invalid TCP port'' else Inr n))"

fun collect_ports :: "(string \<Rightarrow> url option) \<Rightarrow> string list \<Rightarrow> nat list \<Rightarrow> string + nat list" where
  "collect_ports urlParse [] ports = Inr ports"
| "collect_ports urlParse (raw # raws) ports =
     bind_sum (backend_port urlParse raw)
       (\<lambda>n. collect_ports urlParse raws (if n \<in> set ports then ports else ports @ [n]))"

definition BackendPorts :: "(string \<Rightarrow> url option) \<Rightarrow> string list \<Rightarrow> string + nat list" where
  "BackendPorts urlParse raws = bind_sum (collect_ports urlParse raws []) (\<lambda>ports. Inr (sort ports))"

subsection \<open>Dialing\<close>

text \<open>What the dialer decides before it connects: an error, or the address and port to connect to.\<close>

definition first_allowed :: "policy \<Rightarrow> ip list \<Rightarrow> ip option" where
  "first_allowed p ips = find (allow p) ips"

definition dial_target ::
  "policy \<Rightarrow> (string \<Rightarrow> ip option) \<Rightarrow> (string \<Rightarrow> go_error + ip list) \<Rightarrow> string \<Rightarrow> string \<Rightarrow> go_error + ip \<times> string" where
  "dial_target p parseIP lookup network addr =
     (if network \<notin> {''tcp'', ''tcp4'', ''tcp6''} then Inl [OtherError ''unexpected network'']
      else case net_SplitHostPort addr of
        None \<Rightarrow> Inl [Sentinel ErrConnect]
      | Some (host, port) \<Rightarrow>
          (case parseIP host of
             Some ip \<Rightarrow> if \<not> allow p ip then Inl [Sentinel ErrPolicy] else Inr (ip, port)
           | None \<Rightarrow>
               (case lookup host of
                  Inl err \<Rightarrow> if isTimeout err then Inl [Sentinel ErrDialTimeout] else Inl [Sentinel ErrConnect]
                | Inr ips \<Rightarrow> (case first_allowed p ips of None \<Rightarrow> Inl [Sentinel ErrPolicy] | Some ip \<Rightarrow> Inr (ip, port)))))"

definition dial_timeout :: "duration \<Rightarrow> duration" where
  "dial_timeout connectTimeout = (if connectTimeout = 0 then 30 * Second else connectTimeout)"

text \<open>\<open>connect\<close> is the kernel's answer for an address and port within the time limit.\<close>

definition policyDial ::
  "policy \<Rightarrow> duration \<Rightarrow> (string \<Rightarrow> ip option) \<Rightarrow> (duration \<Rightarrow> string \<Rightarrow> go_error + ip list) \<Rightarrow>
   (duration \<Rightarrow> ip \<times> string \<Rightarrow> go_error option) \<Rightarrow> string \<Rightarrow> string \<Rightarrow> go_error + ip \<times> string" where
  "policyDial p connectTimeout parseIP lookup connect network addr =
     bind_sum (dial_target p parseIP (lookup (dial_timeout connectTimeout)) network addr)
       (\<lambda>t. case connect (dial_timeout connectTimeout) t of Some err \<Rightarrow> Inl (dialError err) | None \<Rightarrow> Inr t)"

section \<open>Lemmas\<close>

lemma last_index_none: "c \<notin> set s \<Longrightarrow> last_index_byte c s = None"
  by (induction s) auto

lemma last_index_append: "c \<notin> set t \<Longrightarrow> last_index_byte c (s @ c # t) = Some (length s)"
  by (induction s) (auto simp: last_index_none)

lemma last_index_Some: "last_index_byte c s = Some i \<Longrightarrow> i < length s \<and> s ! i = c"
  by (induction s arbitrary: i) (auto split: option.splits if_splits)

lemma index_append: "c \<notin> set s \<Longrightarrow> index_byte c (s @ c # t) = Some (length s)"
  by (induction s) auto

text \<open>
  The host part of a URL that \<^verbatim>\<open>url.Parse\<close> returns: a name or an IPv4 address, or an IPv6 address in
  brackets, followed by an optional port.
\<close>

definition plain_host :: "string \<Rightarrow> bool" where
  "plain_host h \<longleftrightarrow> CHR '':'' \<notin> set h \<and> CHR ''['' \<notin> set h \<and> CHR '']'' \<notin> set h"

definition bracket_host :: "string \<Rightarrow> bool" where
  "bracket_host h \<longleftrightarrow> (\<exists>x. h = CHR ''['' # x @ '']'' \<and> CHR ''['' \<notin> set x \<and> CHR '']'' \<notin> set x)"

definition host_form :: "string \<Rightarrow> bool" where
  "host_form hp \<longleftrightarrow> (\<exists>h p. hp = h @ p \<and> validOptionalPort p \<and> (plain_host h \<or> bracket_host h))"

lemma digit_not: "is_digit c \<Longrightarrow> c \<noteq> CHR '':'' \<and> c \<noteq> CHR ''['' \<and> c \<noteq> CHR '']''"
  by (auto simp: is_digit_def byte_of_def)

lemma port_forms:
  assumes "validOptionalPort p"
  obtains "p = []" | ds where "p = CHR '':'' # ds" "CHR '':'' \<notin> set ds" "CHR ''['' \<notin> set ds" "CHR '']'' \<notin> set ds" "list_all is_digit ds"
proof (cases p)
  case Nil
  with that(1) show thesis .
next
  case (Cons c ds)
  then have "c = CHR '':''" "list_all is_digit ds" using assms by (auto simp: validOptionalPort_def)
  then show thesis using that(2) [of ds] Cons digit_not by (auto simp: list_all_iff)
qed

lemma bracket_no_port:
  assumes "bracket_host h"
  shows "net_SplitHostPort h = None" "snd (url_split h) = []"
proof -
  obtain x where h: "h = CHR ''['' # x @ '']''" "CHR ''['' \<notin> set x" "CHR '']'' \<notin> set x" using assms by (auto simp: bracket_host_def)
  have ix: "index_byte (CHR '']'') h = Some (length h - 1)"
    using index_append [of "CHR '']''" "CHR ''['' # x" "[]"] h(3) by (simp add: h(1))
  have li: "i < length h - 1" if "last_index_byte (CHR '':'') h = Some i" for i
  proof -
    have "i < length h" "h ! i = CHR '':''" using last_index_Some [OF that] by auto
    moreover have "h ! (length h - 1) = CHR '']''" by (simp add: h(1) nth_append)
    ultimately have "i \<noteq> length h - 1" by auto
    with \<open>i < length h\<close> show ?thesis by simp
  qed
  show "net_SplitHostPort h = None"
  proof (cases "last_index_byte (CHR '':'') h")
    case (Some i)
    have "length h - 1 + 1 \<noteq> i" "hd h = CHR ''[''" using li [OF Some] by (simp_all add: h(1))
    then show ?thesis by (simp add: net_SplitHostPort_def Some ix)
  qed (simp add: net_SplitHostPort_def)
  have bad: "\<not> validOptionalPort (drop i h)" if "i < length h - 1" for i
  proof -
    have "CHR '']'' \<in> set (tl (drop i h))"
      using that by (simp add: h(1) drop_Suc [symmetric] tl_drop [symmetric]) (cases i; simp add: drop_append)
    then show ?thesis using digit_not that h(1) by (auto simp: validOptionalPort_def list_all_iff)
  qed
  show "snd (url_split h) = []"
    using li bad by (auto simp: url_split_def Let_def split: option.splits)
qed

lemma split_agree:
  assumes "host_form hp"
  shows "net_SplitHostPort hp = None \<and> snd (url_split hp) = [] \<or>
    (\<exists>h. net_SplitHostPort hp = Some (h, snd (url_split hp)) \<and> (snd (url_split hp) = [] \<longleftrightarrow> last hp = CHR '':''))"
proof -
  obtain h p where hp: "hp = h @ p" "validOptionalPort p" "plain_host h \<or> bracket_host h" using assms by (auto simp: host_form_def)
  from hp(2) show ?thesis
  proof (cases rule: port_forms)
    case 1
    from hp(3) show ?thesis
    proof
      assume "plain_host h"
      then have "last_index_byte (CHR '':'') hp = None" using hp(1) 1 last_index_none by (simp add: plain_host_def)
      then show ?thesis by (simp add: net_SplitHostPort_def url_split_def)
    qed (use bracket_no_port hp(1) 1 in simp)
  next
    case (2 ds)
    have li: "last_index_byte (CHR '':'') hp = Some (length h)" using last_index_append [OF 2(2)] hp(1) 2(1) by simp
    have v: "validOptionalPort (drop (length h) hp)" "drop (length h + 1) hp = ds" "take (length h) hp = h"
      using hp(1,2) 2(1) by simp_all
    have u: "snd (url_split hp) = ds" using li v by (simp add: url_split_def Let_def)
    have l: "ds = [] \<longleftrightarrow> last hp = CHR '':''" using hp(1) 2 by (auto simp: last_append dest: last_in_set)
    from hp(3) have "\<exists>h'. net_SplitHostPort hp = Some (h', ds)"
    proof
      assume "plain_host h"
      moreover have "hd hp \<noteq> CHR ''[''" using \<open>plain_host h\<close> hp(1) 2(1) by (cases h) (auto simp: plain_host_def)
      ultimately show ?thesis using li v 2 hp(1) by (simp add: net_SplitHostPort_def plain_host_def)
    next
      assume "bracket_host h"
      then obtain x where h: "h = CHR ''['' # x @ '']''" "CHR ''['' \<notin> set x" "CHR '']'' \<notin> set x" by (auto simp: bracket_host_def)
      have "index_byte (CHR '']'') hp = Some (length h - 1)"
        using index_append [of "CHR '']''" "CHR ''['' # x" p] h(3) by (simp add: h(1) hp(1))
      then show ?thesis using li v 2 hp(1) h by (simp add: net_SplitHostPort_def)
    qed
    then show ?thesis using u l by auto
  qed
qed

text \<open>The two ways to find the port agree on every base URL that is accepted.\<close>

lemma port_agrees:
  assumes "parseBaseURL urlParse raw = Inr u" "host_form (u_Host u)"
  shows "urlParse raw = Some u" "u_Host u \<noteq> []"
    and "(if Port u = [] then DefaultPortForScheme (u_Scheme u) else Some (Port u)) = Some (snd (splitHostPort u))"
proof -
  have u: "urlParse raw = Some u" "u_Scheme u = ''http'' \<or> u_Scheme u = ''https''" "Hostname u \<noteq> []"
      "\<And>h. net_SplitHostPort (u_Host u) \<noteq> Some (h, [])"
    using assms(1) by (auto simp: parseBaseURL_def split: option.splits if_splits)
  show "urlParse raw = Some u" by fact
  show "u_Host u \<noteq> []" using u(3) by (auto simp: Hostname_def url_split_def has_prefix_def)
  show "(if Port u = [] then DefaultPortForScheme (u_Scheme u) else Some (Port u)) = Some (snd (splitHostPort u))"
    using split_agree [OF assms(2)]
  proof
    assume "net_SplitHostPort (u_Host u) = None \<and> snd (url_split (u_Host u)) = []"
    then show ?thesis using u(2) by (auto simp: splitHostPort_def Port_def DefaultPortForScheme_def)
  next
    assume "\<exists>h. net_SplitHostPort (u_Host u) = Some (h, snd (url_split (u_Host u))) \<and>
      (snd (url_split (u_Host u)) = [] \<longleftrightarrow> last (u_Host u) = CHR '':'')"
    then show ?thesis using u(4) by (fastforce simp: splitHostPort_def Port_def)
  qed
qed

lemma collect_ports_set:
  "collect_ports urlParse raws ports = Inr ps \<Longrightarrow> distinct ports \<Longrightarrow>
     distinct ps \<and> set ps = set ports \<union> {n. \<exists>raw \<in> set raws. backend_port urlParse raw = Inr n} \<and>
     (\<forall>raw \<in> set raws. \<exists>n. backend_port urlParse raw = Inr n)"
proof (induction raws arbitrary: ports)
  case (Cons raw raws)
  obtain n where n: "backend_port urlParse raw = Inr n" "collect_ports urlParse raws (if n \<in> set ports then ports else ports @ [n]) = Inr ps"
    using Cons.prems(1) by (auto simp: bind_sum_Inr)
  have "distinct (if n \<in> set ports then ports else ports @ [n])" using Cons.prems(2) by simp
  from Cons.IH [OF n(2) this] n(1) show ?case by auto
qed simp

lemma backend_port_range: "backend_port urlParse raw = Inr n \<Longrightarrow> 1 \<le> n \<and> n \<le> 65535"
  by (auto simp: backend_port_def parse_uint16_def Let_def split: option.splits if_splits)

section \<open>Properties\<close>

text \<open>
  C13: Egress control. No connection is made to an address the policy does not allow, and the kernel is not even
  asked for one: the outcome of a dial depends on the connects to allowed addresses alone. This holds for
  addresses written in the URL and for every answer of the resolver, on each new connection.
\<close>

theorem dial_respects_policy:
  "(\<forall>t. policyDial p timeout parseIP lookup connect network addr = Inr t \<longrightarrow> allow p (fst t)) \<and>
   ((\<forall>d t. allow p (fst t) \<longrightarrow> connect d t = connect' d t) \<longrightarrow>
     policyDial p timeout parseIP lookup connect network addr = policyDial p timeout parseIP lookup connect' network addr)"
proof -
  have t: "allow p (fst t)" if "dial_target p parseIP l network addr = Inr t" for t l
    using that by (auto simp: dial_target_def first_allowed_def find_Some_iff split: if_splits option.splits sum.splits)
  have "policyDial p timeout parseIP lookup connect network addr = policyDial p timeout parseIP lookup connect' network addr"
    if "\<forall>d t. allow p (fst t) \<longrightarrow> connect d t = connect' d t"
    using that t [of "lookup (dial_timeout timeout)"]
    by (cases "dial_target p parseIP (lookup (dial_timeout timeout)) network addr") (auto simp: policyDial_def)
  moreover have "allow p (fst t)" if "policyDial p timeout parseIP lookup connect network addr = Inr t" for t
    using that t by (auto simp: policyDial_def bind_sum_Inr split: option.splits)
  ultimately show ?thesis by blast
qed

theorem dial_respects_policy_witness:
  "policyDial \<lparr>po_Mode = ''loopback-only'', po_CIDRs = []\<rparr> 0 (\<lambda>h. None) (\<lambda>d h. Inr [[10, 0, 0, 1], [127, 0, 0, 1]]) (\<lambda>d t. None) ''tcp'' ''db:80''
     = Inr ([127, 0, 0, 1], ''80'') \<and> allow \<lparr>po_Mode = ''loopback-only'', po_CIDRs = []\<rparr> [127, 0, 0, 1]"
proof -
  have "policyDial \<lparr>po_Mode = ''loopback-only'', po_CIDRs = []\<rparr> 0 (\<lambda>h. None) (\<lambda>d h. Inr [[10, 0, 0, 1], [127, 0, 0, 1]]) (\<lambda>d t. None) ''tcp'' ''db:80''
     = Inr ([127, 0, 0, 1], ''80'')"
    by (simp add: policyDial_def dial_target_def net_SplitHostPort_def first_allowed_def allow_def IsLoopback_def To4_def)
  with dial_respects_policy [of "\<lparr>po_Mode = ''loopback-only'', po_CIDRs = []\<rparr>" 0 "\<lambda>h. None"
      "\<lambda>d h. Inr [[10, 0, 0, 1], [127, 0, 0, 1]]" "\<lambda>d t. None" "''tcp''" "''db:80''" "\<lambda>d t. None"]
  show ?thesis by auto
qed

text \<open>
  The sandbox and the dialer agree on the port of every accepted base URL. The port list of the sandbox
  policy is sorted, without duplicates, in range, and contains the port that the client derives from each base
  URL, spelled out or implied by the scheme.
\<close>

theorem sandbox_grants_backend_ports:
  assumes "BackendPorts urlParse raws = Inr ps" "raw \<in> set raws"
    and "parseBaseURL urlParse raw = Inr u" "host_form (u_Host u)"
  shows "(\<exists>n \<in> set ps. parse_uint16 (snd (splitHostPort u)) = Some n) \<and>
    sorted ps \<and> distinct ps \<and> (\<forall>n \<in> set ps. 1 \<le> n \<and> n \<le> 65535)"
proof -
  obtain qs where q: "collect_ports urlParse raws [] = Inr qs" "ps = sort qs"
    using assms(1) by (auto simp: BackendPorts_def bind_sum_Inr)
  note c = collect_ports_set [OF q(1)]
  obtain n where n: "backend_port urlParse raw = Inr n" using c assms(2) by auto
  have "parse_uint16 (snd (splitHostPort u)) = Some n"
    using n port_agrees [OF assms(3,4)] by (auto simp: backend_port_def split: option.splits if_splits)
  then show ?thesis using c q(2) n assms(2) backend_port_range by auto
qed

definition ex_url :: url where
  "ex_url = \<lparr>u_Scheme = ''http'', u_User = False, u_Host = ''10.0.0.1:8000'', u_Path = [], u_RawQuery = [], u_Fragment = []\<rparr>"

theorem sandbox_grants_backend_ports_witness:
  "\<exists>n \<in> set [8000]. parse_uint16 (snd (splitHostPort ex_url)) = Some n"
proof -
  have b: "BackendPorts (\<lambda>_. Some ex_url) [''http://10.0.0.1:8000''] = Inr [8000]"
    by (simp add: BackendPorts_def backend_port_def ex_url_def Port_def url_split_def validOptionalPort_def parse_uint16_def
        is_digit_def byte_of_def)
  have p: "parseBaseURL (\<lambda>_. Some ex_url) ''http://10.0.0.1:8000'' = Inr ex_url"
    by (simp add: parseBaseURL_def ex_url_def Hostname_def url_split_def validOptionalPort_def net_SplitHostPort_def has_prefix_def)
  have h: "host_form (u_Host ex_url)"
    unfolding host_form_def
    by (rule exI [of _ "''10.0.0.1''"], rule exI [of _ "'':8000''"])
       (simp add: ex_url_def plain_host_def validOptionalPort_def is_digit_def byte_of_def)
  show ?thesis using sandbox_grants_backend_ports [OF b _ p h] by simp
qed

end
