(* ===== verification/Settings.thy ===== *)
theory Settings
  imports Config Egress
begin

text \<open>
  The rest of the normalized runtime configuration (\<^verbatim>\<open>src/internal/config/config.go\<close>): the sections that only the
  ingress and the loader read, and the whole \<^verbatim>\<open>Config\<close>.
\<close>

section \<open>Definitions\<close>

record auth_cfg =
  au_UsersFile :: string
  au_PepperFile :: string

record landlock_cfg =
  ll_Mode :: string
  ll_MinimumABI :: int

record security_cfg =
  sc_BackendNetwork :: network_cfg
  sc_Landlock :: landlock_cfg
  sc_Seatbelt_Mode :: string

record logging_cfg =
  lg_Format :: string
  lg_Level :: string

record limits_cfg =
  lm_GlobalRequestsPerSecond :: float64
  lm_GlobalBurst :: int
  lm_PreauthRequestsPerSecond :: float64
  lm_PreauthBurst :: int
  lm_AuthFailureLogRate :: float64

record config =
  cf_Version :: int
  cf_Server :: server_cfg
  cf_Auth :: auth_cfg
  cf_Security :: security_cfg
  cf_Logging :: logging_cfg
  cf_Accounting :: accounting_cfg
  cf_Limits :: limits_cfg
  cf_GracePeriod :: duration
  cf_Responses :: responses_cfg
  cf_Retry :: retry_cfg
  cf_Backends :: "(string \<times> backend_cfg) list"
  cf_Models :: "(string \<times> model_cfg) list"

end
