(* ===== verification/Backend.thy ===== *)
theory Backend
  imports Egress Slots
begin

text \<open>
  The backend client (\<^verbatim>\<open>src/internal/backend/backend.go\<close>): construction, the admission pool with its queue,
  timeout and drain, and \<^verbatim>\<open>Forward\<close>.

  The pool's two channels are counters with a capacity. \<^verbatim>\<open>acquire\<close> is taken apart at its \<^verbatim>\<open>select\<close> statements:
  a thread is in one of a few phases, and a step takes one ready case of the select it stands at, which Go
  chooses freely. What the context and the timer say at that moment is part of the step. \<^verbatim>\<open>Forward\<close> takes the
  outcome of \<^verbatim>\<open>acquire\<close> and the behaviour of the HTTP transport as parameters.
\<close>

section \<open>Definitions\<close>

subsection \<open>Admission\<close>

record admission =
  ad_queue :: int
  ad_queue_cap :: int
  ad_conc :: int
  ad_conc_cap :: int
  ad_queueTimeout :: duration
  ad_drain :: bool

definition NewAdmission :: "backend_cfg \<Rightarrow> admission" where
  "NewAdmission cfg = \<lparr>ad_queue = 0, ad_queue_cap = max (be_QueueSize cfg) 0, ad_conc = 0,
     ad_conc_cap = max (be_MaxConcurrency cfg) 1, ad_queueTimeout = be_QueueTimeout cfg, ad_drain = False\<rparr>"

definition Drain :: "admission \<Rightarrow> admission" where
  "Drain a = a\<lparr>ad_drain := True\<rparr>"

definition conc_ready :: "admission \<Rightarrow> bool" where "conc_ready a \<longleftrightarrow> ad_conc a < ad_conc_cap a"
definition queue_ready :: "admission \<Rightarrow> bool" where "queue_ready a \<longleftrightarrow> ad_queue a < ad_queue_cap a"

definition take_conc :: "admission \<Rightarrow> admission" where "take_conc a = a\<lparr>ad_conc := ad_conc a + 1\<rparr>"
definition take_queue :: "admission \<Rightarrow> admission" where "take_queue a = a\<lparr>ad_queue := ad_queue a + 1\<rparr>"
definition hold_release :: "admission \<Rightarrow> admission" where "hold_release a = a\<lparr>ad_conc := ad_conc a - 1\<rparr>"
definition give_queue :: "admission \<Rightarrow> admission" where "give_queue a = a\<lparr>ad_queue := ad_queue a - 1\<rparr>"

text \<open>The send of the fast path as one operation, for the slot-pool interface.\<close>

definition try_conc :: "admission \<Rightarrow> admission \<times> bool" where
  "try_conc a = (if conc_ready a then (take_conc a, True) else (a, False))"

text \<open>
  Where a thread of \<^verbatim>\<open>acquire\<close> stands: at the check for drain, at the select of the fast path, at the select for a
  queue slot, at the re-check of the context after a full queue, at the waiting select, at the re-check after the
  timer; about to run the deferred queue release, with a slot or with an error; returned with a slot, returned
  with an error, or finished after releasing its slot.
\<close>

datatype acq = AStart | AFast | AQueue | AFull | AWait | ATimer | AAdmit | ALeave go_error | AHold | AFail go_error | ADone

datatype pick = PickConc | PickQueue | PickCtx | PickDrain | PickTimer | PickDefault

fun acq_next :: "admission \<Rightarrow> acq \<Rightarrow> go_error option \<Rightarrow> bool \<Rightarrow> pick \<Rightarrow> (admission \<times> acq) option" where
  "acq_next a AStart ctx timer PickDrain = (if ad_drain a then Some (a, AFail [Sentinel ErrDraining]) else None)"
| "acq_next a AStart ctx timer PickDefault = (if \<not> ad_drain a then Some (a, AFast) else None)"
| "acq_next a AFast ctx timer PickConc = (if conc_ready a then Some (take_conc a, AHold) else None)"
| "acq_next a AFast ctx timer PickCtx = (case ctx of Some e \<Rightarrow> Some (a, AFail e) | None \<Rightarrow> None)"
| "acq_next a AFast ctx timer PickDefault = (if \<not> conc_ready a \<and> ctx = None then Some (a, AQueue) else None)"
| "acq_next a AQueue ctx timer PickQueue = (if queue_ready a then Some (take_queue a, AWait) else None)"
| "acq_next a AQueue ctx timer PickCtx = (case ctx of Some e \<Rightarrow> Some (a, AFail e) | None \<Rightarrow> None)"
| "acq_next a AQueue ctx timer PickDefault = (if \<not> queue_ready a \<and> ctx = None then Some (a, AFull) else None)"
| "acq_next a AFull ctx timer PickCtx = (case ctx of Some e \<Rightarrow> Some (a, AFail e) | None \<Rightarrow> None)"
| "acq_next a AFull ctx timer PickDefault = (if ctx = None then Some (a, AFail [Sentinel ErrQueueFull]) else None)"
| "acq_next a AWait ctx timer PickConc = (if conc_ready a then Some (take_conc a, AAdmit) else None)"
| "acq_next a AWait ctx timer PickCtx = (case ctx of Some e \<Rightarrow> Some (a, ALeave e) | None \<Rightarrow> None)"
| "acq_next a AWait ctx timer PickDrain = (if ad_drain a then Some (a, ALeave [Sentinel ErrDraining]) else None)"
| "acq_next a AWait ctx timer PickTimer = (if timer then Some (a, ATimer) else None)"
| "acq_next a ATimer ctx timer PickCtx = (case ctx of Some e \<Rightarrow> Some (a, ALeave e) | None \<Rightarrow> None)"
| "acq_next a ATimer ctx timer PickDefault = (if ctx = None then Some (a, ALeave [Sentinel ErrQueueTimeout]) else None)"
| "acq_next a AAdmit ctx timer PickDefault = Some (give_queue a, AHold)"
| "acq_next a (ALeave e) ctx timer PickDefault = Some (give_queue a, AFail e)"
| "acq_next a _ ctx timer _ = None"

definition Inflight :: "admission \<Rightarrow> int" where
  "Inflight a = ad_queue a + ad_conc a"

text \<open>Any number of threads on one pool: a new call, a step of one thread, a release by a holder, the drain.\<close>

record adm_sys =
  as_pool :: admission
  as_threads :: "acq list"

inductive adm_reach :: "backend_cfg \<Rightarrow> adm_sys \<Rightarrow> bool" for cfg where
  adm_init: "adm_reach cfg \<lparr>as_pool = NewAdmission cfg, as_threads = []\<rparr>"
| adm_call: "adm_reach cfg s \<Longrightarrow> adm_reach cfg (s\<lparr>as_threads := as_threads s @ [AStart]\<rparr>)"
| adm_step: "adm_reach cfg s \<Longrightarrow> i < length (as_threads s) \<Longrightarrow>
    acq_next (as_pool s) (as_threads s ! i) ctx timer ch = Some (a, t) \<Longrightarrow>
    adm_reach cfg \<lparr>as_pool = a, as_threads = (as_threads s)[i := t]\<rparr>"
| adm_release: "adm_reach cfg s \<Longrightarrow> i < length (as_threads s) \<Longrightarrow> as_threads s ! i = AHold \<Longrightarrow>
    adm_reach cfg \<lparr>as_pool = hold_release (as_pool s), as_threads = (as_threads s)[i := ADone]\<rparr>"
| adm_drain: "adm_reach cfg s \<Longrightarrow> adm_reach cfg (s\<lparr>as_pool := Drain (as_pool s)\<rparr>)"

section \<open>Lemmas\<close>

definition holds_conc :: "acq \<Rightarrow> bool" where "holds_conc t \<longleftrightarrow> t = AAdmit \<or> t = AHold"

fun holds_queue :: "acq \<Rightarrow> bool" where
  "holds_queue AWait = True"
| "holds_queue ATimer = True"
| "holds_queue AAdmit = True"
| "holds_queue (ALeave e) = True"
| "holds_queue _ = False"

definition pool_ok :: "admission \<Rightarrow> bool" where
  "pool_ok a \<longleftrightarrow> 0 \<le> ad_conc a \<and> ad_conc a \<le> ad_conc_cap a \<and> 0 \<le> ad_queue a \<and> ad_queue a \<le> ad_queue_cap a"

lemmas pool_defs = take_conc_def take_queue_def hold_release_def give_queue_def conc_ready_def queue_ready_def Drain_def

interpretation backend_slots: slot_pool pool_ok ad_conc_cap ad_conc try_conc hold_release
  by unfold_locales (auto simp: pool_ok_def try_conc_def pool_defs)

fun adm_count :: "(acq \<Rightarrow> bool) \<Rightarrow> acq list \<Rightarrow> int" where
  "adm_count P [] = 0"
| "adm_count P (t # ts) = (if P t then 1 else 0) + adm_count P ts"

lemma adm_count_append [simp]: "adm_count P (ts @ us) = adm_count P ts + adm_count P us"
  by (induction ts) auto

lemma adm_count_upd:
  "i < length ts \<Longrightarrow> adm_count P (ts[i := t]) = adm_count P ts - (if P (ts ! i) then 1 else 0) + (if P t then 1 else 0)"
proof (induction ts arbitrary: i)
  case (Cons x ts)
  then show ?case by (cases i) auto
qed simp

lemma adm_count_nonneg: "0 \<le> adm_count P ts"
  by (induction ts) auto

lemma adm_count_pos: "i < length ts \<Longrightarrow> P (ts ! i) \<Longrightarrow> 1 \<le> adm_count P ts"
proof (induction ts arbitrary: i)
  case (Cons x ts)
  then show ?case using adm_count_nonneg [of P ts] by (cases i) fastforce+
qed simp

text \<open>A step moves each counter by exactly what the thread takes or gives.\<close>

lemma acq_next_counts:
  assumes "acq_next a t ctx timer ch = Some (a', t')"
  shows "ad_conc a' = ad_conc a - (if holds_conc t then 1 else 0) + (if holds_conc t' then 1 else 0)"
    and "ad_queue a' = ad_queue a - (if holds_queue t then 1 else 0) + (if holds_queue t' then 1 else 0)"
    and "ad_conc_cap a' = ad_conc_cap a" "ad_queue_cap a' = ad_queue_cap a"
    and "ad_conc a < ad_conc a' \<Longrightarrow> ad_conc a < ad_conc_cap a" "ad_queue a < ad_queue a' \<Longrightarrow> ad_queue a < ad_queue_cap a"
    and "ad_drain a' = ad_drain a"
  using assms
  by (cases "(a, t, ctx, timer, ch)" rule: acq_next.cases; auto simp: holds_conc_def pool_defs split: if_splits option.splits)+

definition adm_inv :: "backend_cfg \<Rightarrow> adm_sys \<Rightarrow> bool" where
  "adm_inv cfg s \<longleftrightarrow> pool_ok (as_pool s) \<and> ad_conc (as_pool s) = adm_count holds_conc (as_threads s) \<and>
     ad_queue (as_pool s) = adm_count holds_queue (as_threads s) \<and>
     ad_conc_cap (as_pool s) = max (be_MaxConcurrency cfg) 1 \<and> ad_queue_cap (as_pool s) = max (be_QueueSize cfg) 0"

lemma adm_invariant: "adm_reach cfg s \<Longrightarrow> adm_inv cfg s"
proof (induction rule: adm_reach.induct)
  case adm_init
  then show ?case by (simp add: adm_inv_def pool_ok_def NewAdmission_def)
next
  case (adm_call s)
  then show ?case by (simp add: adm_inv_def holds_conc_def)
next
  case (adm_step s i ctx timer ch a t)
  note c = acq_next_counts [OF adm_step(3)]
  have p: "holds_conc (as_threads s ! i) \<longrightarrow> 1 \<le> ad_conc (as_pool s)" "holds_queue (as_threads s ! i) \<longrightarrow> 1 \<le> ad_queue (as_pool s)"
    using adm_step.IH adm_count_pos [OF adm_step(2)] by (auto simp: adm_inv_def)
  have "pool_ok a" using adm_step.IH c p by (auto simp: adm_inv_def pool_ok_def split: if_splits)
  then show ?case using adm_step.IH c adm_count_upd [OF adm_step(2)] by (simp add: adm_inv_def)
next
  case (adm_release s i)
  then show ?case using adm_count_pos [OF adm_release(2), of holds_conc] adm_count_upd [OF adm_release(2)]
    by (auto simp: adm_inv_def pool_ok_def holds_conc_def pool_defs)
next
  case (adm_drain s)
  then show ?case by (simp add: adm_inv_def pool_ok_def pool_defs)
qed

text \<open>How far a call still is from its answer; every step brings it nearer.\<close>

fun acq_rank :: "acq \<Rightarrow> nat" where
  "acq_rank AStart = 6"
| "acq_rank AFast = 5"
| "acq_rank AQueue = 4"
| "acq_rank AFull = 1"
| "acq_rank AWait = 3"
| "acq_rank ATimer = 2"
| "acq_rank AAdmit = 1"
| "acq_rank (ALeave e) = 1"
| "acq_rank _ = 0"

lemma acq_rank_decreases: "acq_next a t ctx timer ch = Some (a', t') \<Longrightarrow> acq_rank t' < acq_rank t"
  by (cases "(a, t, ctx, timer, ch)" rule: acq_next.cases; auto split: if_splits option.splits)

lemma acq_stuck:
  "(\<forall>ch. acq_next a t ctx timer ch = None) \<longleftrightarrow>
     t = AHold \<or> t = ADone \<or> (\<exists>e. t = AFail e) \<or> (t = AWait \<and> \<not> conc_ready a \<and> ctx = None \<and> \<not> ad_drain a \<and> \<not> timer)"
proof -
  have ex: "(\<forall>ch. P ch) \<longleftrightarrow> P PickConc \<and> P PickQueue \<and> P PickCtx \<and> P PickDrain \<and> P PickTimer \<and> P PickDefault" for P
    by (metis pick.exhaust)
  show ?thesis unfolding ex by (cases t) (auto split: option.splits)
qed

section \<open>Properties\<close>

text \<open>
  C12: The admission pool of a server is never over-committed. In every reachable state of any number of requests
  on it, the concurrency counter is the number of requests that hold a slot and is within max_concurrency (at
  least 1), the queue counter is the number of waiters, a just-admitted one included, and is within queue_size;
  cancellations, timeouts and draining give back exactly what was taken.
\<close>

theorem admission_bounded:
  assumes "adm_reach cfg s"
  shows "ad_conc (as_pool s) = adm_count holds_conc (as_threads s) \<and> ad_conc (as_pool s) \<le> max (be_MaxConcurrency cfg) 1 \<and>
    ad_queue (as_pool s) = adm_count holds_queue (as_threads s) \<and> ad_queue (as_pool s) \<le> max (be_QueueSize cfg) 0 \<and>
    0 \<le> Inflight (as_pool s)"
  using adm_invariant [OF assms] by (auto simp: adm_inv_def pool_ok_def Inflight_def)

definition ex_cfg :: backend_cfg where
  "ex_cfg = \<lparr>be_Server = ''s'', be_BaseURL = ''http://127.0.0.1:8000'', be_UpstreamModel = ''m'', be_APIKeyFile = [],
     be_ConnectTimeout = Second, be_HeaderTimeout = Second, be_RequestTimeout = Minute, be_StreamIdleTimeout = Minute,
     be_MaxConcurrency = 1, be_QueueSize = 1, be_QueueTimeout = Second, be_RelayUpstreamErrors = False\<rparr>"

theorem admission_bounded_witness:
  "adm_reach ex_cfg \<lparr>as_pool = take_conc (NewAdmission ex_cfg), as_threads = [AHold]\<rparr> \<and>
   ad_conc (take_conc (NewAdmission ex_cfg)) \<le> max (be_MaxConcurrency ex_cfg) 1"
proof -
  have "adm_reach ex_cfg \<lparr>as_pool = NewAdmission ex_cfg, as_threads = [AStart]\<rparr>"
    using adm_call [OF adm_init] by simp
  from adm_step [OF this, of 0 None False PickDefault]
  have "adm_reach ex_cfg \<lparr>as_pool = NewAdmission ex_cfg, as_threads = [AFast]\<rparr>" by (simp add: NewAdmission_def)
  from adm_step [OF this, of 0 None False PickConc]
  have "adm_reach ex_cfg \<lparr>as_pool = take_conc (NewAdmission ex_cfg), as_threads = [AHold]\<rparr>"
    by (simp add: conc_ready_def NewAdmission_def ex_cfg_def)
  with admission_bounded [OF this] show ?thesis by simp
qed

text \<open>
  Every call of \<^verbatim>\<open>acquire\<close> comes to an answer. A call takes at most six steps; it can be stuck only at the
  waiting select while the server is saturated, and not any more once its queue timeout has fired, its client has
  gone or the daemon is draining. A call that starts after the drain is refused without touching the pool.
\<close>

theorem acquire_terminates:
  "(acq_next a t ctx timer ch = Some (a', t') \<longrightarrow> acq_rank t' < acq_rank t \<and> acq_rank t \<le> 6) \<and>
   ((\<forall>e. t \<noteq> AFail e) \<and> t \<noteq> AHold \<and> t \<noteq> ADone \<and> (timer \<or> ctx \<noteq> None \<or> ad_drain a \<or> conc_ready a) \<longrightarrow>
     (\<exists>ch r. acq_next a t ctx timer ch = Some r)) \<and>
   (ad_drain a \<and> acq_next a AStart ctx timer ch = Some (a', t') \<longrightarrow> a' = a \<and> t' = AFail [Sentinel ErrDraining])"
proof -
  have "acq_rank t \<le> 6" by (cases t) simp_all
  moreover have "ad_drain a \<Longrightarrow> acq_next a AStart ctx timer ch = Some (a', t') \<Longrightarrow> a' = a \<and> t' = AFail [Sentinel ErrDraining]"
    by (cases ch) (auto split: if_splits)
  ultimately show ?thesis using acq_rank_decreases acq_stuck [of a t ctx timer] by (metis not_Some_eq)
qed

theorem acquire_terminates_witness:
  "\<exists>ch r. acq_next (NewAdmission ex_cfg) AWait None True ch = Some r"
  using acquire_terminates [of "NewAdmission ex_cfg" AWait None True] by simp

end
