(* ===== verification/Client.thy ===== *)
theory Client
  imports Backend
begin

text \<open>
  Construction of a backend client and \<^verbatim>\<open>Forward\<close> (\<^verbatim>\<open>src/internal/backend/backend.go\<close>). The secure file read, the URL and
  IP parsers and the HTTP transport are parameters; the answer of the transport is an error or a response with
  the bytes its body will give and the error after them, \<open>None\<close> for a clean end.
\<close>

section \<open>Definitions\<close>

subsection \<open>Headers\<close>

text \<open>\<^verbatim>\<open>http.Header\<close>: canonical keys, each with its values. \<open>canon_key\<close> is \<^verbatim>\<open>textproto.CanonicalMIMEHeaderKey\<close>.\<close>

type_synonym headers = "(string \<times> string list) list"

definition valid_field_byte :: "char \<Rightarrow> bool" where
  "valid_field_byte c \<longleftrightarrow> is_digit c \<or> is_lower c \<or> is_upper c \<or> c \<in> set ''!#$%&*+-.^_`|~'' \<or> c = CHR 0x27"

fun canon :: "bool \<Rightarrow> string \<Rightarrow> string" where
  "canon up [] = []"
| "canon up (c # cs) =
     (let c' = (if up \<and> is_lower c then char_of (byte_of c - 32) else if \<not> up \<and> is_upper c then char_of (byte_of c + 32) else c)
      in c' # canon (c' = CHR ''-'') cs)"

definition canon_key :: "string \<Rightarrow> string" where
  "canon_key s = (if list_all valid_field_byte s then canon True s else s)"

definition hdr_values :: "headers \<Rightarrow> string \<Rightarrow> string list" where
  "hdr_values h k = (case map_of h (canon_key k) of Some vs \<Rightarrow> vs | None \<Rightarrow> [])"

definition hdr_add :: "headers \<Rightarrow> string \<Rightarrow> string \<Rightarrow> headers" where
  "hdr_add h k v = AList.update (canon_key k) (hdr_values h k @ [v]) h"

definition hdr_set :: "headers \<Rightarrow> string \<Rightarrow> string \<Rightarrow> headers" where
  "hdr_set h k v = AList.update (canon_key k) [v] h"

definition hdr_get :: "headers \<Rightarrow> string \<Rightarrow> string" where
  "hdr_get h k = (case hdr_values h k of [] \<Rightarrow> [] | v # _ \<Rightarrow> v)"

subsection \<open>Construction\<close>

text \<open>\<^verbatim>\<open>strings.TrimSpace\<close>: white space is recognised by the encodings of the white-space runes.\<close>

definition space_encodings :: "string list" where
  "space_encodings = map encode_rune ([9, 10, 11, 12, 13, 32, 0x85, 0xA0, 0x1680] @ [0x2000..<0x200B] @ [0x2028, 0x2029, 0x202F, 0x205F, 0x3000])"

definition space_prefix :: "(string \<Rightarrow> string \<Rightarrow> bool) \<Rightarrow> string \<Rightarrow> string option" where
  "space_prefix has s = find (has s) space_encodings"

lemma space_encoding_nonempty: "e \<in> set space_encodings \<Longrightarrow> e \<noteq> []"
  unfolding space_encodings_def set_map by (erule imageE) (simp only: decode_encode(2) not_False_eq_True)

lemma find_SomeD: "find P xs = Some x \<Longrightarrow> x \<in> set xs \<and> P x"
  by (induction xs) (auto split: if_splits)

lemma space_prefix_nonempty: "space_prefix has s = Some e \<Longrightarrow> 0 < length e \<and> has s e"
  using find_SomeD [of "has s" space_encodings e] space_encoding_nonempty [of e] by (simp add: space_prefix_def)

function trim_left :: "string \<Rightarrow> string" where
  "trim_left s = (case space_prefix has_prefix s of Some e \<Rightarrow> trim_left (drop (length e) s) | None \<Rightarrow> s)"
  by auto
termination
  by (relation "measure length") (auto dest!: space_prefix_nonempty simp: has_prefix_iff)

function trim_right :: "string \<Rightarrow> string" where
  "trim_right s = (case space_prefix has_suffix s of Some e \<Rightarrow> trim_right (take (length s - length e) s) | None \<Rightarrow> s)"
  by auto
termination
  by (relation "measure length") (auto dest!: space_prefix_nonempty simp: has_suffix_iff)

declare trim_left.simps [simp del] trim_right.simps [simp del]

definition TrimSpace :: "string \<Rightarrow> string" where
  "TrimSpace s = trim_right (trim_left s)"

record client_opts =
  op_Name :: string
  op_Cfg :: backend_cfg
  op_Network :: policy
  op_MaxResponseBytes :: int
  op_Admission :: "admission option"

record client =
  cl_name :: string
  cl_upstream :: string
  cl_base :: url
  cl_apiKey :: string
  cl_policy :: policy
  cl_requestTimeout :: duration
  cl_streamIdle :: duration
  cl_maxResponseBytes :: int
  cl_streamHeaderTimeout :: duration
  cl_plainHeaderTimeout :: duration
  cl_maxConns :: int
  cl_adm :: admission

definition maxBackendResponseHeaderBytes :: int where "maxBackendResponseHeaderBytes = 65536"

definition read_api_key :: "(string \<Rightarrow> int \<Rightarrow> string + string) \<Rightarrow> string \<Rightarrow> string + string" where
  "read_api_key readFile path =
     (if path = [] then Inr []
      else bind_sum (readFile path 4096) (\<lambda>d. let k = TrimSpace d in if k = [] then Inl ''api_key_file is empty'' else Inr k))"

definition client_New ::
  "(string \<Rightarrow> url option) \<Rightarrow> (string \<Rightarrow> ip option) \<Rightarrow> (string \<Rightarrow> int \<Rightarrow> string + string) \<Rightarrow> client_opts \<Rightarrow> string + client" where
  "client_New urlParse parseIP readFile o1 =
     bind_sum (parsePolicy (op_Network o1)) (\<lambda>policy.
     bind_sum (parseBaseURL urlParse (be_BaseURL (op_Cfg o1))) (\<lambda>u.
     bind_sum (case parseIP (fst (splitHostPort u)) of
                 Some ip \<Rightarrow> guard_sum (allow policy ip) (class_text ErrPolicy)
               | None \<Rightarrow> Inr ()) (\<lambda>_.
     bind_sum (read_api_key readFile (be_APIKeyFile (op_Cfg o1))) (\<lambda>apiKey.
     let adm = (case op_Admission o1 of Some a \<Rightarrow> a | None \<Rightarrow> NewAdmission (op_Cfg o1)) in
     Inr \<lparr>cl_name = op_Name o1, cl_upstream = be_UpstreamModel (op_Cfg o1), cl_base = u, cl_apiKey = apiKey, cl_policy = policy,
       cl_requestTimeout = be_RequestTimeout (op_Cfg o1), cl_streamIdle = be_StreamIdleTimeout (op_Cfg o1),
       cl_maxResponseBytes = op_MaxResponseBytes o1, cl_streamHeaderTimeout = be_HeaderTimeout (op_Cfg o1),
       cl_plainHeaderTimeout = be_RequestTimeout (op_Cfg o1), cl_maxConns = ad_conc_cap adm, cl_adm = adm\<rparr>))))"

subsection \<open>Forwarding\<close>

record backend_request =
  bq_Method :: string
  bq_Path :: string
  bq_Body :: bytes
  bq_Headers :: headers
  bq_Stream :: bool

record http_request =
  hq_Method :: string
  hq_Scheme :: string
  hq_Host :: string
  hq_Path :: string
  hq_Header :: headers
  hq_Body :: bytes

record http_response =
  hr_Status :: int
  hr_Header :: headers
  hr_Body :: bytes
  hr_End :: "go_error option"

record result =
  re_Status :: int
  re_Header :: headers
  re_Body :: "(bytes \<times> go_error option) option"
  re_BodyBytes :: bytes
  re_hold :: bool

definition add_headers :: "headers \<Rightarrow> headers \<Rightarrow> headers" where
  "add_headers h req = foldl (\<lambda>h (k, vs). foldl (\<lambda>h v. hdr_add h k v) h vs) h req"

text \<open>The request that goes out: the path under the base, the headers of the request, and the credential.\<close>

definition out_path :: "client \<Rightarrow> string \<Rightarrow> string" where
  "out_path c path = (if u_Path (cl_base c) \<noteq> [] then u_Path (cl_base c) @ dropWhile (\<lambda>ch. ch = CHR ''/'') path else path)"

definition out_request :: "client \<Rightarrow> backend_request \<Rightarrow> http_request" where
  "out_request c req =
     (let h = add_headers [] (bq_Headers req);
          h' = (if cl_apiKey c \<noteq> [] then hdr_set h ''Authorization'' (''Bearer '' @ cl_apiKey c) else h)
      in \<lparr>hq_Method = bq_Method req, hq_Scheme = u_Scheme (cl_base c), hq_Host = u_Host (cl_base c),
          hq_Path = out_path c (bq_Path req), hq_Header = h', hq_Body = bq_Body req\<rparr>)"

definition isEventStream :: "http_response \<Rightarrow> bool" where
  "isEventStream resp = has_prefix (map to_lower (hdr_get (hr_Header resp) ''Content-Type'')) ''text/event-stream''"

text \<open>\<^verbatim>\<open>io.ReadAll(io.LimitReader(body, n))\<close>: the first \<open>n\<close> bytes; the error of the body counts if it comes first.\<close>

definition read_limited :: "int \<Rightarrow> bytes \<Rightarrow> go_error option \<Rightarrow> bytes \<times> go_error option" where
  "read_limited n body e = (if n \<le> int (length body) then (take (nat n) body, None) else (body, e))"

text \<open>
  What a call of \<^verbatim>\<open>Forward\<close> returns, and how often it released the slot it had acquired: an error without a result, a
  result with the error of a non-success status, or a result.
\<close>

datatype forward_result = FwdErr go_error | FwdUpstream result go_error | FwdOk result

definition buffered :: "client \<Rightarrow> http_response \<Rightarrow> bool \<Rightarrow> bool \<Rightarrow> forward_result" where
  "buffered c resp stream timeoutFired =
     (case read_limited (cl_maxResponseBytes c + 1) (hr_Body resp) (hr_End resp) of
        (data, Some rerr) \<Rightarrow>
          if stream \<and> 0 < cl_requestTimeout c \<and> timeoutFired then FwdErr [Sentinel ErrTimeout]
          else FwdErr (bodyReadError rerr)
      | (data, None) \<Rightarrow>
          if cl_maxResponseBytes c < int (length data) then FwdErr [Sentinel ErrTooLarge]
          else let r = \<lparr>re_Status = hr_Status resp, re_Header = hr_Header resp, re_Body = None, re_BodyBytes = data, re_hold = False\<rparr>
               in if 300 \<le> hr_Status resp
                  then FwdUpstream r [UpstreamErr \<lparr>up_Status = hr_Status resp, up_Detail = upstreamDetail data\<rparr>]
                  else FwdOk r)"

definition Forward ::
  "client \<Rightarrow> backend_request \<Rightarrow> go_error + unit \<Rightarrow> (http_request \<Rightarrow> bool) \<Rightarrow>
   (duration \<Rightarrow> http_request \<Rightarrow> go_error + http_response) \<Rightarrow> bool \<Rightarrow> forward_result \<times> nat" where
  "Forward c req acquired valid transport timeoutFired =
     (case acquired of
        Inl err \<Rightarrow> (FwdErr err, 0)
      | Inr _ \<Rightarrow>
          let out = out_request c req in
          if \<not> valid out then (FwdErr [Sentinel ErrConnect], 1)
          else case transport (if bq_Stream req then cl_streamHeaderTimeout c else cl_plainHeaderTimeout c) out of
            Inl err \<Rightarrow> (FwdErr (requestError err (bq_Stream req)), 1)
          | Inr resp \<Rightarrow>
              if bq_Stream req \<and> hr_Status resp = 200 \<and> isEventStream resp
              then (FwdOk \<lparr>re_Status = hr_Status resp, re_Header = hr_Header resp, re_Body = Some (hr_Body resp, hr_End resp),
                           re_BodyBytes = [], re_hold = True\<rparr>, 0)
              else (buffered c resp (bq_Stream req) timeoutFired, 1))"

text \<open>\<^verbatim>\<open>Close\<close>: the result afterwards and how often it released; \<^verbatim>\<open>closeOnce\<close> makes later calls empty.\<close>

definition result_Close :: "result \<times> bool \<Rightarrow> (result \<times> bool) \<times> nat" where
  "result_Close rc = (case rc of (r, cl) \<Rightarrow>
     if cl then ((r, True), 0) else ((r\<lparr>re_hold := False\<rparr>, True), if re_hold r then 1 else 0))"

fun close_times :: "nat \<Rightarrow> result \<times> bool \<Rightarrow> nat" where
  "close_times 0 rc = 0"
| "close_times (Suc n) rc = (let (rc', k) = result_Close rc in k + close_times n rc')"

definition forward_closed :: "forward_result \<times> nat \<Rightarrow> nat \<Rightarrow> nat" where
  "forward_closed fr n = snd fr + (case fst fr of FwdErr e \<Rightarrow> 0 | FwdUpstream r e \<Rightarrow> close_times n (r, False) | FwdOk r \<Rightarrow> close_times n (r, False))"

section \<open>Lemmas\<close>

lemma close_times_closed [simp]: "close_times n (r, True) = 0"
  by (induction n) (simp_all add: result_Close_def)

lemma close_times_once: "close_times n (r, False) = (if 0 < n \<and> re_hold r then 1 else 0)"
  by (cases n) (simp_all add: result_Close_def)

lemma buffered_cases:
  "buffered c resp stream tf = FwdErr e \<or>
   (\<exists>r. (buffered c resp stream tf = FwdOk r \<and> hr_Status resp < 300 \<or>
         buffered c resp stream tf = FwdUpstream r [UpstreamErr \<lparr>up_Status = hr_Status resp, up_Detail = upstreamDetail (hr_Body resp)\<rparr>] \<and> 300 \<le> hr_Status resp) \<and>
     re_BodyBytes r = hr_Body resp \<and> int (length (hr_Body resp)) \<le> cl_maxResponseBytes c \<and> hr_End resp = None \<and>
     re_hold r = False \<and> re_Body r = None \<and> re_Status r = hr_Status resp \<and> re_Header r = hr_Header resp)"
  if "\<And>e'. buffered c resp stream tf = FwdErr e' \<Longrightarrow> e' = e"
proof (cases "cl_maxResponseBytes c + 1 \<le> int (length (hr_Body resp))")
  case True
  have "length (take (nat (cl_maxResponseBytes c + 1)) (hr_Body resp)) = nat (cl_maxResponseBytes c + 1)" using True by simp
  then have "buffered c resp stream tf = FwdErr [Sentinel ErrTooLarge]" using True by (simp add: buffered_def read_limited_def)
  then show ?thesis using that by simp
next
  case False
  then show ?thesis using that by (auto simp: buffered_def read_limited_def Let_def split: option.splits)
qed

lemma hdr_values_set: "hdr_values (hdr_set h k v) k = [v]"
  by (simp add: hdr_values_def hdr_set_def update_conv)

section \<open>Properties\<close>


text \<open>
  What \<^verbatim>\<open>Forward\<close> hands on. A success is either the untouched live body of an event stream that was asked for and
  answered with 200, or a complete body within max_response_bytes of a response below 300; a status from 300 on,
  redirects included, always comes with an upstream error; and the credential sent is the configured one alone,
  whatever the headers of the request.
\<close>

theorem forward_result_spec:
  assumes "fst (Forward c req acquired valid transport tf) = FwdOk r"
  shows "\<exists>resp. transport (if bq_Stream req then cl_streamHeaderTimeout c else cl_plainHeaderTimeout c) (out_request c req) = Inr resp \<and>
    re_Status r = hr_Status resp \<and> re_Header r = hr_Header resp \<and>
    (if bq_Stream req \<and> hr_Status resp = 200 \<and> isEventStream resp
     then re_Body r = Some (hr_Body resp, hr_End resp)
     else re_Body r = None \<and> re_BodyBytes r = hr_Body resp \<and> hr_End resp = None \<and> hr_Status resp < 300 \<and>
       int (length (re_BodyBytes r)) \<le> cl_maxResponseBytes c) \<and>
    (cl_apiKey c \<noteq> [] \<longrightarrow> hdr_values (hq_Header (out_request c req)) ''Authorization'' = [''Bearer '' @ cl_apiKey c])"
proof -
  obtain resp where resp: "transport (if bq_Stream req then cl_streamHeaderTimeout c else cl_plainHeaderTimeout c) (out_request c req) = Inr resp"
    using assms by (auto simp: Forward_def Let_def split: sum.splits if_splits)
  have auth: "cl_apiKey c \<noteq> [] \<longrightarrow> hdr_values (hq_Header (out_request c req)) ''Authorization'' = [''Bearer '' @ cl_apiKey c]"
    by (simp add: out_request_def Let_def hdr_values_set)
  show ?thesis
  proof (cases "bq_Stream req \<and> hr_Status resp = 200 \<and> isEventStream resp")
    case True
    then show ?thesis using assms resp auth
      by (intro exI [of _ resp]) (auto simp: Forward_def Let_def split: sum.splits if_splits)
  next
    case False
    then have "buffered c resp (bq_Stream req) tf = FwdOk r"
      using assms resp by (auto simp: Forward_def Let_def split: sum.splits if_splits)
    with buffered_cases [of c resp "bq_Stream req" tf] False resp auth show ?thesis by (intro exI [of _ resp]) auto
  qed
qed

definition ex_client :: client where
  "ex_client = \<lparr>cl_name = ''b'', cl_upstream = ''m'', cl_base = ex_url, cl_apiKey = ''secret'', cl_policy = \<lparr>po_Mode = ''any'', po_CIDRs = []\<rparr>,
     cl_requestTimeout = Minute, cl_streamIdle = Minute, cl_maxResponseBytes = 100, cl_streamHeaderTimeout = Second,
     cl_plainHeaderTimeout = Minute, cl_maxConns = 1, cl_adm = NewAdmission ex_cfg\<rparr>"

definition ex_breq :: backend_request where
  "ex_breq = \<lparr>bq_Method = ''POST'', bq_Path = ''/v1/embeddings'', bq_Body = [], bq_Headers = [(''authorization'', [''Bearer client''])], bq_Stream = False\<rparr>"

theorem forward_result_spec_witness:
  "hdr_values (hq_Header (out_request ex_client ex_breq)) ''Authorization'' = [''Bearer secret'']"
proof -
  let ?resp = "\<lparr>hr_Status = 200, hr_Header = [], hr_Body = ''{}'', hr_End = None\<rparr>"
  have "fst (Forward ex_client ex_breq (Inr ()) (\<lambda>_. True) (\<lambda>_ _. Inr ?resp) False) =
      FwdOk \<lparr>re_Status = 200, re_Header = [], re_Body = None, re_BodyBytes = ''{}'', re_hold = False\<rparr>"
    by (simp add: Forward_def buffered_def read_limited_def ex_client_def ex_breq_def Let_def)
  from forward_result_spec [OF this] show ?thesis by (simp add: ex_client_def)
qed

end
