(* ===== verification/Peers.thy ===== *)
theory Peers
  imports Egress Client
begin

text \<open>
  Whose word the ingress takes for the address of a client (\<^verbatim>\<open>src/internal/httpapi/peer.go\<close>): trusted reverse
  proxies and the walk along \<^verbatim>\<open>X-Forwarded-For\<close>.

  Addresses are those of \<^verbatim>\<open>net/netip\<close>: 4 or 16 bytes, an IPv6 address with its zone. The syntax of addresses and
  prefixes (\<^verbatim>\<open>netip.ParseAddr\<close>, \<^verbatim>\<open>netip.ParsePrefix\<close>) and their printed form are parameters of the definitions; what is
  shown holds for every such syntax.
\<close>

section \<open>Definitions\<close>

datatype ip_addr = Addr4 "nat list" | Addr6 "nat list" string

record ip_prefix =
  pf_addr :: ip_addr
  pf_bits :: nat

text \<open>\<^verbatim>\<open>Addr.Unmap\<close>, \<^verbatim>\<open>Addr.IsLoopback\<close>, \<^verbatim>\<open>Prefix.Masked\<close>, \<^verbatim>\<open>Prefix.Contains\<close>.\<close>

fun addr_bytes :: "ip_addr \<Rightarrow> nat list" where
  "addr_bytes (Addr4 bs) = bs"
| "addr_bytes (Addr6 bs z) = bs"

fun Unmap :: "ip_addr \<Rightarrow> ip_addr" where
  "Unmap (Addr4 bs) = Addr4 bs"
| "Unmap (Addr6 bs z) = (if take 12 bs = replicate 10 0 @ [255, 255] then Addr4 (drop 12 bs) else Addr6 bs z)"

fun addr_IsLoopback :: "ip_addr \<Rightarrow> bool" where
  "addr_IsLoopback (Addr4 bs) = (hd bs = 127)"
| "addr_IsLoopback (Addr6 bs z) =
     (if take 12 bs = replicate 10 0 @ [255, 255] then hd (drop 12 bs) = 127 else bs = replicate 15 0 @ [1])"

definition byte_bits :: "nat \<Rightarrow> bool list" where
  "byte_bits b = map (\<lambda>i. odd (b div 2 ^ i)) [7, 6, 5, 4, 3, 2, 1, 0]"

definition addr_bits :: "ip_addr \<Rightarrow> bool list" where
  "addr_bits a = concat (map byte_bits (addr_bytes a))"

text \<open>The leading \<open>n\<close> bits of an address in bytes, the others zero.\<close>

fun mask_bytes :: "nat \<Rightarrow> nat list \<Rightarrow> nat list" where
  "mask_bytes n [] = []"
| "mask_bytes n (b # bs) = (if 8 \<le> n then b else b div 2 ^ (8 - n) * 2 ^ (8 - n)) # mask_bytes (n - 8) bs"

fun addr_mask :: "nat \<Rightarrow> ip_addr \<Rightarrow> ip_addr" where
  "addr_mask n (Addr4 bs) = Addr4 (mask_bytes n bs)"
| "addr_mask n (Addr6 bs z) = Addr6 (mask_bytes n bs) []"

definition Masked :: "ip_prefix \<Rightarrow> ip_prefix" where
  "Masked p = p\<lparr>pf_addr := addr_mask (pf_bits p) (pf_addr p)\<rparr>"

definition prefix_Contains :: "ip_prefix \<Rightarrow> ip_addr \<Rightarrow> bool" where
  "prefix_Contains p a =
     (case (pf_addr p, a) of
        (Addr4 _, Addr4 _) \<Rightarrow> take (pf_bits p) (addr_bits (pf_addr p)) = take (pf_bits p) (addr_bits a)
      | (Addr6 _ _, Addr6 _ z) \<Rightarrow> z = [] \<and> take (pf_bits p) (addr_bits (pf_addr p)) = take (pf_bits p) (addr_bits a)
      | _ \<Rightarrow> False)"

definition maxForwardedHops :: nat where "maxForwardedHops = 32"

definition TrustedProxyUnix :: string where "TrustedProxyUnix = ''unix''"

record trustedPeers =
  tp_nets :: "ip_prefix list"
  tp_unix :: bool

fun add_peer :: "(string \<Rightarrow> ip_prefix option) \<Rightarrow> string \<Rightarrow> trustedPeers \<Rightarrow> string \<Rightarrow> trustedPeers" where
  "add_peer parsePrefix network t entry =
     (if entry = TrustedProxyUnix then t\<lparr>tp_unix := (network = ''unix'')\<rparr>
      else case parsePrefix entry of Some p \<Rightarrow> t\<lparr>tp_nets := tp_nets t @ [Masked p]\<rparr> | None \<Rightarrow> t)"

definition newTrustedPeers :: "(string \<Rightarrow> ip_prefix option) \<Rightarrow> string \<Rightarrow> string list \<Rightarrow> trustedPeers" where
  "newTrustedPeers parsePrefix network entries = foldl (add_peer parsePrefix network) \<lparr>tp_nets = [], tp_unix = False\<rparr> entries"

definition trusts :: "trustedPeers \<Rightarrow> ip_addr \<Rightarrow> bool" where
  "trusts t a = list_ex (\<lambda>p. prefix_Contains p a) (tp_nets t)"

definition peerString :: "string \<Rightarrow> string" where
  "peerString remoteAddr =
     (if remoteAddr = [] \<or> remoteAddr = ''@'' then ''unix''
      else case net_SplitHostPort remoteAddr of Some (host, _) \<Rightarrow> host | None \<Rightarrow> remoteAddr)"

definition forwardedAddr :: "(string \<Rightarrow> ip_addr option) \<Rightarrow> string \<Rightarrow> ip_addr option" where
  "forwardedAddr parseAddr raw =
     (let s = TrimSpace raw; s' = (case net_SplitHostPort s of Some (host, _) \<Rightarrow> host | None \<Rightarrow> s)
      in map_option Unmap (parseAddr (trim_suffix (trim_prefix s' ''['') '']'')))"

text \<open>
  The two nested loops take the elements of the header values from the right: the values from the last to the
  first, and each value at its last comma. \<open>hops\<close> counts the elements taken.
\<close>

definition forwarded_elements :: "string list \<Rightarrow> string list" where
  "forwarded_elements values = concat (map (\<lambda>v. rev (split_on (CHR '','') v)) (rev values))"

fun walk_hops :: "(string \<Rightarrow> ip_addr option) \<Rightarrow> (ip_addr \<Rightarrow> string) \<Rightarrow> trustedPeers \<Rightarrow> string \<Rightarrow> nat \<Rightarrow> string list \<Rightarrow> string" where
  "walk_hops parseAddr show_addr t peer hops [] = peer"
| "walk_hops parseAddr show_addr t peer hops (e # es) =
     (if maxForwardedHops < Suc hops then peer
      else case forwardedAddr parseAddr e of
        None \<Rightarrow> peer
      | Some a \<Rightarrow> if \<not> trusts t a then show_addr a else walk_hops parseAddr show_addr t peer (Suc hops) es)"

definition clientIP ::
  "(string \<Rightarrow> ip_addr option) \<Rightarrow> (ip_addr \<Rightarrow> string) \<Rightarrow> trustedPeers \<Rightarrow> string \<Rightarrow> headers \<Rightarrow> string" where
  "clientIP parseAddr show_addr t remoteAddr h =
     (let peer = peerString remoteAddr;
          walk = walk_hops parseAddr show_addr t peer 0 (forwarded_elements (hdr_values h ''X-Forwarded-For''))
      in if \<not> tp_unix t
         then (case parseAddr peer of None \<Rightarrow> peer | Some a \<Rightarrow> if \<not> trusts t (Unmap a) then peer else walk)
         else walk)"

section \<open>Lemmas\<close>

definition peer_trusted :: "(string \<Rightarrow> ip_addr option) \<Rightarrow> trustedPeers \<Rightarrow> string \<Rightarrow> bool" where
  "peer_trusted parseAddr t remoteAddr \<longleftrightarrow> tp_unix t \<or> (\<exists>a. parseAddr (peerString remoteAddr) = Some a \<and> trusts t (Unmap a))"

text \<open>A hop that is believed because the trusted proxy to its right wrote it down.\<close>

definition hop_trusted :: "(string \<Rightarrow> ip_addr option) \<Rightarrow> trustedPeers \<Rightarrow> string \<Rightarrow> bool" where
  "hop_trusted parseAddr t e \<longleftrightarrow> (\<exists>a. forwardedAddr parseAddr e = Some a \<and> trusts t a)"

lemma walk_hops_spec:
  assumes "hops \<le> maxForwardedHops"
  shows "walk_hops parseAddr show_addr t peer hops es =
    (case dropWhile (hop_trusted parseAddr t) es of
       [] \<Rightarrow> peer
     | e # _ \<Rightarrow> if maxForwardedHops \<le> hops + length (takeWhile (hop_trusted parseAddr t) es) then peer
         else case forwardedAddr parseAddr e of None \<Rightarrow> peer | Some a \<Rightarrow> show_addr a)"
  using assms
proof (induction es arbitrary: hops)
  case (Cons e es)
  show ?case
  proof (cases "hop_trusted parseAddr t e")
    case True
    then obtain a where a: "forwardedAddr parseAddr e = Some a" "trusts t a" by (auto simp: hop_trusted_def)
    show ?thesis
    proof (cases "maxForwardedHops < Suc hops")
      case over: True
      then show ?thesis using True by (simp split: list.split)
    next
      case False
      then have "walk_hops parseAddr show_addr t peer hops (e # es) = walk_hops parseAddr show_addr t peer (Suc hops) es" using a by simp
      then show ?thesis using Cons.IH [of "Suc hops"] False True by (cases "dropWhile (hop_trusted parseAddr t) es") (simp_all del: dropWhile_eq_Nil_conv walk_hops.simps)
    qed
  next
    case False
    then show ?thesis by (auto simp: hop_trusted_def split: option.split)
  qed
qed simp

lemma clientIP_cases:
  "clientIP parseAddr show_addr t remoteAddr h =
    (if peer_trusted parseAddr t remoteAddr
     then walk_hops parseAddr show_addr t (peerString remoteAddr) 0 (forwarded_elements (hdr_values h ''X-Forwarded-For''))
     else peerString remoteAddr)"
  by (auto simp: clientIP_def peer_trusted_def Let_def split: option.splits)

lemma forwarded_append: "forwarded_elements (vs @ ws) = forwarded_elements ws @ forwarded_elements vs"
  by (simp add: forwarded_elements_def)

lemma split_on_sep: "split_on c (xs @ c # ys) = split_on c xs @ split_on c ys"
  by (induction xs) (auto split: list.splits)

text \<open>Text put before the first comma of a value stands to the left of all its elements.\<close>

lemma forwarded_prepend: "forwarded_elements ((x @ CHR '','' # v) # vs) = forwarded_elements (v # vs) @ rev (split_on (CHR '','') x)"
  by (simp add: forwarded_elements_def split_on_sep)

subsection \<open>White space\<close>

text \<open>Text that begins and ends with a visible ASCII character is not trimmed.\<close>

definition visible :: "char \<Rightarrow> bool" where
  "visible c \<longleftrightarrow> 33 \<le> byte_of c \<and> byte_of c \<le> 126"

lemma space_bytes:
  assumes "e \<in> set space_encodings" "c \<in> set e"
  shows "\<not> visible c"
proof -
  obtain r where r: "e = encode_rune r" "r \<le> 0x3000" "r < 33 \<or> 128 \<le> r" using assms(1) by (auto simp: space_encodings_def)
  have b: "byte_of (char_of n) = n" if "n < 256" for n using that by (simp add: byte_of_def)
  have "r div 64 \<le> 192" "r div 4096 \<le> 3" "r div 64 mod 64 < 64" "r mod 64 < 64" using r(2) by auto
  moreover have "r div 64 < 32" if "r < 2048" using that by auto
  ultimately show ?thesis using r assms(2) by (auto simp: encode_rune_def b visible_def is_surrogate_def split: if_splits)
qed

lemma trim_left_visible: "s \<noteq> [] \<Longrightarrow> visible (hd s) \<Longrightarrow> trim_left s = s"
proof -
  assume s: "s \<noteq> []" "visible (hd s)"
  have "space_prefix has_prefix s = None"
  proof (cases "space_prefix has_prefix s")
    case (Some e)
    then have e: "e \<in> set space_encodings" "has_prefix s e" using find_SomeD [of "has_prefix s" space_encodings e] by (auto simp: space_prefix_def)
    then have "hd s = hd e" "hd e \<in> set e" using space_encoding_nonempty [OF e(1)] by (cases e; auto simp: has_prefix_def; metis hd_take length_greater_0_conv list.sel(1) list.simps(3))+
    then show ?thesis using space_bytes [OF e(1)] s(2) by metis
  qed
  then show ?thesis by (simp add: trim_left.simps [of s])
qed

lemma trim_right_visible: "s \<noteq> [] \<Longrightarrow> visible (last s) \<Longrightarrow> trim_right s = s"
proof -
  assume s: "s \<noteq> []" "visible (last s)"
  have "space_prefix has_suffix s = None"
  proof (cases "space_prefix has_suffix s")
    case (Some e)
    then have e: "e \<in> set space_encodings" "has_suffix s e" using find_SomeD [of "has_suffix s" space_encodings e] by (auto simp: space_prefix_def)
    then have ne: "e \<noteq> []" using space_encoding_nonempty by blast
    obtain p where "s = p @ e" using e(2) by (metis has_suffix_def append_take_drop_id)
    then have "last s = last e" using ne by simp
    then show ?thesis using space_bytes [OF e(1), of "last e"] s(2) ne by simp
  qed
  then show ?thesis by (simp add: trim_right.simps [of s])
qed

lemma TrimSpace_visible: "s \<noteq> [] \<Longrightarrow> visible (hd s) \<Longrightarrow> visible (last s) \<Longrightarrow> TrimSpace s = s"
  by (simp add: TrimSpace_def trim_left_visible trim_right_visible)

section \<open>Properties\<close>

text \<open>
  C18: A client cannot choose the address it is limited under. A peer that is not a trusted proxy is its own
  address, whatever headers it sends. Behind a trusted proxy the address is decided by the rightmost element of
  \<^verbatim>\<open>X-Forwarded-For\<close> that is not itself a trusted proxy: once there is one within the first 32, nothing to its left
  (elements put before it in the same value, or whole header values before it) changes the answer, and the
  answer is that address, or the peer if it is not an address.
\<close>

theorem clientIP_unspoofable:
  assumes "hdr_values h ''X-Forwarded-For'' = v # vs" "forwarded_elements (v # vs) = es @ e # left" "length es < maxForwardedHops"
    and "\<forall>x \<in> set es. hop_trusted parseAddr t x" "\<not> hop_trusted parseAddr t e"
    and "hdr_values h' ''X-Forwarded-For'' \<in> {pre @ v # vs, pre @ (forged @ CHR '','' # v) # vs}"
  shows "clientIP parseAddr show_addr t remote h' = clientIP parseAddr show_addr t remote h \<and>
    clientIP parseAddr show_addr t remote h =
      (if peer_trusted parseAddr t remote then (case forwardedAddr parseAddr e of Some a \<Rightarrow> show_addr a | None \<Rightarrow> peerString remote)
       else peerString remote)"
proof -
  have walk: "walk_hops parseAddr show_addr t (peerString remote) 0 (es @ e # l) =
      (case forwardedAddr parseAddr e of None \<Rightarrow> peerString remote | Some a \<Rightarrow> show_addr a)" for l
    using assms(3-5) by (simp add: walk_hops_spec takeWhile_append1 dropWhile_append1)
  have "\<exists>l. forwarded_elements (hdr_values h' ''X-Forwarded-For'') = es @ e # l"
    using assms(6) by (auto simp: forwarded_append forwarded_prepend assms(2))
  then show ?thesis using walk by (auto simp: clientIP_cases assms(1,2) split: option.split)
qed

text \<open>One trusted proxy in front; the client claims to be somebody else.\<close>

definition ex_parse :: "string \<Rightarrow> ip_addr option" where
  "ex_parse s = (if s = ''10.0.0.1'' then Some (Addr4 [10, 0, 0, 1]) else if s = ''8.8.8.8'' then Some (Addr4 [8, 8, 8, 8])
     else if s = ''1.1.1.1'' then Some (Addr4 [1, 1, 1, 1]) else None)"

definition ex_show :: "ip_addr \<Rightarrow> string" where
  "ex_show a = (if a = Addr4 [8, 8, 8, 8] then ''8.8.8.8'' else ''other'')"

definition ex_peers :: trustedPeers where
  "ex_peers = newTrustedPeers (\<lambda>s. if s = ''10.0.0.0/8'' then Some \<lparr>pf_addr = Addr4 [10, 0, 0, 0], pf_bits = 8\<rparr> else None) ''tcp'' [''10.0.0.0/8'']"

lemma canon_XFF: "canon_key ''X-Forwarded-For'' = ''X-Forwarded-For''"
  by code_simp

theorem clientIP_unspoofable_witness:
  "clientIP ex_parse ex_show ex_peers ''10.0.0.1:443'' [(''X-Forwarded-For'', [''1.1.1.1,8.8.8.8''])] = ''8.8.8.8''"
proof -
  have e: "forwarded_elements [''8.8.8.8''] = [] @ ''8.8.8.8'' # []" by (simp add: forwarded_elements_def)
  have "TrimSpace ''8.8.8.8'' = ''8.8.8.8''" by (rule TrimSpace_visible) (simp_all add: visible_def byte_of_def)
  then have f: "forwardedAddr ex_parse ''8.8.8.8'' = Some (Addr4 [8, 8, 8, 8])"
    by (simp add: forwardedAddr_def net_SplitHostPort_def trim_prefix_def trim_suffix_def has_prefix_def has_suffix_def ex_parse_def)
  have n: "\<not> hop_trusted ex_parse ex_peers ''8.8.8.8''" 
    by (simp add: hop_trusted_def f trusts_def ex_peers_def newTrustedPeers_def TrustedProxyUnix_def Masked_def prefix_Contains_def addr_bits_def byte_bits_def)
  have p: "peer_trusted ex_parse ex_peers ''10.0.0.1:443''" unfolding peer_trusted_def
  proof (rule disjI2, intro exI conjI)
    show "ex_parse (peerString ''10.0.0.1:443'') = Some (Addr4 [10, 0, 0, 1])" "trusts ex_peers (Unmap (Addr4 [10, 0, 0, 1]))" by code_simp+
  qed
  have hv: "hdr_values [(''X-Forwarded-For'', vs)] ''X-Forwarded-For'' = vs" for vs by (simp add: hdr_values_def canon_XFF)
  show ?thesis
    using clientIP_unspoofable [of "[(''X-Forwarded-For'', [''8.8.8.8''])]" "''8.8.8.8''" "[]" "[]" "''8.8.8.8''" "[]" ex_parse ex_peers
        "[(''X-Forwarded-For'', [''1.1.1.1,8.8.8.8''])]" "[]" "''1.1.1.1''" ex_show "''10.0.0.1:443''"] e n p f
    by (simp add: hv ex_show_def maxForwardedHops_def)
qed

end
