(* ===== verification/ProxyErrors.thy ===== *)
theory ProxyErrors
  imports Client
begin

text \<open>
  The errors a client can see: the table and the classification of backend failures
  (\<^verbatim>\<open>src/internal/proxy/errors.go\<close>) and the envelope they are written in (\<^verbatim>\<open>src/internal/apierr/apierr.go\<close>).
\<close>

section \<open>Definitions\<close>

record api_error =
  ae_status :: int
  ae_typ :: string
  ae_code :: string
  ae_msg :: string
  ae_class :: string

definition mk_error :: "int \<Rightarrow> string \<Rightarrow> string \<Rightarrow> string \<Rightarrow> string \<Rightarrow> api_error" where
  "mk_error s t c m k = \<lparr>ae_status = s, ae_typ = t, ae_code = c, ae_msg = m, ae_class = k\<rparr>"

definition errDraining :: api_error where
  "errDraining = mk_error 503 ''overload_error'' ''server_overloaded'' ''server is shutting down'' ''overload''"
definition errOverloaded :: api_error where
  "errOverloaded = mk_error 503 ''overload_error'' ''server_overloaded'' ''server is overloaded'' ''overload''"
definition errNoBackend :: api_error where
  "errNoBackend = mk_error 503 ''overload_error'' ''server_overloaded'' ''no backend is available'' ''no_backend_available''"
definition errUnsupported :: api_error where
  "errUnsupported = mk_error 415 ''invalid_request_error'' ''unsupported_media_type'' ''request compression is not supported'' ''bad_request''"
definition errBodyTooBig :: api_error where
  "errBodyTooBig = mk_error 413 ''invalid_request_error'' ''body_too_large'' ''request body exceeds the size limit'' ''bad_request''"
definition errBodyUnread :: api_error where
  "errBodyUnread = mk_error 400 ''invalid_request_error'' ''body_unreadable'' ''request body could not be read'' ''bad_request''"
definition errBadJSON :: api_error where
  "errBadJSON = mk_error 400 ''invalid_request_error'' ''invalid_json'' ''request body is not a valid JSON object'' ''bad_request''"
definition errNoModel :: api_error where
  "errNoModel = mk_error 400 ''invalid_request_error'' ''missing_model'' ''the model field is required'' ''bad_request''"
definition errModelType :: api_error where
  "errModelType = mk_error 400 ''invalid_request_error'' ''invalid_model'' ''the model field must be a string'' ''bad_request''"
definition errNoStream :: api_error where
  "errNoStream = mk_error 400 ''invalid_request_error'' ''stream_not_supported'' ''streaming is not supported for this endpoint'' ''bad_request''"
definition errModelDenied :: api_error where
  "errModelDenied = mk_error 404 ''invalid_request_error'' ''model_not_found_or_not_allowed'' ''model not found or not allowed'' ''authz''"
definition errNotGenerate :: api_error where
  "errNotGenerate = mk_error 400 ''invalid_request_error'' ''model_type_mismatch'' ''the requested model is not a generation model'' ''bad_request''"
definition errNotEmbed :: api_error where
  "errNotEmbed = mk_error 400 ''invalid_request_error'' ''model_type_mismatch'' ''the requested model is not an embedding model'' ''bad_request''"
definition errPrevNotFound :: api_error where
  "errPrevNotFound = mk_error 404 ''invalid_request_error'' ''response_not_found'' ''previous response not found'' ''affinity''"
definition errRespNotFound :: api_error where
  "errRespNotFound = mk_error 404 ''invalid_request_error'' ''response_not_found'' ''response not found'' ''affinity''"
definition errRespBadID :: api_error where
  "errRespBadID = mk_error 404 ''invalid_request_error'' ''response_not_found'' ''response not found'' ''bad_request''"
definition errOutputCapExceeded :: api_error where
  "errOutputCapExceeded = mk_error 400 ''invalid_request_error'' ''output_limit_exceeded'' ''requested output tokens exceed the model limit'' ''bad_request''"
definition errOutputLimitInvalid :: api_error where
  "errOutputLimitInvalid = mk_error 400 ''invalid_request_error'' ''invalid_output_limit'' ''output limit must be a non-negative integer'' ''bad_request''"
definition errNotNormal :: api_error where
  "errNotNormal = mk_error 400 ''invalid_request_error'' ''invalid_json'' ''request body could not be processed'' ''bad_request''"
definition errQuota :: api_error where
  "errQuota = mk_error 429 ''rate_limit_error'' ''token_quota_exceeded'' ''token quota exceeded for this window'' ''token_quota''"
definition errInternal :: api_error where
  "errInternal = mk_error 500 ''api_error'' ''internal'' ''internal error'' ''internal_error''"
definition errPolicy_api :: api_error where
  "errPolicy_api = mk_error 500 ''api_error'' ''internal'' ''internal error'' ''policy''"
definition errUpstreamRateLimited :: api_error where
  "errUpstreamRateLimited = mk_error 429 ''rate_limit_error'' ''upstream_rate_limited'' ''upstream is rate limited'' ''backend_429''"
definition errUpstream5xx :: api_error where
  "errUpstream5xx = mk_error 502 ''api_error'' ''upstream_unavailable'' ''upstream is unavailable'' ''backend_5xx''"
definition errUpstreamRejected :: api_error where
  "errUpstreamRejected = mk_error 400 ''invalid_request_error'' ''upstream_rejected'' ''upstream rejected the request'' ''backend_4xx''"
definition errUpstreamTimeout :: api_error where
  "errUpstreamTimeout = mk_error 504 ''api_error'' ''upstream_timeout'' ''upstream timed out'' ''backend_timeout''"
definition errUpstreamConnect :: api_error where
  "errUpstreamConnect = mk_error 502 ''api_error'' ''upstream_unavailable'' ''upstream is unavailable'' ''backend_connect''"
definition errQueueFull_api :: api_error where
  "errQueueFull_api = mk_error 503 ''overload_error'' ''server_overloaded'' ''server is overloaded'' ''queue_full''"

definition withClass :: "api_error \<Rightarrow> string \<Rightarrow> api_error" where
  "withClass e cls = e\<lparr>ae_class := cls\<rparr>"

definition errUpstreamDialTimeout :: api_error where
  "errUpstreamDialTimeout = withClass errUpstreamTimeout ''backend_dial_timeout''"
definition errUpstreamHeaderTimeout :: api_error where
  "errUpstreamHeaderTimeout = withClass errUpstreamTimeout ''backend_header_timeout''"
definition errQueueTimeout_api :: api_error where
  "errQueueTimeout_api = withClass errQueueFull_api ''queue_timeout''"

record backend_failure =
  bf_retryable :: bool
  bf_poisonsHealth :: bool
  bf_resp :: api_error

fun as_upstream :: "go_error \<Rightarrow> upstream option" where
  "as_upstream [] = None"
| "as_upstream (UpstreamErr u # e) = Some u"
| "as_upstream (_ # e) = as_upstream e"

definition bfail :: "bool \<Rightarrow> bool \<Rightarrow> api_error \<Rightarrow> backend_failure" where
  "bfail r p e = \<lparr>bf_retryable = r, bf_poisonsHealth = p, bf_resp = e\<rparr>"

definition classifyBackendError :: "go_error \<Rightarrow> backend_failure" where
  "classifyBackendError err =
     (case as_upstream err of
        Some up \<Rightarrow>
          if up_Status up = 429 then bfail True False errUpstreamRateLimited
          else if 500 \<le> up_Status up
          then bfail (up_Status up = 502 \<or> up_Status up = 503 \<or> up_Status up = 504) False errUpstream5xx
          else bfail False False errUpstreamRejected
      | None \<Rightarrow>
          if is_sentinel ErrConnect err then bfail True True errUpstreamConnect
          else if is_sentinel ErrDialTimeout err then bfail True True errUpstreamDialTimeout
          else if is_sentinel ErrDraining err then bfail False False errDraining
          else if is_sentinel ErrQueueFull err then bfail True False errQueueFull_api
          else if is_sentinel ErrQueueTimeout err then bfail True False errQueueTimeout_api
          else if is_sentinel ErrHeaderTimeout err then bfail False False errUpstreamHeaderTimeout
          else if is_sentinel ErrTimeout err then bfail False False errUpstreamTimeout
          else if is_sentinel ErrTooLarge err then bfail False False errUpstream5xx
          else if is_sentinel ErrPolicy err then bfail False False errPolicy_api
          else bfail False False errUpstream5xx)"

definition relayableUpstreamStatus :: "int \<Rightarrow> bool" where
  "relayableUpstreamStatus s \<longleftrightarrow> s \<in> {400, 413, 422, 429}"

text \<open>The backends of the configuration by name; a name that is not there reads as the zero value.\<close>

definition relayUpstreamDetail :: "(string \<rightharpoonup> backend_cfg) \<Rightarrow> api_error \<Rightarrow> string \<Rightarrow> go_error \<Rightarrow> api_error" where
  "relayUpstreamDetail backends e backendName err =
     (if \<not> (case backends backendName of Some b \<Rightarrow> be_RelayUpstreamErrors b | None \<Rightarrow> False) then e
      else case as_upstream err of
        None \<Rightarrow> e
      | Some up \<Rightarrow>
          if \<not> relayableUpstreamStatus (up_Status up) \<or> de_Message (up_Detail up) = [] then e
          else e\<lparr>ae_msg := ae_msg e @ '': '' @ de_Message (up_Detail up)\<rparr>)"

subsection \<open>The envelope\<close>

text \<open>\<^verbatim>\<open>json.Marshal\<close> of the nested map: keys in order, text escaped for HTML.\<close>

definition error_json :: "string \<Rightarrow> string \<Rightarrow> string \<Rightarrow> json" where
  "error_json typ code msg =
     JObj [(quote_body True ''error'',
       JObj [(quote_body True ''code'', encode_string code), (quote_body True ''message'', encode_string msg),
             (quote_body True ''param'', JNull), (quote_body True ''type'', encode_string typ)])]"

record written =
  wr_status :: int
  wr_header :: headers
  wr_body :: bytes

definition apierr_Write :: "headers \<Rightarrow> int \<Rightarrow> string \<Rightarrow> string \<Rightarrow> string \<Rightarrow> written" where
  "apierr_Write h status typ code msg =
     \<lparr>wr_status = status, wr_header = hdr_set h ''Content-Type'' ''application/json'', wr_body = compact (error_json typ code msg)\<rparr>"

definition DefaultRetryAfter :: string where "DefaultRetryAfter = ''1''"

text \<open>The closure \<^verbatim>\<open>fail\<close> of \<^verbatim>\<open>dispatch\<close>: every 429 carries a Retry-After.\<close>

definition fail_response :: "headers \<Rightarrow> api_error \<Rightarrow> written" where
  "fail_response h e =
     (let h' = (if ae_status e = 429 \<and> hdr_get h ''Retry-After'' = [] then hdr_set h ''Retry-After'' DefaultRetryAfter else h)
      in apierr_Write h' (ae_status e) (ae_typ e) (ae_code e) (ae_msg e))"

section \<open>Lemmas\<close>

lemma wf_error_json: "wf_json 0 (error_json typ code msg)"
  by (simp add: error_json_def encode_string_def ok_str_quote maxNestingDepth_def del: quote_body.simps)

lemma error_body_parses: "json_parse (wr_body (fail_response h e)) = Some (error_json (ae_typ e) (ae_code e) (ae_msg e))"
  using json_parse_compact [OF wf_error_json] by (simp add: fail_response_def apierr_Write_def Let_def)

lemma as_upstream_None: "\<forall>n \<in> set e. \<forall>u. n \<noteq> UpstreamErr u \<Longrightarrow> as_upstream e = None"
  by (induction e rule: as_upstream.induct) auto

text \<open>The errors of the table whose text a client can get from a failed backend attempt.\<close>

definition backend_answers :: "api_error set" where
  "backend_answers = {errUpstreamRateLimited, errUpstream5xx, errUpstreamRejected, errUpstreamTimeout, errUpstreamConnect,
     errQueueFull_api, errQueueTimeout_api, errUpstreamDialTimeout, errUpstreamHeaderTimeout, errDraining, errPolicy_api}"

lemma answers_in_table: "errUpstreamRateLimited \<in> backend_answers" "errUpstream5xx \<in> backend_answers" "errUpstreamRejected \<in> backend_answers"
  "errUpstreamTimeout \<in> backend_answers" "errUpstreamConnect \<in> backend_answers" "errQueueFull_api \<in> backend_answers"
  "errQueueTimeout_api \<in> backend_answers" "errUpstreamDialTimeout \<in> backend_answers" "errUpstreamHeaderTimeout \<in> backend_answers"
  "errDraining \<in> backend_answers" "errPolicy_api \<in> backend_answers"
  unfolding backend_answers_def by blast+

lemma classify_in_table: "bf_resp (classifyBackendError err) \<in> backend_answers"
  by (simp add: classifyBackendError_def bfail_def answers_in_table split: option.split)

lemmas error_defs = mk_error_def withClass_def errUpstreamRateLimited_def errUpstream5xx_def errUpstreamRejected_def
  errUpstreamTimeout_def errUpstreamConnect_def errQueueFull_api_def errQueueTimeout_api_def errUpstreamDialTimeout_def
  errUpstreamHeaderTimeout_def errDraining_def errPolicy_api_def

section \<open>Properties\<close>



end
