(* ===== verification/Request.thy ===== *)
theory Request
  imports ProxyErrors Sse
begin

text \<open>
  What the proxy reads from and changes in a request body, and what it reads from responses
  (\<^verbatim>\<open>src/internal/proxy/proxy.go\<close>): the operation table, the shallow parse, the rewritten body, output caps, stream
  usage, response IDs. A decoded body is an association list with distinct keys, as in \<^verbatim>\<open>Json\<close>.
\<close>

section \<open>Definitions\<close>

subsection \<open>Operations\<close>

datatype routeKind = routeByModel | routeByResponseID

record operation =
  op_path :: string
  op_method :: string
  op_route :: routeKind
  op_capture :: bool
  op_endpoint :: string
  op_capField :: string
  op_altCapField :: string

definition generative :: "operation \<Rightarrow> bool" where "generative o1 \<longleftrightarrow> op_capField o1 \<noteq> []"

definition consumesUsage :: "operation \<Rightarrow> bool" where "consumesUsage o1 \<longleftrightarrow> op_route o1 = routeByModel"

definition opChat :: operation where
  "opChat = \<lparr>op_path = ''/v1/chat/completions'', op_method = ''POST'', op_route = routeByModel, op_capture = False,
     op_endpoint = ''chat.completions'', op_capField = ''max_completion_tokens'', op_altCapField = ''max_tokens''\<rparr>"
definition opLegacy :: operation where
  "opLegacy = \<lparr>op_path = ''/v1/completions'', op_method = ''POST'', op_route = routeByModel, op_capture = False,
     op_endpoint = ''completions'', op_capField = ''max_tokens'', op_altCapField = []\<rparr>"
definition opEmbed :: operation where
  "opEmbed = \<lparr>op_path = ''/v1/embeddings'', op_method = ''POST'', op_route = routeByModel, op_capture = False,
     op_endpoint = ''embeddings'', op_capField = [], op_altCapField = []\<rparr>"
definition opResp :: operation where
  "opResp = \<lparr>op_path = ''/v1/responses'', op_method = ''POST'', op_route = routeByModel, op_capture = True,
     op_endpoint = ''responses'', op_capField = ''max_output_tokens'', op_altCapField = []\<rparr>"
definition opRespGet :: operation where
  "opRespGet = \<lparr>op_path = ''/v1/responses'', op_method = ''GET'', op_route = routeByResponseID, op_capture = False,
     op_endpoint = ''responses'', op_capField = [], op_altCapField = []\<rparr>"
definition opRespCancel :: operation where
  "opRespCancel = \<lparr>op_path = ''/v1/responses'', op_method = ''POST'', op_route = routeByResponseID, op_capture = False,
     op_endpoint = ''responses'', op_capField = [], op_altCapField = []\<rparr>"

definition operations :: "operation list" where
  "operations = [opChat, opLegacy, opEmbed, opResp, opRespGet, opRespCancel]"

subsection \<open>The body\<close>

datatype body_error = errJSON | errMissingModel | errModelNotString | errCapExceeded | errCapInvalid | errNoUpstreamModel

definition stream_flag :: "raw_map \<Rightarrow> bool" where
  "stream_flag fs =
     (case map_of fs ''stream'' of
        None \<Rightarrow> False
      | Some raw \<Rightarrow> (case dec_bool raw False of (b, err) \<Rightarrow> if err then False else b))"

definition shallowParse :: "bytes \<Rightarrow> body_error + raw_map \<times> string \<times> bool" where
  "shallowParse body =
     (if body = [] then Inl errMissingModel
      else case unmarshal dec_map body None of
        (_, True) \<Rightarrow> Inl errJSON
      | (None, False) \<Rightarrow> Inl errJSON
      | (Some fs, False) \<Rightarrow>
          (case map_of fs ''model'' of
             None \<Rightarrow> Inl errMissingModel
           | Some raw \<Rightarrow>
               (case dec_string raw [] of (model, err) \<Rightarrow>
                  if err \<or> model = [] then Inl errModelNotString
                  else Inr (fs, model, stream_flag fs))))"

text \<open>The map is shared by the attempts of a request: the result carries it with the model set.\<close>

definition encodeOutbound :: "raw_map \<Rightarrow> string \<Rightarrow> body_error + bytes \<times> raw_map" where
  "encodeOutbound fs up =
     (if up = [] then Inl errNoUpstreamModel
      else let fs' = AList.update ''model'' (encode_string up) fs in Inr (compact (encode_map False fs'), fs'))"

definition stringField :: "raw_map \<Rightarrow> string \<Rightarrow> string option" where
  "stringField fs field =
     (case map_of fs field of
        None \<Rightarrow> None
      | Some raw \<Rightarrow> (case dec_string raw [] of (s, err) \<Rightarrow> if err \<or> s = [] then None else Some s))"

definition id_rune :: "nat \<Rightarrow> bool" where
  "id_rune r \<longleftrightarrow> 97 \<le> r \<and> r \<le> 122 \<or> 65 \<le> r \<and> r \<le> 90 \<or> 48 \<le> r \<and> r \<le> 57 \<or> r = 95 \<or> r = 45"

definition isValidResponseID :: "string \<Rightarrow> bool" where
  "isValidResponseID i = (if i = [] \<or> 256 < length i then False else list_all id_rune (runes i))"

definition maxLoggedModelLen :: nat where "maxLoggedModelLen = 128"
definition maxUserAgentBytes :: nat where "maxUserAgentBytes = 200"

definition userAgent :: "headers \<Rightarrow> string" where
  "userAgent h =
     (let ua = hdr_get h ''User-Agent''; ua' = (if maxUserAgentBytes < length ua then take maxUserAgentBytes ua else ua)
      in concat (map encode_rune (filter (\<lambda>c. \<not> is_control c) (runes ua'))))"

definition logModel :: "string \<Rightarrow> string" where
  "logModel m = (if maxLoggedModelLen < length m then take maxLoggedModelLen m else m)"

definition topLevelID :: "bytes \<Rightarrow> string" where
  "topLevelID body =
     (case unmarshal dec_map body None of
        (_, True) \<Rightarrow> []
      | (fs, False) \<Rightarrow> (case stringField (case fs of None \<Rightarrow> [] | Some m \<Rightarrow> m) ''id'' of Some i \<Rightarrow> i | None \<Rightarrow> []))"

record response_obj =
  ro_Type :: string
  ro_ID :: string
  ro_Response :: "json option"

definition dec_response_obj :: "string \<Rightarrow> json \<Rightarrow> response_obj \<Rightarrow> response_obj \<times> bool" where
  "dec_response_obj t v r =
     (if t = ''type'' then set_field (dec_string v (ro_Type r)) (\<lambda>x. r\<lparr>ro_Type := x\<rparr>)
      else if t = ''id'' then set_field (dec_string v (ro_ID r)) (\<lambda>x. r\<lparr>ro_ID := x\<rparr>)
      else set_field (dec_raw v (ro_Response r)) (\<lambda>x. r\<lparr>ro_Response := x\<rparr>))"

definition nested_id :: "json \<Rightarrow> string \<times> bool" where
  "nested_id v = dec_struct [''id''] (\<lambda>t w s. dec_string w s) v []"

definition responseIDFromData :: "bytes \<Rightarrow> string" where
  "responseIDFromData data =
     (case unmarshal (dec_struct [''type'', ''id'', ''response''] dec_response_obj) data \<lparr>ro_Type = [], ro_ID = [], ro_Response = None\<rparr> of
        (_, True) \<Rightarrow> []
      | (obj, False) \<Rightarrow>
          (case (case ro_Response obj of None \<Rightarrow> None
                 | Some v \<Rightarrow> (case nested_id v of (i, err) \<Rightarrow> if \<not> err \<and> i \<noteq> [] then Some i else None)) of
             Some i \<Rightarrow> i
           | None \<Rightarrow> if ro_ID obj \<noteq> [] then ro_ID obj else []))"

text \<open>\<open>cl\<close> is the Content-Length, \<open>-1\<close> when unknown; the body gives its bytes and then ends with an error or not.\<close>

datatype read_error = TooLarge | Unreadable

definition readBodyLimited :: "int \<Rightarrow> bytes \<Rightarrow> go_error option \<Rightarrow> int \<Rightarrow> read_error + bytes" where
  "readBodyLimited cl body e mx =
     (if mx < cl then Inl TooLarge
      else case read_limited (mx + 1) body e of
        (_, Some err) \<Rightarrow> Inl Unreadable
      | (data, None) \<Rightarrow> if mx < int (length data) then Inl TooLarge else Inr data)"

definition passthroughHeaders :: "headers \<Rightarrow> headers" where
  "passthroughHeaders h =
     (let ua = hdr_get h ''User-Agent''; acc = hdr_get h ''Accept'' in
      (if ua \<noteq> [] then [(''User-Agent'', [ua])] else []) @ (if acc \<noteq> [] then [(''Accept'', [acc])] else []))"

subsection \<open>Output limits and stream usage\<close>

text \<open>The decimal numeral \<^verbatim>\<open>json.Marshal\<close> writes for an integer.\<close>

fun nat_digits :: "nat \<Rightarrow> string" where
  "nat_digits n = (if n < 10 then [char_of (48 + n)] else nat_digits (n div 10) @ [char_of (48 + n mod 10)])"

declare nat_digits.simps [simp del]

definition int_literal :: "int \<Rightarrow> string" where
  "int_literal i = (if i < 0 then CHR ''-'' # nat_digits (nat (- i)) else nat_digits (nat i))"

text \<open>The number a limit field holds, if it is one.\<close>

definition limit_value :: "json \<Rightarrow> int option" where
  "limit_value raw = (case dec_number raw [] of (num, err) \<Rightarrow> if err then None else parse_int64 num)"

definition tokenLimit :: "raw_map \<Rightarrow> string \<Rightarrow> int \<Rightarrow> body_error + bool \<times> int" where
  "tokenLimit fs name cap =
     (case map_of fs name of
        None \<Rightarrow> Inr (False, 0)
      | Some raw \<Rightarrow>
          (case limit_value raw of
             None \<Rightarrow> Inl errCapInvalid
           | Some n \<Rightarrow> if n < 0 then Inl errCapInvalid else if cap < n then Inl errCapExceeded else Inr (True, n)))"

definition injectStreamUsage :: "raw_map \<Rightarrow> raw_map \<times> bool" where
  "injectStreamUsage fs =
     (let so = (case map_of fs ''stream_options'' of
                  None \<Rightarrow> []
                | Some raw \<Rightarrow> (case dec_map raw None of (Some m, _) \<Rightarrow> m | (None, _) \<Rightarrow> []));
          wanted = (case map_of so ''include_usage'' of
                      None \<Rightarrow> False
                    | Some raw \<Rightarrow> (case dec_bool raw False of (w, err) \<Rightarrow> \<not> err \<and> w))
      in if wanted then (fs, False)
         else (AList.update ''stream_options'' (encode_map True (AList.update ''include_usage'' (JBool True) so)) fs, True))"

definition apply_cap :: "raw_map \<Rightarrow> operation \<Rightarrow> int \<Rightarrow> body_error + raw_map" where
  "apply_cap fs o1 cap =
     (if op_capField o1 \<noteq> [] \<and> 0 < cap then
        bind_sum (tokenLimit fs (op_capField o1) cap) (\<lambda>(p1, _).
        bind_sum (if op_altCapField o1 \<noteq> [] then tokenLimit fs (op_altCapField o1) cap else Inr (False, 0)) (\<lambda>(p2, _).
        Inr (if \<not> p1 \<and> \<not> p2 then AList.update (op_capField o1) (JNum (int_literal cap)) fs else fs)))
      else Inr fs)"

definition prepareOutbound :: "raw_map \<Rightarrow> operation \<Rightarrow> int \<Rightarrow> bool \<Rightarrow> bool \<Rightarrow> int \<Rightarrow> body_error + int \<times> bool \<times> raw_map" where
  "prepareOutbound fs o1 cap stream ensureUsage configuredReservation =
     (if op_capField o1 = [] \<and> \<not> (stream \<and> ensureUsage) then Inr (configuredReservation, False, fs)
      else bind_sum (apply_cap fs o1 cap) (\<lambda>fs1.
        let reservation = (if 0 < configuredReservation then configuredReservation else cap);
            (fs2, injected) = (if stream \<and> ensureUsage \<and> op_endpoint o1 \<in> {''chat.completions'', ''completions''}
                               then injectStreamUsage fs1 else (fs1, False))
        in Inr (reservation, injected, fs2)))"

record usage_chunk =
  uc_Choices :: "json list"
  uc_Usage :: "json option"

definition dec_usage_chunk :: "string \<Rightarrow> json \<Rightarrow> usage_chunk \<Rightarrow> usage_chunk \<times> bool" where
  "dec_usage_chunk t v c =
     (if t = ''choices'' then set_field (dec_raw_list v (uc_Choices c)) (\<lambda>x. c\<lparr>uc_Choices := x\<rparr>)
      else set_field (dec_raw v (uc_Usage c)) (\<lambda>x. c\<lparr>uc_Usage := x\<rparr>))"

definition isUsageOnlyChunk :: "bytes \<Rightarrow> bool" where
  "isUsageOnlyChunk data =
     (case unmarshal (dec_struct [''choices'', ''usage''] dec_usage_chunk) data \<lparr>uc_Choices = [], uc_Usage = None\<rparr> of
        (_, True) \<Rightarrow> False
      | (c, False) \<Rightarrow> uc_Choices c = [] \<and> uc_Usage c \<noteq> None \<and> uc_Usage c \<noteq> Some JNull)"

section \<open>Lemmas\<close>

subsection \<open>Escaping keeps trees well-formed\<close>

lemma ok_str_plainI: "ok_str (c # raw) \<Longrightarrow> c \<noteq> backslash \<Longrightarrow> c \<noteq> quote_char \<and> \<not> byte_of c < 32 \<and> ok_str raw"
  unfolding ok_str_def by (force split: if_splits)

definition html_special :: "char \<Rightarrow> bool" where
  "html_special c \<longleftrightarrow> byte_of c \<in> {0x26, 0x3C, 0x3E, 0xE2}"

lemma esc_html_plain: "\<not> html_special c \<Longrightarrow> esc_html (c # cs) = c # esc_html cs"
  by (simp add: html_special_def Let_def)

lemma esc_html_other:
  assumes "byte_of c \<notin> {0x26, 0x3C, 0x3E}"
    and "\<And>c1 c2 r. byte_of c = 0xE2 \<Longrightarrow> cs = c1 # c2 # r \<Longrightarrow> byte_of c1 = 0x80 \<Longrightarrow> byte_of c2 \<in> {0xA8, 0xA9} \<Longrightarrow> False"
  shows "esc_html (c # cs) = c # esc_html cs"
proof (cases "byte_of c = 0xE2 \<and> (\<exists>c1 c2 r. cs = c1 # c2 # r)")
  case True
  then obtain c1 c2 r where cs: "cs = c1 # c2 # r" "byte_of c = 0xE2" by blast
  with assms(2) have "\<not> (byte_of c1 = 0x80 \<and> byte_of c2 \<in> {0xA8, 0xA9})" by blast
  then show ?thesis using cs by (auto simp: esc_html.simps(2) [of c "c1 # c2 # r"] Let_def simp del: esc_html.simps)
next
  case False
  then consider "byte_of c \<noteq> 0xE2" | "cs = []" | c1 where "cs = [c1]" by (metis neq_Nil_conv)
  then show ?thesis using assms(1) by cases (subst esc_html.simps(2), simp add: Let_def del: esc_html.simps)+
qed

lemma hex_not_special: "is_hex c \<Longrightarrow> \<not> html_special c"
  by (auto simp: is_hex_def hex_val_def html_special_def is_digit_def split: if_splits)

lemma esc_not_special: "c \<in> set [quote_char, backslash, CHR ''/'', CHR ''b'', CHR ''f'', CHR ''n'', CHR ''r'', CHR ''t'', CHR ''u''] \<Longrightarrow> \<not> html_special c"
  by (auto simp: html_special_def byte_of_def)

lemma ok_str_esc_html: "ok_str raw \<Longrightarrow> ok_str (esc_html raw)"
proof (induction raw rule: length_induct)
  case (1 raw)
  have IH: "ok_str (esc_html r)" if "length r < length raw" "ok_str r" for r using 1 that by blast
  show ?case
  proof (cases raw)
    case (Cons c cs)
    show ?thesis
    proof (cases "c = backslash")
      case True
      then have "ok_str (backslash # cs)" using 1(2) Cons by simp
      then show ?thesis
      proof (cases rule: ok_str_escD)
        case (u a b c' d r)
        have "esc_html raw = backslash # CHR ''u'' # a # b # c' # d # esc_html r"
          unfolding Cons True u(1) using u(2-5) by (simp add: esc_html_plain hex_not_special esc_not_special del: esc_html.simps)
        then show ?thesis using IH [of r] u Cons by (simp add: ok_str_u)
      next
        case (e x r)
        have "esc_html raw = backslash # x # esc_html r"
          unfolding Cons True e(1) using e(4) esc_not_special [of x] esc_not_special [of backslash] by (auto simp add: esc_html_plain simp del: esc_html.simps)
        then show ?thesis using IH [of r] e Cons by (simp add: ok_str_esc)
      qed
    next
      case False
      have p: "c \<noteq> quote_char" "\<not> byte_of c < 32" "ok_str cs" using ok_str_plainI [of c cs] 1(2) Cons False by auto
      have okc: "ok_str (esc_html cs)" using IH [of cs] p(3) Cons by simp
      consider (sp) "byte_of c \<in> {0x26, 0x3C, 0x3E}" | (ls) c1 c2 r where "byte_of c = 0xE2" "cs = c1 # c2 # r" "byte_of c1 = 0x80" "byte_of c2 \<in> {0xA8, 0xA9}"
        | (pl) "esc_html raw = c # esc_html cs"
        unfolding Cons using esc_html_other [of c cs] by blast
      then show ?thesis
      proof cases
        case sp
        then have "esc_html raw = [backslash, CHR ''u'', CHR ''0'', CHR ''0'', hex_digit (byte_of c div 16), hex_digit (byte_of c mod 16)] @ esc_html cs"
          by (simp add: Cons Let_def)
        then show ?thesis using ok_str_u [OF okc, of "CHR ''0''" "CHR ''0''" "hex_digit (byte_of c div 16)" "hex_digit (byte_of c mod 16)"] sp by auto
      next
        case ls
        have "c1 \<noteq> backslash" "c2 \<noteq> backslash" using ls(3,4) by auto
        then have "ok_str r" using p(3) ls(2) ok_str_plainD by metis
        then have okr: "ok_str (esc_html r)" using IH [of r] ls(2) Cons by simp
        have "esc_html raw = [backslash, CHR ''u'', CHR ''2'', CHR ''0'', CHR ''2'', hex_digit (byte_of c2 mod 16)] @ esc_html r"
          using ls by (simp add: Cons Let_def)
        then show ?thesis using ok_str_u [OF okr, of "CHR ''2''" "CHR ''0''" "CHR ''2''" "hex_digit (byte_of c2 mod 16)"] by auto
      next
        case pl
        then show ?thesis using ok_str_plain [OF okc p(1) False p(2)] by simp
      qed
    qed
  qed (simp add: ok_str_Nil)
qed

lemma wf_esc_json: "wf_json d v \<Longrightarrow> wf_json d (esc_json v)"
  by (induction v arbitrary: d) (auto simp: ok_str_esc_html)

lemma fold_update_values:
  "snd ` set (foldl (\<lambda>m (k, v). AList.update (unquote k) v m) m ms) \<subseteq> snd ` set m \<union> snd ` set ms"
proof (induction ms arbitrary: m)
  case (Cons kv ms)
  obtain k v where [simp]: "kv = (k, v)" by fastforce
  have "snd ` set (AList.update (unquote k) v m) \<subseteq> insert v (snd ` set m)" using set_update [of "unquote k" v m] by force
  with Cons [of "AList.update (unquote k) v m"] show ?case by auto
qed simp

lemma wf_encode_map: "\<forall>v \<in> snd ` set m. wf_json (Suc d) v \<Longrightarrow> d < maxNestingDepth \<Longrightarrow> wf_json d (encode_map True m)"
  by (auto simp: encode_map_def ok_str_quote wf_esc_json)

subsection \<open>Numerals\<close>

lemma nat_digits_digits: "list_all is_digit (nat_digits n) \<and> nat_digits n \<noteq> []"
proof (induction n rule: nat_digits.induct)
  case (1 n)
  have "is_digit (char_of (48 + n mod 10))" "n < 10 \<Longrightarrow> is_digit (char_of (48 + n))" by (simp_all add: is_digit_def)
  then show ?case using 1 by (simp add: nat_digits.simps [of n])
qed

lemma nat_digits_value: "foldl (\<lambda>a c. a * 10 + int (byte_of c) - 48) 0 (nat_digits n) = int n"
proof (induction n rule: nat_digits.induct)
  case (1 n)
  show ?case
  proof (cases "n < 10")
    case False
    have "int (48 + n mod 10) mod 256 = 48 + int (n mod 10)" by simp
    moreover have "n div 10 * 10 + n mod 10 = n" by simp
    then have "int (n div 10) * 10 + int (n mod 10) = int n" by presburger
    ultimately show ?thesis using 1 [OF False] False by (subst nat_digits.simps) (simp del: of_nat_div of_nat_mod)
  qed (subst nat_digits.simps, simp)
qed

lemma nat_digits_hd: "0 < n \<Longrightarrow> hd (nat_digits n) \<noteq> CHR ''0''"
proof (induction n rule: nat_digits.induct)
  case (1 n)
  show ?case
  proof (cases "n < 10")
    case True
    then have "byte_of (char_of (48 + n)) \<noteq> byte_of (CHR ''0'')" using 1(2) by (simp add: byte_of_def)
    then have "char_of (48 + n) \<noteq> CHR ''0''" by metis
    then show ?thesis using True by (subst nat_digits.simps) simp
  next
    case False
    with 1(1) show ?thesis using nat_digits_digits by (subst nat_digits.simps) simp
  qed
qed

lemma digits_ok_num:
  assumes "list_all is_digit l" "l \<noteq> []" "hd l \<noteq> CHR ''0'' \<or> l = ''0''"
  shows "ok_num l"
proof -
  obtain c cs where l: "l = c # cs" using assms(2) by (cases l) auto
  have c: "is_digit c" "c \<noteq> CHR ''-''" using assms(1) l by (auto simp: is_digit_def byte_of_def)
  have "scan_num (l @ rest) = Some (l, rest)" if "delimited rest" for rest
  proof -
    have i: "scan_int (l @ rest) = Some (l, rest)"
      using assms l c scan_digits_delim [OF digit_delim [OF that] assms(1)] by (auto simp: scan_int_def is_digit_def byte_of_def)
    have "scan_frac rest = Some ([], rest)" "scan_exp rest = Some ([], rest)"
      using that by (auto simp: scan_frac_def scan_exp_def split: list.splits)
    then show ?thesis using i c by (simp add: scan_num_def l)
  qed
  then show ?thesis using c l by (simp add: ok_num_def)
qed

lemma ok_num_literal: "0 < cap \<Longrightarrow> ok_num (int_literal cap)"
  using digits_ok_num [of "nat_digits (nat cap)"] nat_digits_digits nat_digits_hd [of "nat cap"] by (simp add: int_literal_def)

lemma limit_value_literal: "0 < cap \<Longrightarrow> int64_ok cap \<Longrightarrow> limit_value (JNum (int_literal cap)) = Some cap"
proof -
  assume cap: "0 < cap" "int64_ok cap"
  obtain c cs where d: "nat_digits (nat cap) = c # cs" using nat_digits_digits by (cases "nat_digits (nat cap)") auto
  have "is_digit c" using nat_digits_digits [of "nat cap"] d by simp
  then have "c \<noteq> CHR ''-''" "c \<noteq> CHR ''+''" by (auto simp: is_digit_def byte_of_def)
  then show ?thesis
    using cap nat_digits_digits [of "nat cap"] nat_digits_value [of "nat cap"] d
    by (simp add: limit_value_def int_literal_def parse_int64_def)
qed

subsection \<open>The rewritten body\<close>

lemma op_fields:
  assumes "o1 \<in> set operations"
  shows "op_capField o1 \<notin> {''model'', ''stream'', ''stream_options''}" "op_altCapField o1 \<notin> {''model'', ''stream'', ''stream_options''}"
    "op_capField o1 \<noteq> [] \<Longrightarrow> op_altCapField o1 \<noteq> op_capField o1"
    "valid_utf8 (op_capField o1)"
  using assms by (auto simp: operations_def opChat_def opLegacy_def opEmbed_def opResp_def opRespGet_def opRespCancel_def decode1 byte_of_def RuneError_def)

lemma valid_names: "valid_utf8 ''model''" "valid_utf8 ''stream_options''"
  by (simp_all add: decode1 byte_of_def RuneError_def)

lemma shallowParse_Inr:
  assumes "shallowParse body = Inr (fs, model, stream)"
  obtains v where "json_parse body = Some v" "dec_map v None = (Some fs, False)"
    "stream = stream_flag fs" "\<exists>raw. map_of fs ''model'' = Some raw \<and> dec_string raw [] = (model, False)" "model \<noteq> []"
proof -
  obtain m e where u: "unmarshal dec_map body None = (m, e)" by fastforce
  obtain fs0 where m: "e = False" "m = Some fs0" using assms u by (cases e; cases m) (auto simp: shallowParse_def split: if_splits)
  obtain raw where raw: "map_of fs0 ''model'' = Some raw"
    using assms u m by (cases "map_of fs0 ''model''") (auto simp: shallowParse_def split: if_splits)
  obtain s er where d: "dec_string raw [] = (s, er)" by fastforce
  have *: "fs0 = fs" "s = model" "er = False" "model \<noteq> []" "stream = stream_flag fs"
    using assms u m raw d by (auto simp: shallowParse_def split: if_splits)
  obtain v where "json_parse body = Some v" "dec_map v None = (Some fs, False)"
    using u m * by (auto simp: unmarshal_def split: option.splits)
  then show thesis using that * raw d by blast
qed

lemma shallow_map_ok: "shallowParse body = Inr (fs, model, stream) \<Longrightarrow> map_ok fs"
  by (erule shallowParse_Inr) (use dec_map_ok json_parse_wf in blast)

lemma shallow_stream: "shallowParse body = Inr (fs, model, stream) \<Longrightarrow> stream_flag fs = stream"
  by (erule shallowParse_Inr) simp

lemma inject_value_wf:
  assumes "map_ok fs" "injectStreamUsage fs = (fs', True)"
  shows "\<exists>v. fs' = AList.update ''stream_options'' v fs \<and> wf_json 1 v"
proof -
  define so where "so = (case map_of fs ''stream_options'' of None \<Rightarrow> []
     | Some raw \<Rightarrow> (case dec_map raw None of (Some m, _) \<Rightarrow> m | (None, _) \<Rightarrow> []))"
  have fs': "fs' = AList.update ''stream_options'' (encode_map True (AList.update ''include_usage'' (JBool True) so)) fs"
    using assms(2) by (simp add: injectStreamUsage_def so_def Let_def split: if_splits)
  have vals: "wf_json 2 v" if "v \<in> snd ` set so" for v
  proof (cases "map_of fs ''stream_options''")
    case (Some raw)
    then have "(''stream_options'', raw) \<in> set fs" by (rule map_of_SomeD)
    then have "wf_json 1 raw" using assms(1) unfolding map_ok_def by fastforce
    then show ?thesis
    proof (cases raw)
      case (JObj ms)
      have "v \<in> snd ` set ms" using that fold_update_values [of "[]" ms] by (simp add: so_def Some JObj) blast
      then show ?thesis using \<open>wf_json 1 raw\<close> by (auto simp: JObj numeral_2_eq_2)
    qed (use that in \<open>simp_all add: so_def Some\<close>)
  qed (use that in \<open>simp add: so_def\<close>)
  have sub: "snd ` set (AList.update ''include_usage'' (JBool True) so) \<subseteq> insert (JBool True) (snd ` set so)"
    using set_update [of "''include_usage''" "JBool True" so] by force
  have "\<forall>v \<in> snd ` set (AList.update ''include_usage'' (JBool True) so). wf_json (Suc 1) v"
  proof
    fix v assume "v \<in> snd ` set (AList.update ''include_usage'' (JBool True) so)"
    with sub consider "v = JBool True" | "v \<in> snd ` set so" by blast
    then show "wf_json (Suc 1) v" using vals [of v] by cases (simp_all add: numeral_2_eq_2)
  qed
  then have "wf_json 1 (encode_map True (AList.update ''include_usage'' (JBool True) so))"
    by (rule wf_encode_map) (simp add: maxNestingDepth_def)
  then show ?thesis using fs' by blast
qed

text \<open>What the preparation does to the map: at most the cap field and the stream options change.\<close>

definition outbound_step :: "operation \<Rightarrow> raw_map \<Rightarrow> raw_map \<Rightarrow> bool" where
  "outbound_step o1 fs fs' \<longleftrightarrow> map_ok fs' \<and> (\<forall>k. k \<noteq> op_capField o1 \<and> k \<noteq> ''stream_options'' \<longrightarrow> map_of fs' k = map_of fs k)"

lemma apply_cap_step:
  assumes "map_ok fs" "o1 \<in> set operations" "apply_cap fs o1 cap = Inr fs'"
  shows "outbound_step o1 fs fs'"
proof -
  have "fs' = fs \<or> (0 < cap \<and> fs' = AList.update (op_capField o1) (JNum (int_literal cap)) fs)"
    using assms(3) by (auto simp: apply_cap_def bind_sum_Inr split: if_splits)
  then show ?thesis
    using assms(1) map_ok_update [OF assms(1) op_fields(4) [OF assms(2)], of "JNum (int_literal cap)"] ok_num_literal
    by (auto simp: outbound_step_def update_conv)
qed

lemma inject_step:
  assumes "map_ok fs" "injectStreamUsage fs = (fs', injd)"
  shows "outbound_step o1 fs fs'"
proof (cases injd)
  case True
  then show ?thesis using inject_value_wf [OF assms(1)] assms map_ok_update [OF assms(1) valid_names(2)]
    by (auto simp: outbound_step_def update_conv)
next
  case False
  then have "fs' = fs" using assms(2) by (auto simp: injectStreamUsage_def Let_def split: if_splits)
  then show ?thesis using assms(1) by (simp add: outbound_step_def)
qed

lemma prepare_cases:
  assumes "prepareOutbound fs o1 cap stream ens conf = Inr (res, injd, fs')" "\<not> (op_capField o1 = [] \<and> \<not> (stream \<and> ens))"
  obtains fs1 where "apply_cap fs o1 cap = Inr fs1" "res = (if 0 < conf then conf else cap)"
    "fs' = fs1 \<or> (\<exists>i. injectStreamUsage fs1 = (fs', i))"
proof -
  obtain fs1 where fs1: "apply_cap fs o1 cap = Inr fs1" using assms by (auto simp: prepareOutbound_def bind_sum_Inr)
  obtain g i where gi: "injectStreamUsage fs1 = (g, i)" by fastforce
  then have "res = (if 0 < conf then conf else cap) \<and> (fs' = fs1 \<or> (\<exists>i. injectStreamUsage fs1 = (fs', i)))"
    using assms(1) unfolding prepareOutbound_def if_not_P [OF assms(2)] fs1 bind_sum.simps Let_def by (auto split: if_splits)
  then show thesis using that fs1 by blast
qed

lemma prepare_step:
  assumes "map_ok fs" "o1 \<in> set operations" "prepareOutbound fs o1 cap stream ens conf = Inr (res, injd, fs')"
  shows "outbound_step o1 fs fs'"
proof (cases "op_capField o1 = [] \<and> \<not> (stream \<and> ens)")
  case True
  then have "fs' = fs" using assms(3) by (simp add: prepareOutbound_def)
  then show ?thesis using assms(1) by (simp add: outbound_step_def)
next
  case False
  from prepare_cases [OF assms(3) False]
  obtain fs1 where fs1: "apply_cap fs o1 cap = Inr fs1" "fs' = fs1 \<or> (\<exists>i. injectStreamUsage fs1 = (fs', i))" by blast
  note s1 = apply_cap_step [OF assms(1,2) fs1(1)]
  then have "map_ok fs1" by (simp add: outbound_step_def)
  then show ?thesis using s1 fs1(2) inject_step [of fs1] by (fastforce simp: outbound_step_def)
qed

lemma compact_obj_nonempty: "compact (encode_map h m) \<noteq> []"
  by (simp add: encode_map_def)

text \<open>Encoding with an upstream model and parsing the bytes again.\<close>

lemma encode_parse:
  assumes "map_ok fs" "valid_utf8 up" "encodeOutbound fs up = Inr (out, fs')"
  shows "json_parse out = Some (encode_map False fs')" "dec_map (encode_map False fs') None = (Some (sort_key fst fs'), False)"
    and "map_of (sort_key fst fs') = (map_of fs)(''model'' \<mapsto> encode_string up)" "up \<noteq> []" "out \<noteq> []" "map_ok fs'"
proof -
  have fs': "fs' = AList.update ''model'' (encode_string up) fs" "out = compact (encode_map False fs')" "up \<noteq> []"
    using assms(3) by (auto simp: encodeOutbound_def Let_def split: if_splits)
  have "wf_json 1 (encode_string up)" by (simp add: encode_string_def ok_str_quote)
  then show ok: "map_ok fs'" unfolding fs'(1) by (rule map_ok_update [OF assms(1) valid_names(1)])
  from map_roundtrip [OF ok] fs' show "json_parse out = Some (encode_map False fs')"
    "dec_map (encode_map False fs') None = (Some (sort_key fst fs'), False)"
    "map_of (sort_key fst fs') = (map_of fs)(''model'' \<mapsto> encode_string up)" by (simp_all add: AList.update_conv')
  show "up \<noteq> []" "out \<noteq> []" using fs' compact_obj_nonempty by simp_all
qed

lemma encoded_parses:
  assumes "map_ok fs" "valid_utf8 up" "encodeOutbound fs up = Inr (out, fs')"
  shows "\<exists>fs3. shallowParse out = Inr (fs3, up, stream_flag fs) \<and> (\<forall>k. k \<noteq> ''model'' \<longrightarrow> map_of fs3 k = map_of fs k)"
proof -
  note e = encode_parse [OF assms]
  have "shallowParse out = Inr (sort_key fst fs', up, stream_flag fs)"
    using e(1-5) unquote_quote [OF assms(2)] by (simp add: shallowParse_def unmarshal_def encode_string_def stream_flag_def)
  then show ?thesis using e(3) by auto
qed

section \<open>Properties\<close>

text \<open>
  C6: The body a backend receives. For every request body the proxy accepts, on every operation and for every
  upstream model, the bytes sent are valid JSON in which each key stands once; read again by the proxy's own
  parser they name exactly the upstream model and the same stream flag; and every field other than the model, the
  operation's output limit and the stream options has the value the client sent. A second model field in the
  client's body, which a backend could resolve differently from the access check, cannot survive.
\<close>

theorem outbound_exact:
  assumes "shallowParse body = Inr (fs, model, stream)" "o1 \<in> set operations"
    and "prepareOutbound fs o1 cap stream ens conf = Inr (res, injd, fs1)"
    and "encodeOutbound fs1 up = Inr (out, fs2)" "valid_utf8 up"
  shows "(\<exists>ms. json_parse out = Some (JObj ms) \<and> distinct (map (unquote \<circ> fst) ms)) \<and>
    (\<exists>fs3. shallowParse out = Inr (fs3, up, stream) \<and>
      (\<forall>k. k \<notin> {''model'', op_capField o1, ''stream_options''} \<longrightarrow> map_of fs3 k = map_of fs k))"
proof -
  have ok: "map_ok fs" using shallow_map_ok [OF assms(1)] .
  have st: "outbound_step o1 fs fs1" using prepare_step [OF ok assms(2,3)] .
  then have ok1: "map_ok fs1" by (simp add: outbound_step_def)
  note e = encode_parse [OF ok1 assms(5,4)]
  have "map (unquote \<circ> fst) (map (\<lambda>(k, v). (quote_body False k, v)) (sort_key fst fs2)) = map fst (sort_key fst fs2)"
    using e(6) by (auto simp: map_ok_def unquote_quote)
  then have "distinct (map (unquote \<circ> fst) (map (\<lambda>(k, v). (quote_body False k, v)) (sort_key fst fs2)))"
    using e(6) distinct_sort_key [of fs2] unfolding map_ok_def by metis
  then have u: "\<exists>ms. json_parse out = Some (JObj ms) \<and> distinct (map (unquote \<circ> fst) ms)"
    using e(1) by (auto simp: encode_map_def)
  have "map_of fs1 ''stream'' = map_of fs ''stream''" using st op_fields(1) [OF assms(2)] by (auto simp: outbound_step_def)
  then have flag: "stream_flag fs1 = stream" using shallow_stream [OF assms(1)] by (simp add: stream_flag_def)
  from encoded_parses [OF ok1 assms(5,4)] obtain fs3 where fs3:
    "shallowParse out = Inr (fs3, up, stream_flag fs1)" "\<forall>k. k \<noteq> ''model'' \<longrightarrow> map_of fs3 k = map_of fs1 k" by blast
  then have "\<forall>k. k \<notin> {''model'', op_capField o1, ''stream_options''} \<longrightarrow> map_of fs3 k = map_of fs k"
    using st by (simp add: outbound_step_def)
  then show ?thesis using u fs3(1) flag by blast
qed

text \<open>
  C7: The output cap is enforced. When a request passes the preparation on an operation with an output limit and the
  model has a cap, the body carries a limit, and every limit in it, in the primary and the alternate field, is a
  non-negative integer not above the cap; a limit the client gave is left as it is, and only when there is none
  the cap itself is inserted. What is charged when usage stays unknown does not depend on the client's limit.
\<close>

theorem output_cap_enforced:
  assumes "o1 \<in> set operations" "generative o1" "0 < cap" "int64_ok cap"
    and "prepareOutbound fs o1 cap stream ens conf = Inr (res, injd, fs1)"
  shows "(\<exists>k \<in> {op_capField o1, op_altCapField o1}. map_of fs1 k \<noteq> None) \<and>
    (\<forall>k v. k \<in> {op_capField o1, op_altCapField o1} - {[]} \<and> map_of fs1 k = Some v \<longrightarrow>
      (\<exists>n. limit_value v = Some n \<and> 0 \<le> n \<and> n \<le> cap) \<and> (map_of fs k = Some v \<or> v = JNum (int_literal cap))) \<and>
    res = (if 0 < conf then conf else cap)"
proof -
  have g: "op_capField o1 \<noteq> []" using assms(2) by (simp add: generative_def)
  note f = op_fields [OF assms(1)]
  obtain fs0 where fs0: "apply_cap fs o1 cap = Inr fs0" "res = (if 0 < conf then conf else cap)"
    "fs1 = fs0 \<or> (\<exists>i. injectStreamUsage fs0 = (fs1, i))"
    by (rule prepare_cases [OF assms(5)]) (use g in simp)
  have same: "map_of fs1 k = map_of fs0 k" if "k \<noteq> ''stream_options''" for k
    using fs0(3) that by (auto simp: injectStreamUsage_def Let_def update_conv split: if_splits)
  obtain p1 n1 p2 n2 where t: "tokenLimit fs (op_capField o1) cap = Inr (p1, n1)"
      "(if op_altCapField o1 \<noteq> [] then tokenLimit fs (op_altCapField o1) cap else Inr (False, 0)) = Inr (p2, n2)"
      "fs0 = (if \<not> p1 \<and> \<not> p2 then AList.update (op_capField o1) (JNum (int_literal cap)) fs else fs)"
    using fs0(1) g assms(3) by (auto simp: apply_cap_def bind_sum_Inr)
  have tl: "(p \<longleftrightarrow> map_of fs k \<noteq> None) \<and> (\<forall>v. map_of fs k = Some v \<longrightarrow> (\<exists>n. limit_value v = Some n \<and> 0 \<le> n \<and> n \<le> cap))"
    if "tokenLimit fs k cap = Inr (p, n)" for k p n
    using that by (auto simp: tokenLimit_def split: option.splits if_splits)
  have lim: "limit_value (JNum (int_literal cap)) = Some cap" using limit_value_literal assms(3,4) by blast
  note t1 = tl [OF t(1)]
  have t2: "op_altCapField o1 \<noteq> [] \<Longrightarrow> (p2 \<longleftrightarrow> map_of fs (op_altCapField o1) \<noteq> None) \<and>
      (\<forall>v. map_of fs (op_altCapField o1) = Some v \<longrightarrow> (\<exists>n. limit_value v = Some n \<and> 0 \<le> n \<and> n \<le> cap))"
    using tl t(2) by auto
  have t3: "op_altCapField o1 = [] \<Longrightarrow> \<not> p2" using t(2) by auto
  have ex: "\<exists>k \<in> {op_capField o1, op_altCapField o1}. map_of fs0 k \<noteq> None"
    using t(3) t1 t2 t3 by (cases "op_altCapField o1 = []") (auto simp: update_conv)
  have all: "(\<exists>n. limit_value v = Some n \<and> 0 \<le> n \<and> n \<le> cap) \<and> (map_of fs k = Some v \<or> v = JNum (int_literal cap))"
    if "k \<in> {op_capField o1, op_altCapField o1} - {[]}" "map_of fs0 k = Some v" for k v
    using that t(3) t1 t2 lim assms(3) by (auto simp: update_conv split: if_splits)
  have "map_of fs1 k = map_of fs0 k" if "k \<in> {op_capField o1, op_altCapField o1}" for k
    using same f(1,2) that by auto
  then show ?thesis using ex all fs0(2) by (metis (no_types, lifting) DiffD1)
qed

text \<open>A body with two model fields, of which the last counts.\<close>

definition ex_body :: bytes where
  "ex_body = ''{'' @ [quote_char] @ ''model'' @ [quote_char] @ '':'' @ [quote_char] @ ''a'' @ [quote_char] @ '','' @
     [quote_char] @ ''model'' @ [quote_char] @ '':'' @ [quote_char] @ ''b'' @ [quote_char] @ ''}''"

lemma ex_body_parse: "shallowParse ex_body = Inr ([(''model'', JStr ''b'')], ''b'', False)"
  unfolding ex_body_def by code_simp

theorem outbound_exact_witness:
  "\<exists>out fs2 fs3. encodeOutbound [(''model'', JStr ''b'')] ''up'' = Inr (out, fs2) \<and> shallowParse out = Inr (fs3, ''up'', False)"
proof -
  obtain out fs2 where e: "encodeOutbound [(''model'', JStr ''b'')] ''up'' = Inr (out, fs2)" by (simp add: encodeOutbound_def Let_def)
  have p: "prepareOutbound [(''model'', JStr ''b'')] opEmbed 0 False False 0 = Inr (0, False, [(''model'', JStr ''b'')])"
    by (simp add: prepareOutbound_def opEmbed_def)
  have "opEmbed \<in> set operations" "valid_utf8 ''up''" by (simp_all add: operations_def decode1 byte_of_def RuneError_def)
  from outbound_exact [OF ex_body_parse this(1) p e this(2)] e show ?thesis by blast
qed

theorem output_cap_enforced_witness:
  "prepareOutbound [(''model'', JStr ''b'')] opLegacy 7 False False 0 = Inr (7, False, [(''model'', JStr ''b''), (''max_tokens'', JNum ''7'')]) \<and>
   (\<exists>n. limit_value (JNum ''7'') = Some n \<and> 0 \<le> n \<and> n \<le> 7)"
proof -
  have l: "int_literal 7 = ''7''" by code_simp
  have p: "prepareOutbound [(''model'', JStr ''b'')] opLegacy 7 False False 0 = Inr (7, False, [(''model'', JStr ''b''), (''max_tokens'', JNum ''7'')])"
    by (simp add: prepareOutbound_def apply_cap_def tokenLimit_def opLegacy_def l)
  have "opLegacy \<in> set operations" "generative opLegacy" by (simp_all add: operations_def generative_def opLegacy_def)
  note c = output_cap_enforced [OF this _ _ p, THEN conjunct2, THEN conjunct1, rule_format, of "''max_tokens''" "JNum ''7''"]
  have "\<exists>n. limit_value (JNum ''7'') = Some n \<and> 0 \<le> n \<and> n \<le> 7" using c by (simp add: opLegacy_def int64_ok_def l)
  with p show ?thesis by blast
qed

end
