(* ===== verification/Proxy.thy ===== *)
theory Proxy
  imports Auth Request Routing Accounting Affinity Budget
begin

text \<open>
  The inference pipeline (\<^verbatim>\<open>src/internal/proxy/proxy.go\<close>): construction, the body with its byte budget, the target and its
  access check, preparation, the retry loop, the relay of streams, and accounting.

  A handler is a function on the state of the proxy. What it meets outside is its environment: the clock, whether
  the client has gone, the outcome of admission and of the HTTP exchange of each attempt, and for a stream what
  happens around each event. The loop returns, beside its outcome, the list of requests handed to backend clients.
\<close>

section \<open>Definitions\<close>

subsection \<open>State\<close>

record proxy =
  px_router :: router
  px_clients :: "string \<rightharpoonup> client"
  px_models :: "string \<rightharpoonup> model_cfg"
  px_backends :: "string \<rightharpoonup> backend_cfg"
  px_server :: server_cfg
  px_retry :: retry_cfg
  px_accounting :: accounting_cfg
  px_affinity :: affinity
  px_budget :: budget
  px_quota :: "quota option"
  px_acc :: "writer option"
  px_usageOptIn :: bool
  px_draining :: bool

text \<open>The byte budget is the product of two configured sizes, or one MiB when that is not positive.\<close>

definition budget_total :: "server_cfg \<Rightarrow> int" where
  "budget_total s = (let t = wrap64 (sv_MaxBufferedRequestBytes s * sv_MaxInflightRequests s) in if t \<le> 0 then 1048576 else t)"

definition proxy_New ::
  "server_cfg \<Rightarrow> retry_cfg \<Rightarrow> accounting_cfg \<Rightarrow> responses_cfg \<Rightarrow> (string \<times> model_cfg) list \<Rightarrow> (string \<times> backend_cfg) list \<Rightarrow>
   router option \<Rightarrow> (string \<times> client) list \<Rightarrow> quota option \<Rightarrow> writer option \<Rightarrow> string + proxy" where
  "proxy_New sv rt ac rs ms bs router clients quota acc =
     (case router of
        None \<Rightarrow> Inl ''proxy: configuration, router, and clients are required''
      | Some r \<Rightarrow>
          if clients = [] then Inl ''proxy: configuration, router, and clients are required''
          else Inr \<lparr>px_router = r, px_clients = map_of clients, px_models = map_of ms, px_backends = map_of bs, px_server = sv,
            px_retry = rt, px_accounting = ac, px_affinity = newAffinity (rs_AffinityTTL rs) (rs_MaxAffinityEntries rs),
            px_budget = newBudget (budget_total sv), px_quota = quota, px_acc = acc,
            px_usageOptIn = (case ac_EnsureStreamUsage ac of None \<Rightarrow> True | Some b \<Rightarrow> b), px_draining = False\<rparr>)"

definition ensureStreamUsage :: "proxy \<Rightarrow> key \<Rightarrow> bool" where
  "ensureStreamUsage p k \<longleftrightarrow> px_usageOptIn p \<and> (ac_Enabled (px_accounting p) \<or> 0 < TokensPerHour (Limits k) \<or> 0 < TokensPerDay (Limits k))"

definition BeginDraining :: "proxy \<Rightarrow> proxy" where
  "BeginDraining p = p\<lparr>px_draining := True,
     px_clients := (\<lambda>n. map_option (\<lambda>c. c\<lparr>cl_adm := Drain (cl_adm c)\<rparr>) (px_clients p n))\<rparr>"

record preq =
  pq_Key :: key
  pq_RequestID :: string
  pq_ResponseID :: string
  pq_Header :: headers
  pq_ContentLength :: int
  pq_Body :: bytes
  pq_BodyEnd :: "go_error option"

subsection \<open>Body\<close>

text \<open>The budget after reading, the reservation still held, and the error or the body.\<close>

definition readBody :: "proxy \<Rightarrow> preq \<Rightarrow> operation \<Rightarrow> budget \<times> int \<times> (api_error + bytes)" where
  "readBody p q o1 =
     (let b = px_budget p; enc = hdr_get (pq_Header q) ''Content-Encoding''; maxBody = sv_MaxBodyBytes (px_server p);
          cl = pq_ContentLength q in
      if op_method o1 \<noteq> ''POST'' then (b, 0, Inr [])
      else if enc \<noteq> [] \<and> \<not> equal_fold enc ''identity'' then (b, 0, Inl errUnsupported)
      else
        let (b1, reserve, ok) =
              (if 0 < cl \<and> cl \<le> maxBody then (case Acquire b cl of (b', ok) \<Rightarrow> (b', if ok then cl else 0, ok))
               else if cl < 0 then (case Acquire b maxBody of (b', ok) \<Rightarrow> (b', if ok then maxBody else 0, ok))
               else (b, 0, True))
        in if \<not> ok then (b1, 0, Inl errOverloaded)
           else case readBodyLimited cl (pq_Body q) (pq_BodyEnd q) maxBody of
             Inl TooLarge \<Rightarrow> (b1, reserve, Inl errBodyTooBig)
           | Inl Unreadable \<Rightarrow> (b1, reserve, Inl errBodyUnread)
           | Inr body \<Rightarrow>
               (let n = int (length body) in
                if n < reserve then (Release b1 (reserve - n), n, Inr body) else (b1, reserve, Inr body)))"

definition release_body :: "budget \<Rightarrow> int \<Rightarrow> budget" where
  "release_body b reserve = (if 0 < reserve then Release b reserve else b)"

subsection \<open>Target\<close>

record ptarget =
  pt_model :: string
  pt_stream :: bool
  pt_backend :: string
  pt_path :: string
  pt_fields :: "raw_map option"
  pt_body :: bytes

definition parse_failure :: "body_error \<Rightarrow> api_error" where
  "parse_failure e = (case e of errJSON \<Rightarrow> errBadJSON | errMissingModel \<Rightarrow> errNoModel | _ \<Rightarrow> errModelType)"

definition target_by_model :: "proxy \<Rightarrow> preq \<Rightarrow> operation \<Rightarrow> bytes \<Rightarrow> time \<Rightarrow> proxy \<times> ptarget \<times> api_error option" where
  "target_by_model p q o1 body now =
     (let t0 = \<lparr>pt_model = [], pt_stream = False, pt_backend = [], pt_path = op_path o1, pt_fields = None, pt_body = body\<rparr> in
      case shallowParse body of
        Inl e \<Rightarrow> (p, t0, Some (parse_failure e))
      | Inr (fs, publicModel, stream) \<Rightarrow>
          let t = t0\<lparr>pt_fields := Some fs, pt_model := publicModel, pt_stream := stream\<rparr> in
          if stream \<and> \<not> generative o1 then (p, t, Some errNoStream)
          else if \<not> Allows (pq_Key q) publicModel \<or> \<not> Has (px_router p) publicModel then (p, t, Some errModelDenied)
          else if TypeOf (px_router p) publicModel = ''embedding'' \<and> generative o1 then (p, t, Some errNotGenerate)
          else if TypeOf (px_router p) publicModel = ''generation'' \<and> op_endpoint o1 = ''embeddings'' then (p, t, Some errNotEmbed)
          else if op_capture o1 then
            (case stringField fs ''previous_response_id'' of
               None \<Rightarrow> (p, t, None)
             | Some prev \<Rightarrow>
                 (case Get (px_affinity p) now (ID (pq_Key q)) prev of
                    (a, None) \<Rightarrow> (p\<lparr>px_affinity := a\<rparr>, t, Some errPrevNotFound)
                  | (a, Some (b, m)) \<Rightarrow>
                      if m \<noteq> publicModel then (p\<lparr>px_affinity := a\<rparr>, t, Some errPrevNotFound)
                      else (p\<lparr>px_affinity := a\<rparr>, t\<lparr>pt_backend := b\<rparr>, None)))
          else (p, t, None))"

definition target_by_response :: "proxy \<Rightarrow> preq \<Rightarrow> operation \<Rightarrow> bytes \<Rightarrow> time \<Rightarrow> proxy \<times> ptarget \<times> api_error option" where
  "target_by_response p q o1 body now =
     (let t0 = \<lparr>pt_model = [], pt_stream = False, pt_backend = [], pt_path = op_path o1, pt_fields = None, pt_body = body\<rparr> in
      case Get (px_affinity p) now (ID (pq_Key q)) (pq_ResponseID q) of
        (a, None) \<Rightarrow> (p\<lparr>px_affinity := a\<rparr>, t0, Some errRespNotFound)
      | (a, Some (b, m)) \<Rightarrow>
          let p' = p\<lparr>px_affinity := a\<rparr> in
          if \<not> Allows (pq_Key q) m then (p', t0, Some errRespNotFound)
          else if \<not> isValidResponseID (pq_ResponseID q) then (p', t0\<lparr>pt_backend := b\<rparr>, Some errRespBadID)
          else (p', t0\<lparr>pt_backend := b, pt_path := ''/v1/responses/'' @ pq_ResponseID q @ (if op_method o1 = ''POST'' then ''/cancel'' else [])\<rparr>, None))"

definition resolveTarget :: "proxy \<Rightarrow> preq \<Rightarrow> operation \<Rightarrow> bytes \<Rightarrow> time \<Rightarrow> proxy \<times> ptarget \<times> api_error option" where
  "resolveTarget p q o1 body now =
     (if op_route o1 = routeByModel then target_by_model p q o1 body now else target_by_response p q o1 body now)"

subsection \<open>Preparation\<close>

record outbound =
  ob_fields :: "raw_map option"
  ob_body :: bytes
  ob_reservation :: int
  ob_injectedUsage :: bool

definition windowLimits :: "key_limits \<Rightarrow> window_limit" where
  "windowLimits l = \<lparr>wl_TokensPerHour = TokensPerHour l, wl_TokensPerDay = TokensPerDay l\<rparr>"

definition prepare :: "proxy \<Rightarrow> preq \<Rightarrow> operation \<Rightarrow> ptarget \<Rightarrow> time \<Rightarrow> proxy \<times> outbound \<times> api_error option" where
  "prepare p q o1 t now =
     (let ob = \<lparr>ob_fields = None, ob_body = pt_body t, ob_reservation = 0, ob_injectedUsage = False\<rparr> in
      if op_route o1 \<noteq> routeByModel then (p, ob, None)
      else
        let cap = (case px_models p (pt_model t) of Some m \<Rightarrow> mo_MaxOutputTokens m | None \<Rightarrow> 0) in
        case prepareOutbound (case pt_fields t of Some fs \<Rightarrow> fs | None \<Rightarrow> []) o1 cap (pt_stream t) (ensureStreamUsage p (pq_Key q))
               (ac_UnknownUsageReservation (px_accounting p)) of
          Inl errCapExceeded \<Rightarrow> (p, ob, Some errOutputCapExceeded)
        | Inl errCapInvalid \<Rightarrow> (p, ob, Some errOutputLimitInvalid)
        | Inl _ \<Rightarrow> (p, ob, Some errNotNormal)
        | Inr (reservation, injected, fs) \<Rightarrow>
            let ob1 = \<lparr>ob_fields = Some fs, ob_body = [], ob_reservation = reservation, ob_injectedUsage = injected\<rparr> in
            case px_quota p of
              None \<Rightarrow> (p, ob1, None)
            | Some qt \<Rightarrow>
                (case Accounting.Admit qt (ID (pq_Key q)) (windowLimits (Limits (pq_Key q))) reservation now of
                   (qt', None) \<Rightarrow> (p\<lparr>px_quota := Some qt'\<rparr>, ob1, None)
                 | (qt', Some _) \<Rightarrow> (p\<lparr>px_quota := Some qt'\<rparr>, ob1, Some errQuota)))"

subsection \<open>Backoff\<close>

fun backoff_loop :: "nat \<Rightarrow> duration \<Rightarrow> duration \<Rightarrow> duration" where
  "backoff_loop 0 d mx = d"
| "backoff_loop (Suc n) d mx =
     (if d < mx then backoff_loop n (let d2 = wrap64 (d * 2) in if mx < d2 then mx else d2) mx else d)"

text \<open>The wait before the jitter; with jitter a value below it is drawn.\<close>

definition backoff_base :: "retry_cfg \<Rightarrow> nat \<Rightarrow> duration" where
  "backoff_base r attempt =
     (let mx = rt_MaxBackoff r; d = backoff_loop (attempt - 1) (rt_InitialBackoff r) mx in if mx < d then mx else d)"

definition backoff_delay :: "retry_cfg \<Rightarrow> (int \<Rightarrow> int) \<Rightarrow> nat \<Rightarrow> duration" where
  "backoff_delay r draw attempt =
     (let d = backoff_base r attempt in if JitterEnabled r \<and> 0 < d then draw d else d)"

text \<open>Whether the wait ran to its end; it is not started for a delay that is not positive.\<close>

definition sleepBackoff :: "retry_cfg \<Rightarrow> (int \<Rightarrow> int) \<Rightarrow> bool \<Rightarrow> nat \<Rightarrow> bool" where
  "sleepBackoff r draw ctxDone attempt = (if backoff_delay r draw attempt \<le> 0 then True else \<not> ctxDone)"

subsection \<open>The retry loop\<close>

record attempt_env =
  en_gone :: bool
  en_load :: "string \<Rightarrow> int"
  en_now :: time
  en_draw :: "int \<Rightarrow> int"
  en_goneSleep :: bool
  en_acquired :: "go_error + unit"
  en_valid :: "http_request \<Rightarrow> bool"
  en_transport :: "duration \<Rightarrow> http_request \<Rightarrow> go_error + http_response"
  en_timeoutFired :: bool
  en_goneAfter :: bool

record loop_state =
  lo_router :: router
  lo_fields :: "raw_map option"
  lo_tried :: "string list"
  lo_lastErr :: "go_error option"
  lo_lastFailed :: string
  lo_retryAfter :: string
  lo_retries :: int
  lo_backend :: string
  lo_sent :: "(string \<times> backend_request) list"

text \<open>How the loop ends: no answer possible, an error (with the Retry-After to forward), or a result.\<close>

datatype loop_out = LoCanceled | LoFail api_error string | LoGot string result | LoNothing

datatype verdict = Again | Break | Stop loop_out

definition pick_backend :: "ptarget \<Rightarrow> attempt_env \<Rightarrow> nat \<Rightarrow> loop_state \<Rightarrow> loop_state \<times> (verdict + string)" where
  "pick_backend t env attempt st =
     (if pt_backend t \<noteq> [] then (st, Inr (pt_backend t))
      else case Select (lo_router st) (en_load env) (en_now env) (pt_model t) (lo_tried st) of
        (r, Inl serr) \<Rightarrow>
          let st' = st\<lparr>lo_router := r\<rparr> in
          (case lo_lastErr st of
             Some e \<Rightarrow>
               if bf_retryable (classifyBackendError e) \<and> lo_lastFailed st \<noteq> [] then (st', Inr (lo_lastFailed st))
               else if attempt = 0 then (st', Inl (Stop (LoFail errNoBackend []))) else (st', Inl Break)
           | None \<Rightarrow> if attempt = 0 then (st', Inl (Stop (LoFail errNoBackend []))) else (st', Inl Break))
      | (r, Inr tgt) \<Rightarrow> (st\<lparr>lo_router := r\<rparr>, Inr (Backend tgt)))"

definition attempt_body :: "router \<Rightarrow> outbound \<Rightarrow> string \<Rightarrow> raw_map option \<Rightarrow> body_error + bytes \<times> raw_map option" where
  "attempt_body r ob name decoded =
     (case decoded of
        None \<Rightarrow> Inr (ob_body ob, None)
      | Some fs \<Rightarrow>
          bind_sum (encodeOutbound fs (case UpstreamFor r name of Some u \<Rightarrow> u | None \<Rightarrow> [])) (\<lambda>(bd, fs'). Inr (bd, Some fs')))"

definition on_failure :: "attempt_env \<Rightarrow> string \<Rightarrow> go_error \<Rightarrow> result option \<Rightarrow> loop_state \<Rightarrow> loop_state \<times> verdict" where
  "on_failure env name err res st =
     (if is_canceled err \<and> en_goneAfter env then (st, Stop LoCanceled)
      else
        let ra = (case (res, as_upstream err) of
                    (Some r, Some up) \<Rightarrow> if up_Status up = 429 then hdr_get (re_Header r) ''Retry-After'' else []
                  | _ \<Rightarrow> []);
            st1 = st\<lparr>lo_lastErr := Some err, lo_lastFailed := name, lo_retryAfter := ra\<rparr>;
            f = classifyBackendError err
        in if bf_retryable f
           then (st1\<lparr>lo_router := (if bf_poisonsHealth f then RecordFailure (lo_router st1) (en_now env) name else lo_router st1),
                     lo_tried := lo_tried st1 @ [name]\<rparr>, Again)
           else (st1, Break))"

definition send_attempt :: "proxy \<Rightarrow> operation \<Rightarrow> ptarget \<Rightarrow> outbound \<Rightarrow> headers \<Rightarrow> attempt_env \<Rightarrow> nat \<Rightarrow> string \<Rightarrow> loop_state \<Rightarrow> loop_state \<times> verdict" where
  "send_attempt p o1 t ob hdrs env attempt name st =
     (case attempt_body (lo_router st) ob name (lo_fields st) of
        Inl e \<Rightarrow> (st, Stop (LoFail (if e = errNoUpstreamModel then errInternal else errNotNormal) []))
      | Inr (bd, fs) \<Rightarrow>
          let repeat = (0 < attempt \<and> name = lo_lastFailed st);
              st1 = st\<lparr>lo_fields := fs, lo_retries := (if repeat then lo_retries st + 1 else lo_retries st)\<rparr> in
          if repeat \<and> \<not> sleepBackoff (px_retry p) (en_draw env) (en_goneSleep env) attempt then (st1, Stop LoCanceled)
          else case px_clients p name of
            None \<Rightarrow> (st1, Stop (LoFail errInternal []))
          | Some c \<Rightarrow>
              let req = \<lparr>bq_Method = op_method o1, bq_Path = pt_path t, bq_Body = bd, bq_Headers = hdrs, bq_Stream = pt_stream t\<rparr>;
                  st2 = st1\<lparr>lo_backend := name, lo_sent := lo_sent st1 @ [(name, req)]\<rparr>
              in case fst (Forward c req (en_acquired env) (en_valid env) (en_transport env) (en_timeoutFired env)) of
                FwdErr err \<Rightarrow> on_failure env name err None st2
              | FwdUpstream r err \<Rightarrow> on_failure env name err (Some r) st2
              | FwdOk r \<Rightarrow> (st2\<lparr>lo_router := RecordSuccess (lo_router st2) name\<rparr>, Stop (LoGot name r)))"

definition terminal :: "proxy \<Rightarrow> loop_state \<Rightarrow> loop_out" where
  "terminal p st =
     (case lo_lastErr st of
        None \<Rightarrow> LoNothing
      | Some err \<Rightarrow>
          let f = classifyBackendError err in
          LoFail (relayUpstreamDetail (px_backends p) (bf_resp f) (lo_lastFailed st) err)
            (if bf_resp f = errUpstreamRateLimited \<and> lo_retryAfter st \<noteq> [] then lo_retryAfter st else []))"

fun attempts ::
  "proxy \<Rightarrow> operation \<Rightarrow> ptarget \<Rightarrow> outbound \<Rightarrow> headers \<Rightarrow> (nat \<Rightarrow> attempt_env) \<Rightarrow> nat \<Rightarrow> nat \<Rightarrow> loop_state \<Rightarrow> loop_state \<times> loop_out" where
  "attempts p o1 t ob hdrs env 0 attempt st = (st, terminal p st)"
| "attempts p o1 t ob hdrs env (Suc n) attempt st =
     (if en_gone (env attempt) then (st, LoCanceled)
      else case pick_backend t (env attempt) attempt st of
        (st1, Inl (Stop out)) \<Rightarrow> (st1, out)
      | (st1, Inl _) \<Rightarrow> (st1, terminal p st1)
      | (st1, Inr name) \<Rightarrow>
          (case send_attempt p o1 t ob hdrs (env attempt) attempt name st1 of
             (st2, Stop out) \<Rightarrow> (st2, out)
           | (st2, Break) \<Rightarrow> (st2, terminal p st2)
           | (st2, Again) \<Rightarrow> attempts p o1 t ob hdrs env n (Suc attempt) st2))"

subsection \<open>Streams\<close>

text \<open>What happens around event \<open>i\<close>: the client has gone, the backend is idle too long, the write fails.\<close>

record pump_env =
  pe_gone :: "nat \<Rightarrow> bool"
  pe_idle :: "nat \<Rightarrow> bool"
  pe_goneErr :: bool
  pe_writeErr :: "nat \<Rightarrow> bool"

record pump_state =
  pu_bytesOut :: int
  pu_captured :: "string option"
  pu_usage :: usage
  pu_out :: "bytes list"

definition stream_end :: "go_error option \<Rightarrow> sse_error" where
  "stream_end e = (case e of None \<Rightarrow> EOF | Some err \<Rightarrow> ReadError (if is_canceled err then ''canceled'' else ''error''))"

text \<open>The event is observed: a response ID the first time there is a valid one, usage whenever there is some.\<close>

definition observe :: "bool \<Rightarrow> bytes option \<Rightarrow> pump_state \<Rightarrow> pump_state" where
  "observe cap data st =
     (case data of
        None \<Rightarrow> st
      | Some d \<Rightarrow>
          let st1 = (if cap \<and> pu_captured st = None \<and> isValidResponseID (responseIDFromData d)
                     then st\<lparr>pu_captured := Some (responseIDFromData d)\<rparr> else st);
              u = ParseStreamChunk d
          in if us_Present u then st1\<lparr>pu_usage := u\<rparr> else st1)"

definition swallowed :: "bool \<Rightarrow> bytes \<Rightarrow> bool" where
  "swallowed injected ev \<longleftrightarrow> (case dataField ev of None \<Rightarrow> False | Some d \<Rightarrow> injected \<and> isUsageOnlyChunk d)"

function pump_loop :: "bool \<Rightarrow> bool \<Rightarrow> int \<Rightarrow> pump_env \<Rightarrow> nat \<Rightarrow> sseParser \<Rightarrow> pump_state \<Rightarrow> pump_state \<times> string" where
  "pump_loop cap injected mx env i p st =
     (if pe_gone env i then (st, ''client_canceled'')
      else if pe_idle env i then (st, ''backend_stream_error'')
      else case nextEvent p of
        (Inl e, p') \<Rightarrow>
          (st, if e = EOF then ''ok'' else if e = ReadError ''canceled'' \<and> pe_goneErr env then ''client_canceled'' else ''backend_stream_error'')
      | (Inr ev, p') \<Rightarrow>
          if ev = [] then pump_loop cap injected mx env (Suc i) p' st
          else
            let st1 = observe cap (dataField ev) st in
            if swallowed injected ev then pump_loop cap injected mx env (Suc i) p' st1
            else if 0 < mx \<and> mx < pu_bytesOut st1 + int (length ev) then (st1, ''backend_stream_error'')
            else if pe_writeErr env i then (st1, ''client_write_error'')
            else pump_loop cap injected mx env (Suc i) p'
                   (st1\<lparr>pu_bytesOut := pu_bytesOut st1 + int (length ev), pu_out := pu_out st1 @ [ev]\<rparr>))"
  by pat_completeness auto
termination
  by (relation "measure (\<lambda>(_, _, _, _, _, p, _). sse_size p)") (auto dest: nextEvent_decreases [OF sym])

declare pump_loop.simps [simp del]

definition pump :: "proxy \<Rightarrow> operation \<Rightarrow> bool \<Rightarrow> pump_env \<Rightarrow> bytes \<times> go_error option \<Rightarrow> pump_state \<times> string" where
  "pump p o1 injected env body =
     pump_loop (op_capture o1) injected (sv_MaxResponseBytes (px_server p)) env 0 (newSSEParser (fst body) (stream_end (snd body)))
       \<lparr>pu_bytesOut = 0, pu_captured = None, pu_usage = no_usage, pu_out = []\<rparr>"

text \<open>The buffered body goes out in chunks until a write fails.\<close>

definition writeChunk :: nat where "writeChunk = 32768"

function body_chunks :: "bytes \<Rightarrow> bytes list" where
  "body_chunks body = (if body = [] then [] else take writeChunk body # body_chunks (drop writeChunk body))"
  by auto
termination by (relation "measure length") (auto simp: writeChunk_def)

declare body_chunks.simps [simp del]

definition writeBuffered :: "nat \<Rightarrow> bytes \<Rightarrow> bytes" where
  "writeBuffered n body = concat (take n (body_chunks body))"

subsection \<open>Accounting\<close>

record disp_out =
  do_status :: int
  do_class :: string
  do_model :: string
  do_backend :: string
  do_bytesIn :: int
  do_bytesOut :: int
  do_retries :: int
  do_usage :: usage
  do_usageStatus :: usage_status
  do_reservation :: int

definition charged_total :: "disp_out \<Rightarrow> int" where
  "charged_total out =
     (if do_usageStatus out = UsageUnknown
      then (if 200 \<le> do_status out \<and> do_status out < 300 then do_reservation out else 0)
      else us_Total (do_usage out))"

definition usage_record :: "preq \<Rightarrow> operation \<Rightarrow> time \<Rightarrow> time \<Rightarrow> disp_out \<Rightarrow> acc_record" where
  "usage_record q o1 start now out =
     \<lparr>rc_Time = now, rc_RequestID = pq_RequestID q, rc_KeyID = ID (pq_Key q), rc_Model = logModel (do_model out),
      rc_Backend = do_backend out, rc_Endpoint = op_endpoint o1, rc_Status = do_status out,
      rc_DurationMS = go_div (time_sub now start) Millisecond, rc_InputTokens = us_Input (do_usage out),
      rc_OutputTokens = us_Output (do_usage out), rc_TotalTokens = us_Total (do_usage out), rc_CachedTokens = us_Cached (do_usage out),
      rc_ReasoningTokens = us_Reasoning (do_usage out), rc_UsageStatus = status_text (do_usageStatus out), rc_Retries = do_retries out,
      rc_ChargedTokens = charged_total out\<rparr>"

definition account :: "proxy \<Rightarrow> preq \<Rightarrow> operation \<Rightarrow> time \<Rightarrow> time \<Rightarrow> disp_out \<Rightarrow> proxy" where
  "account p q o1 start now out =
     (let total = charged_total out;
          quota' = (case px_quota p of None \<Rightarrow> None
                    | Some qt \<Rightarrow> if 0 < total then Some (Settle qt (ID (pq_Key q)) total now) else Some qt);
          acc' = map_option (\<lambda>w. Enqueue w (usage_record q o1 start now out) (time_unix now)) (px_acc p)
      in p\<lparr>px_quota := quota', px_acc := acc'\<rparr>)"

end
