(* ===== verification/Relay.thy ===== *)
theory Relay
  imports Proxy
begin

text \<open>
  The relay of a live stream (\<^verbatim>\<open>pump\<close> in \<^verbatim>\<open>src/internal/proxy/proxy.go\<close>): which events of the backend reach the
  client, in which order, how many bytes, and what is learnt from them on the way.
\<close>

section \<open>Lemmas\<close>

text \<open>The events that are passed on, and what is observed from a list of events.\<close>

definition relayed :: "bool \<Rightarrow> bytes list \<Rightarrow> bytes list" where
  "relayed injected evs = filter (\<lambda>ev. ev \<noteq> [] \<and> \<not> swallowed injected ev) evs"

definition first_id :: "bytes list \<Rightarrow> string option" where
  "first_id evs = find isValidResponseID (map (\<lambda>ev. case dataField ev of None \<Rightarrow> [] | Some d \<Rightarrow> responseIDFromData d) (filter (\<lambda>ev. ev \<noteq> []) evs))"

definition no_faults :: "pump_env \<Rightarrow> bool" where
  "no_faults env \<longleftrightarrow> (\<forall>i. \<not> pe_gone env i \<and> \<not> pe_idle env i \<and> \<not> pe_writeErr env i)"

lemma isValid_nil [simp]: "\<not> isValidResponseID []"
  by (simp add: isValidResponseID_def)

lemma relayed_simps [simp]:
  "relayed injd [] = []" "relayed injd (ev # evs) = (if ev \<noteq> [] \<and> \<not> swallowed injd ev then ev # relayed injd evs else relayed injd evs)"
  by (simp_all add: relayed_def)

lemma first_id_nil [simp]: "first_id [] = None"
  by (simp add: first_id_def)

lemma observe_frame [simp]: "pu_bytesOut (observe cap d st) = pu_bytesOut st" "pu_out (observe cap d st) = pu_out st"
  by (simp_all add: observe_def Let_def split: option.split)

lemma observe_captured:
  "pu_captured (observe cap (dataField ev) st) =
    (case pu_captured st of Some i \<Rightarrow> Some i | None \<Rightarrow> if cap then first_id [ev] else None)" if "ev \<noteq> []"
  using that by (auto simp: observe_def first_id_def Let_def split: option.splits)

lemma first_id_Cons:
  "first_id (ev # evs) = (case first_id [ev] of Some i \<Rightarrow> Some i | None \<Rightarrow> first_id evs)"
  by (auto simp: first_id_def split: option.splits)

lemma sse_events_unfold:
  "nextEvent p = (Inl e, p') \<Longrightarrow> sse_events p = ([], e)"
  "nextEvent p = (Inr ev, p') \<Longrightarrow> sse_events p = (ev # fst (sse_events p'), snd (sse_events p'))"
  by (simp_all add: sse_events.simps [of p] split: prod.splits)

text \<open>A parser ends with \<^verbatim>\<open>io.EOF\<close> only when its reader does.\<close>

lemma read_loop_EOF: "read_loop acc bs e = ((l, Some EOF), bs') \<Longrightarrow> e = EOF"
  by (induction acc bs e rule: read_loop.induct) (auto split: if_splits)

lemma nextEvent_EOF: "nextEvent p = (Inl EOF, p') \<Longrightarrow> sp_end p = EOF"
proof (induction "length (sp_br p)" arbitrary: p rule: less_induct)
  case less
  obtain line r bs where rl: "read_loop [] (sp_br p) (sp_end p) = ((line, r), bs)" by (metis surj_pair)
  show ?case
  proof (cases r)
    case None
    note rl = rl [unfolded None]
    consider "line = []" "\<not> sp_have p" | "line = []" "sp_have p" | "line \<noteq> []" "maxSSEEvent < int (length (sp_event p)) + int (length line) + 2"
      | "line \<noteq> []" "int (length (sp_event p)) + int (length line) + 2 \<le> maxSSEEvent" by linarith
    then show ?thesis
    proof cases
      case 1
      then show ?thesis using less.hyps [of "p\<lparr>sp_br := bs, sp_line := []\<rparr>"] less.prems nextEvent_line(1) [OF rl] read_loop_consumes [OF rl] by simp
    next
      case 4
      then show ?thesis using less.hyps [of "p\<lparr>sp_br := bs, sp_line := line, sp_have := True, sp_event := sp_event p @ line @ [LF]\<rparr>"] less.prems
          nextEvent_line(4) [OF rl] read_loop_consumes [OF rl] by simp
    qed (use less.prems nextEvent_line(2,3) [OF rl] in auto)
  next
    case (Some err)
    then show ?thesis using rl read_loop_EOF less.prems nextEvent_end(1) [OF rl [unfolded Some]] by (cases "err = EOF") auto
  qed
qed

lemma sse_events_EOF: "snd (sse_events p) = EOF \<Longrightarrow> sp_end p = EOF"
proof (induction p rule: sse_events.induct)
  case (1 p)
  obtain r p' where ne: "nextEvent p = (r, p')" by fastforce
  show ?case
  proof (cases r)
    case (Inl e)
    then show ?thesis using ne 1 sse_events_unfold(1) nextEvent_EOF by fastforce
  next
    case (Inr ev)
    then show ?thesis
      using ne 1 sse_events_unfold(2) [of p ev p'] nextEvent_fresh [of p ev p'] by (auto simp: newSSEParser_def dest: arg_cong [of _ _ sp_end])
  qed
qed

text \<open>
  Where the loop stops: it has gone through a prefix of the events, and everything it did is determined by that
  prefix; when no fault happens it goes through all of them.
\<close>

definition pump_post :: "bool \<Rightarrow> bool \<Rightarrow> int \<Rightarrow> pump_env \<Rightarrow> bytes list \<Rightarrow> sse_error \<Rightarrow> pump_state \<Rightarrow> pump_state \<Rightarrow> string \<Rightarrow> bool" where
  "pump_post cap injd mx env evs e st st' cls \<longleftrightarrow>
     (\<exists>n m. n \<le> length evs \<and> n \<le> m \<and> m \<le> Suc n \<and> pu_out st' = pu_out st @ relayed injd (take n evs) \<and>
        pu_bytesOut st' = pu_bytesOut st + int (length (concat (relayed injd (take n evs)))) \<and>
        pu_captured st' = (case pu_captured st of Some i \<Rightarrow> Some i | None \<Rightarrow> if cap then first_id (take m evs) else None) \<and>
        (cls = ''ok'' \<longrightarrow> n = length evs \<and> e = EOF) \<and>
        (0 < mx \<and> pu_bytesOut st \<le> mx \<longrightarrow> pu_bytesOut st' \<le> mx) \<and>
        (no_faults env \<and> (mx \<le> 0 \<or> pu_bytesOut st + int (length (concat (relayed injd evs))) \<le> mx) \<longrightarrow>
           n = length evs \<and> (e = EOF \<longrightarrow> cls = ''ok'')))"

lemma pump_post_stop:
  "cls = ''ok'' \<longrightarrow> evs = [] \<and> e = EOF \<Longrightarrow> no_faults env \<longrightarrow> evs = [] \<and> (e = EOF \<longrightarrow> cls = ''ok'') \<Longrightarrow> pump_post cap injd mx env evs e st st cls"
  unfolding pump_post_def by (intro exI [of _ 0]) (auto split: option.split)

text \<open>The event was looked at, but not passed on.\<close>

lemma pump_post_last:
  assumes "ev \<noteq> []" "cls \<noteq> ''ok''"
    and "\<not> (no_faults env \<and> (mx \<le> 0 \<or> pu_bytesOut st + int (length (concat (relayed injd (ev # evs)))) \<le> mx))"
  shows "pump_post cap injd mx env (ev # evs) e st (observe cap (dataField ev) st) cls"
  unfolding pump_post_def
  using assms by (intro exI [of _ 0] exI [of _ 1]) (auto simp: observe_captured split: option.split)

lemma pump_post_step:
  assumes "pump_post cap injd mx env evs e st1 st' cls"
    and "pu_captured st1 = (case pu_captured st of Some i \<Rightarrow> Some i | None \<Rightarrow> if cap then first_id [ev] else None)"
    and "pu_out st1 = pu_out st @ relayed injd [ev]" "pu_bytesOut st1 = pu_bytesOut st + int (length (concat (relayed injd [ev])))"
    and "0 < mx \<and> pu_bytesOut st \<le> mx \<longrightarrow> pu_bytesOut st1 \<le> mx"
  shows "pump_post cap injd mx env (ev # evs) e st st' cls"
proof -
  obtain n m where n: "n \<le> length evs" "n \<le> m" "m \<le> Suc n" "pu_out st' = pu_out st1 @ relayed injd (take n evs)"
      "pu_bytesOut st' = pu_bytesOut st1 + int (length (concat (relayed injd (take n evs))))"
      "pu_captured st' = (case pu_captured st1 of Some i \<Rightarrow> Some i | None \<Rightarrow> if cap then first_id (take m evs) else None)"
      "cls = ''ok'' \<longrightarrow> n = length evs \<and> e = EOF" "0 < mx \<and> pu_bytesOut st1 \<le> mx \<longrightarrow> pu_bytesOut st' \<le> mx"
      "no_faults env \<and> (mx \<le> 0 \<or> pu_bytesOut st1 + int (length (concat (relayed injd evs))) \<le> mx) \<longrightarrow>
           n = length evs \<and> (e = EOF \<longrightarrow> cls = ''ok'')"
    using assms(1) unfolding pump_post_def by (elim exE conjE) (rule that; assumption)
  have "pu_captured st' = (case pu_captured st of Some i \<Rightarrow> Some i | None \<Rightarrow> if cap then first_id (take (Suc m) (ev # evs)) else None)"
    using n(6) assms(2) first_id_Cons [of ev "take m evs"] by (auto split: option.splits)
  moreover have r: "relayed injd (ev # xs) = relayed injd [ev] @ relayed injd xs" for xs by simp
  have "pu_out st' = pu_out st @ relayed injd (take (Suc n) (ev # evs))" using n(4) assms(3) r [of "take n evs"] by simp
  moreover have "pu_bytesOut st' = pu_bytesOut st + int (length (concat (relayed injd (take (Suc n) (ev # evs)))))"
    using n(5) assms(4) r [of "take n evs"] by simp
  moreover have "no_faults env \<and> (mx \<le> 0 \<or> pu_bytesOut st + int (length (concat (relayed injd (ev # evs)))) \<le> mx) \<longrightarrow>
      Suc n = length (ev # evs) \<and> (e = EOF \<longrightarrow> cls = ''ok'')"
    using n(9) assms(4) r [of evs] by (simp del: relayed_simps add: relayed_simps(1) add.assoc)
  moreover have "0 < mx \<and> pu_bytesOut st \<le> mx \<longrightarrow> pu_bytesOut st' \<le> mx" using n(8) assms(5) by blast
  moreover have "Suc n \<le> length (ev # evs)" "Suc n \<le> Suc m" "Suc m \<le> Suc (Suc n)" "cls = ''ok'' \<longrightarrow> Suc n = length (ev # evs) \<and> e = EOF"
    using n(1,2,3,7) by simp_all
  ultimately show ?thesis unfolding pump_post_def by blast
qed

lemma pump_loop_post:
  "pump_loop cap injd mx env i p st = (st', cls) \<Longrightarrow> pump_post cap injd mx env (fst (sse_events p)) (snd (sse_events p)) st st' cls"
proof (induction cap injd mx env i p st rule: pump_loop.induct)
  case (1 cap injd mx env i p st)
  note unf = "1.prems" [unfolded pump_loop.simps [of cap injd mx env i p st]]
  show ?case
  proof (cases "pe_gone env i \<or> pe_idle env i")
    case True
    then have "\<not> no_faults env" "st' = st" "cls \<noteq> ''ok''" using unf by (auto simp: no_faults_def split: if_splits)
    then show ?thesis by (auto intro: pump_post_stop)
  next
    case False
    then have ok: "\<not> pe_gone env i" "\<not> pe_idle env i" by auto
    obtain r p' where ne: "nextEvent p = (r, p')" by fastforce
    show ?thesis
    proof (cases r)
      case (Inl e)
      then have "sse_events p = ([], e)" "st' = st" "cls = ''ok'' \<longleftrightarrow> e = EOF"
        using ne unf ok sse_events_unfold(1) by (auto split: if_splits)
      then show ?thesis by (auto intro: pump_post_stop)
    next
      case (Inr ev)
      note ne = ne [unfolded Inr]
      note ev = sse_events_unfold(2) [OF ne]
      note ih = "1.IH" [OF ok ne [symmetric] refl]
      define st1 where "st1 = observe cap (dataField ev) st"
      consider (empty) "ev = []" | (swallow) "ev \<noteq> []" "swallowed injd ev"
        | (stop) "ev \<noteq> []" "\<not> swallowed injd ev" "0 < mx \<and> mx < pu_bytesOut st1 + int (length ev) \<or> pe_writeErr env i"
        | (relay) "ev \<noteq> []" "\<not> swallowed injd ev" "\<not> (0 < mx \<and> mx < pu_bytesOut st1 + int (length ev))" "\<not> pe_writeErr env i" by blast
      then show ?thesis
      proof cases
        case empty
        then have "pump_loop cap injd mx env (Suc i) p' st = (st', cls)" using unf ok ne by simp
        from pump_post_step [OF ih(1) [OF empty this], where st = st and ev = ev] empty show ?thesis
          by (simp add: ev first_id_def split: option.split)
      next
        case swallow
        then have "pump_loop cap injd mx env (Suc i) p' st1 = (st', cls)" using unf ok ne by (simp add: st1_def)
        from pump_post_step [OF ih(2) [OF swallow(1) st1_def swallow(2) this], where st = st and ev = ev] swallow show ?thesis
          by (simp add: ev st1_def observe_captured)
      next
        case stop
        then have e: "st' = st1" "cls \<noteq> ''ok''" using unf ok ne by (auto simp: st1_def Let_def split: if_splits)
        have "\<not> (no_faults env \<and> (mx \<le> 0 \<or> pu_bytesOut st + int (length (concat (relayed injd (ev # fst (sse_events p'))))) \<le> mx))"
          using stop by (auto simp: no_faults_def st1_def)
        from pump_post_last [OF stop(1) e(2) this] show ?thesis by (simp add: ev e(1) st1_def)
      next
        case relay
        define st2 where "st2 = st1\<lparr>pu_bytesOut := pu_bytesOut st1 + int (length ev), pu_out := pu_out st1 @ [ev]\<rparr>"
        have "pump_loop cap injd mx env (Suc i) p' st2 = (st', cls)" using unf ok ne relay by (auto simp: st1_def st2_def Let_def split: if_splits)
        from pump_post_step [OF ih(3) [OF relay(1) st1_def relay(2,3,4) this [unfolded st2_def]], where st = st and ev = ev] relay show ?thesis
          by (auto simp add: ev st1_def observe_captured)
      qed
    qed
  qed
qed

section \<open>Properties\<close>

text \<open>
  C8: What the client sees of a stream. For every stream, every fault and every interleaving the client receives
  the events of the parser, in order and unchanged, up to some point, without the usage events that this proxy
  itself asked for; never more bytes than the configured bound; the stream is reported complete only when every
  event was passed on and the backend closed the stream; and with no fault and no excess it is complete.
  The response ID that is learnt is the first valid one among the events seen.
\<close>

theorem pump_relays:
  assumes "pump p o1 injd env body = (st, cls)" "sse_events (newSSEParser (fst body) (stream_end (snd body))) = (evs, e)"
  shows "\<exists>n m. n \<le> m \<and> m \<le> Suc n \<and> pu_out st = relayed injd (take n evs) \<and>
      pu_bytesOut st = int (length (concat (pu_out st))) \<and>
      (0 < sv_MaxResponseBytes (px_server p) \<longrightarrow> pu_bytesOut st \<le> sv_MaxResponseBytes (px_server p)) \<and>
      pu_captured st = (if op_capture o1 then first_id (take m evs) else None) \<and>
      (cls = ''ok'' \<longrightarrow> pu_out st = relayed injd evs \<and> snd body = None) \<and>
      (no_faults env \<and> snd body = None \<and> e = EOF \<and>
         (sv_MaxResponseBytes (px_server p) \<le> 0 \<or> int (length (concat (relayed injd evs))) \<le> sv_MaxResponseBytes (px_server p)) \<longrightarrow> cls = ''ok'')"
proof -
  have fin: "e = EOF \<Longrightarrow> snd body = None"
    using sse_events_EOF [of "newSSEParser (fst body) (stream_end (snd body))"] assms(2)
    by (auto simp: newSSEParser_def stream_end_def split: option.splits if_splits)
  have "pump_post (op_capture o1) injd (sv_MaxResponseBytes (px_server p)) env evs e
      \<lparr>pu_bytesOut = 0, pu_captured = None, pu_usage = no_usage, pu_out = []\<rparr> st cls"
    using pump_loop_post [OF assms(1) [unfolded pump_def]] assms(2) by simp
  then show ?thesis
    unfolding pump_post_def using fin by fastforce
qed

text \<open>A proxy over the small configuration of the router, with one client.\<close>

definition ex_server :: server_cfg where
  "ex_server = \<lparr>sv_Listen = \<lparr>l_Network = ''tcp'', l_Address = ''127.0.0.1:8080'', l_Mode = []\<rparr>, sv_TLS = \<lparr>t_CertFile = [], t_KeyFile = []\<rparr>,
     sv_MaxHeaderBytes = 65536, sv_MaxBodyBytes = 1000, sv_MaxResponseBytes = 1000, sv_MaxInflightRequests = 4, sv_MaxBufferedRequestBytes = 1000,
     sv_MaxConnections = 16, sv_ReadHeaderTimeout = Second, sv_ReadBodyTimeout = Second, sv_IdleTimeout = Second, sv_StreamIdleTimeout = Second,
     sv_StreamWriteTimeout = Second, sv_AllowPlaintextNonLoopback = False, sv_AdminSocket = [], sv_TrustedProxies = []\<rparr>"

definition ex_proxy :: "string \<Rightarrow> proxy" where
  "ex_proxy kid = \<lparr>px_router = ex_router ''single'', px_clients = [''b1'' \<mapsto> ex_client], px_models = map_of (ex_models ''single''),
     px_backends = map_of ex_backends, px_server = ex_server,
     px_retry = \<lparr>rt_MaxAttempts = 2, rt_InitialBackoff = 0, rt_MaxBackoff = 0, rt_Jitter = None\<rparr>,
     px_accounting = \<lparr>ac_Enabled = False, ac_Path = [], ac_EnsureStreamUsage = None, ac_ReplayOnStart = None, ac_ReplayMaxBytes = 0, ac_QueueSize = 1,
       ac_Overflow = [], ac_FSync = [], ac_FSyncInterval = 0, ac_UnknownUsageReservation = 0\<rparr>,
     px_affinity = Put [] (newAffinity 10 1) 0 kid ''resp_1'' ''b1'' ''m'', px_budget = newBudget 4000, px_quota = None, px_acc = None, px_usageOptIn = True, px_draining = False\<rparr>"

definition ex_pump_env :: pump_env where
  "ex_pump_env = \<lparr>pe_gone = (\<lambda>_. False), pe_idle = (\<lambda>_. False), pe_goneErr = False, pe_writeErr = (\<lambda>_. False)\<rparr>"

theorem pump_relays_witness:
  "snd (pump (ex_proxy ''key-a'') opChat False ex_pump_env (''data: x'' @ [LF, LF], None)) = ''ok'' \<and>
   pu_out (fst (pump (ex_proxy ''key-a'') opChat False ex_pump_env (''data: x'' @ [LF, LF], None))) = [''data: x'' @ [LF, LF]]"
proof -
  have ev: "sse_events (newSSEParser (fst (''data: x'' @ [LF, LF], None)) (stream_end (snd (''data: x'' @ [LF, LF], None)))) = ([''data: x'' @ [LF, LF]], EOF)"
    by code_simp
  obtain st cls where p: "pump (ex_proxy ''key-a'') opChat False ex_pump_env (''data: x'' @ [LF, LF], None) = (st, cls)" by fastforce
  have r: "relayed False [''data: x'' @ [LF, LF]] = [''data: x'' @ [LF, LF]]" by (simp add: swallowed_def split: option.split)
  have nf: "no_faults ex_pump_env" by (simp add: no_faults_def ex_pump_env_def)
  have mx: "sv_MaxResponseBytes (px_server (ex_proxy ''key-a'')) = 1000" by (simp add: ex_proxy_def ex_server_def)
  from pump_relays [OF p ev] r nf show ?thesis unfolding mx p by auto
qed

end
