(* ===== verification/Dispatch.thy ===== *)
theory Dispatch
  imports Relay
begin

text \<open>
  The whole handler of one inference request (\<^verbatim>\<open>dispatch\<close> in \<^verbatim>\<open>src/internal/proxy/proxy.go\<close>), put together from the
  stages in \<^verbatim>\<open>Proxy\<close>, and the properties of the pipeline: which requests reach a backend, how often, what is
  relayed from a stream, what is charged, and that the byte budget is given back on every path.
\<close>

section \<open>Definitions\<close>

record disp_env =
  dn_start :: time
  dn_now :: time
  dn_attempt :: "nat \<Rightarrow> attempt_env"
  dn_pump :: pump_env
  dn_order :: "aff_key list"
  dn_chunks :: nat

text \<open>
  What the client gets: nothing, a complete response, or the events of a stream. \<open>Panicked\<close> is the panic of
  \<^verbatim>\<open>http.ResponseWriter.WriteHeader\<close> on a status below 100, which the relay of a buffered response does not
  rule out; the deferred calls run, and the panic goes on to the route handler.
\<close>

datatype answer = NoAnswer | Sent written | Streamed "bytes list" | Panicked

definition init_out :: disp_out where
  "init_out = \<lparr>do_status = 500, do_class = ''internal_error'', do_model = [], do_backend = [], do_bytesIn = - 1, do_bytesOut = 0,
     do_retries = 0, do_usage = no_usage, do_usageStatus = UsageUnknown, do_reservation = 0\<rparr>"

definition fail_out :: "disp_out \<Rightarrow> string \<Rightarrow> api_error \<Rightarrow> disp_out \<times> answer" where
  "fail_out out retryAfter e =
     (out\<lparr>do_status := ae_status e, do_class := ae_class e\<rparr>,
      Sent (fail_response (if retryAfter \<noteq> [] then hdr_set [] ''Retry-After'' retryAfter else []) e))"

definition out_headers :: "preq \<Rightarrow> outbound \<Rightarrow> headers" where
  "out_headers q ob =
     (let h = passthroughHeaders (pq_Header q) in
      if ob_fields ob \<noteq> None \<or> ob_body ob \<noteq> [] then AList.update ''Content-Type'' [''application/json''] h else h)"

definition max_attempts :: "proxy \<Rightarrow> nat" where
  "max_attempts p = nat (max (rt_MaxAttempts (px_retry p)) 1)"

definition loop_start :: "proxy \<Rightarrow> outbound \<Rightarrow> loop_state" where
  "loop_start p ob = \<lparr>lo_router = px_router p, lo_fields = ob_fields ob, lo_tried = [], lo_lastErr = None, lo_lastFailed = [],
     lo_retryAfter = [], lo_retries = 0, lo_backend = [], lo_sent = []\<rparr>"

definition put_affinity :: "proxy \<Rightarrow> disp_env \<Rightarrow> preq \<Rightarrow> string \<Rightarrow> string \<Rightarrow> string \<Rightarrow> proxy" where
  "put_affinity p env q i backend model = p\<lparr>px_affinity := Put (dn_order env) (px_affinity p) (dn_now env) (ID (pq_Key q)) i backend model\<rparr>"

text \<open>The response of a backend: a live stream is pumped, anything else is relayed whole.\<close>

definition finish_result :: "proxy \<Rightarrow> preq \<Rightarrow> operation \<Rightarrow> ptarget \<Rightarrow> outbound \<Rightarrow> disp_env \<Rightarrow> string \<Rightarrow> result \<Rightarrow> disp_out \<Rightarrow> proxy \<times> disp_out \<times> answer" where
  "finish_result p q o1 t ob env name r out =
     (case re_Body r of
        Some body \<Rightarrow>
          (case pump p o1 (ob_injectedUsage ob) (dn_pump env) body of (st, cls) \<Rightarrow>
             ((case pu_captured st of None \<Rightarrow> p | Some i \<Rightarrow> put_affinity p env q i name (pt_model t)),
              out\<lparr>do_status := 200, do_bytesOut := pu_bytesOut st, do_class := cls, do_usage := pu_usage st,
                  do_usageStatus := StatusOf (pu_usage st), do_reservation := ob_reservation ob\<rparr>,
              Streamed (pu_out st)))
      | None \<Rightarrow>
          let out1 = out\<lparr>do_status := re_Status r, do_class := ''ok'', do_bytesOut := int (length (re_BodyBytes r))\<rparr>;
              u = ParseUsage (re_BodyBytes r);
              out2 = (if consumesUsage o1 then out1\<lparr>do_usage := u, do_usageStatus := StatusOf u, do_reservation := ob_reservation ob\<rparr> else out1);
              ct = (if hdr_get (re_Header r) ''Content-Type'' \<noteq> [] then hdr_get (re_Header r) ''Content-Type'' else ''application/json'');
              i = topLevelID (re_BodyBytes r)
          in if re_Status r < 100 then (p, out2, Panicked)
             else ((if op_capture o1 \<and> isValidResponseID i then put_affinity p env q i name (pt_model t) else p), out2,
              Sent \<lparr>wr_status = re_Status r, wr_header = hdr_set [] ''Content-Type'' ct, wr_body = writeBuffered (dn_chunks env) (re_BodyBytes r)\<rparr>))"

definition finish_loop :: "proxy \<Rightarrow> preq \<Rightarrow> operation \<Rightarrow> ptarget \<Rightarrow> outbound \<Rightarrow> disp_env \<Rightarrow> loop_state \<times> loop_out \<Rightarrow> disp_out \<Rightarrow> proxy \<times> disp_out \<times> answer" where
  "finish_loop p q o1 t ob env res out =
     (case res of (st, lo) \<Rightarrow>
        let p1 = p\<lparr>px_router := lo_router st\<rparr>; out1 = out\<lparr>do_retries := lo_retries st, do_backend := lo_backend st\<rparr> in
        case lo of
          LoCanceled \<Rightarrow> (p1, out1\<lparr>do_status := 499, do_class := ''client_canceled'', do_bytesOut := 0\<rparr>, NoAnswer)
        | LoFail e ra \<Rightarrow> (p1, fail_out out1 ra e)
        | LoNothing \<Rightarrow> (p1, out1, NoAnswer)
        | LoGot name r \<Rightarrow> finish_result p1 q o1 t ob env name r out1)"

text \<open>From the body on; the last component is the list of requests handed to backend clients.\<close>

definition dispatch_body ::
  "proxy \<Rightarrow> preq \<Rightarrow> operation \<Rightarrow> disp_env \<Rightarrow> bytes \<Rightarrow> disp_out \<Rightarrow> (proxy \<times> disp_out \<times> answer) \<times> (string \<times> backend_request) list" where
  "dispatch_body p q o1 env body out =
     (case resolveTarget p q o1 body (dn_now env) of
        (p1, t, Some e) \<Rightarrow> ((p1, fail_out (out\<lparr>do_model := pt_model t\<rparr>) [] e), [])
      | (p1, t, None) \<Rightarrow>
          let out1 = out\<lparr>do_model := pt_model t\<rparr> in
          (case prepare p1 q o1 t (dn_now env) of
             (p2, ob, Some e) \<Rightarrow> ((p2, fail_out out1 [] e), [])
           | (p2, ob, None) \<Rightarrow>
               let res = attempts p2 o1 t ob (out_headers q ob) (dn_attempt env) (max_attempts p2) 0 (loop_start p2 ob)
               in (finish_loop p2 q o1 t ob env res out1, lo_sent (fst res))))"

text \<open>Up to the deferred calls, with the reservation of the byte budget still held.\<close>

definition dispatch_core :: "proxy \<Rightarrow> preq \<Rightarrow> operation \<Rightarrow> disp_env \<Rightarrow> (proxy \<times> disp_out \<times> answer) \<times> (string \<times> backend_request) list \<times> int" where
  "dispatch_core p q o1 env =
     (if px_draining p then ((p, fail_out init_out [] errDraining), [], 0)
      else case readBody p q o1 of
        (b, reserve, Inl e) \<Rightarrow> ((p\<lparr>px_budget := b\<rparr>, fail_out init_out [] e), [], reserve)
      | (b, reserve, Inr body) \<Rightarrow>
          (case dispatch_body (p\<lparr>px_budget := b\<rparr>) q o1 env body
                  (if op_method o1 = ''POST'' then init_out\<lparr>do_bytesIn := int (length body)\<rparr> else init_out) of
             (r, sent) \<Rightarrow> (r, sent, reserve)))"

definition final_out :: "disp_out \<Rightarrow> disp_out" where
  "final_out out = (if do_status out = 0 then out\<lparr>do_status := 500, do_class := ''internal_error''\<rparr> else out)"

definition dispatch :: "proxy \<Rightarrow> preq \<Rightarrow> operation \<Rightarrow> disp_env \<Rightarrow> proxy \<times> disp_out \<times> answer \<times> (string \<times> backend_request) list" where
  "dispatch p q o1 env =
     (let ((p1, out, ans), sent, reserve) = dispatch_core p q o1 env;
          p2 = p1\<lparr>px_budget := release_body (px_budget p1) reserve\<rparr>
      in (account p2 q o1 (dn_start env) (dn_now env) (final_out out), final_out out, ans, sent))"

section \<open>Lemmas\<close>

subsection \<open>The retry loop\<close>

text \<open>What every request handed to a backend client has in common.\<close>

definition sent_ok :: "router \<Rightarrow> operation \<Rightarrow> ptarget \<Rightarrow> outbound \<Rightarrow> headers \<Rightarrow> string \<times> backend_request \<Rightarrow> bool" where
  "sent_ok r o1 t ob hdrs s \<longleftrightarrow> (case s of (name, req) \<Rightarrow>
     (pt_backend t \<noteq> [] \<longrightarrow> name = pt_backend t) \<and> bq_Method req = op_method o1 \<and> bq_Path req = pt_path t \<and>
     bq_Stream req = pt_stream t \<and> bq_Headers req = hdrs \<and>
     (case ob_fields ob of
        None \<Rightarrow> bq_Body req = ob_body ob
      | Some fs0 \<Rightarrow> (\<exists>up fs fs'. UpstreamFor r name = Some up \<and> up \<noteq> [] \<and> (map_ok fs0 \<longrightarrow> map_ok fs) \<and>
          (\<forall>k. k \<noteq> ''model'' \<longrightarrow> map_of fs k = map_of fs0 k) \<and> encodeOutbound fs up = Inr (bq_Body req, fs'))))"

definition fields_inv :: "outbound \<Rightarrow> raw_map option \<Rightarrow> bool" where
  "fields_inv ob f \<longleftrightarrow> (case ob_fields ob of
     None \<Rightarrow> f = None
   | Some fs0 \<Rightarrow> (\<exists>fs. f = Some fs \<and> (map_ok fs0 \<longrightarrow> map_ok fs) \<and> (\<forall>k. k \<noteq> ''model'' \<longrightarrow> map_of fs k = map_of fs0 k)))"

definition loop_inv :: "router \<Rightarrow> operation \<Rightarrow> ptarget \<Rightarrow> outbound \<Rightarrow> headers \<Rightarrow> nat \<Rightarrow> loop_state \<Rightarrow> bool" where
  "loop_inv r o1 t ob hdrs n st \<longleftrightarrow>
     models (lo_router st) = models r \<and> order (lo_router st) = order r \<and>
     fields_inv ob (lo_fields st) \<and> (\<forall>s \<in> set (lo_sent st). sent_ok r o1 t ob hdrs s) \<and> length (lo_sent st) \<le> n"

lemma Upstream_frame: "models r' = models r \<Longrightarrow> order r' = order r \<Longrightarrow> UpstreamFor r' b = UpstreamFor r b"
  by (simp add: UpstreamFor_def)

lemma order_frame [simp]: "order (RecordFailure r now b) = order r" "order (RecordSuccess r b) = order r"
  by (simp_all add: RecordFailure_def RecordSuccess_def Let_def)

text \<open>The invariant does not depend on the fields that only steer the loop.\<close>

lemma loop_inv_cong:
  "loop_inv r o1 t ob hdrs n st \<Longrightarrow> models (lo_router st') = models (lo_router st) \<Longrightarrow> order (lo_router st') = order (lo_router st) \<Longrightarrow>
   lo_fields st' = lo_fields st \<Longrightarrow> lo_sent st' = lo_sent st \<Longrightarrow> loop_inv r o1 t ob hdrs n st'"
  by (simp add: loop_inv_def)

lemma pick_backend_inv:
  assumes "pick_backend t env k st = (st1, res)" "loop_inv r o1 t ob hdrs n st"
  shows "loop_inv r o1 t ob hdrs n st1" "lo_lastErr st1 = lo_lastErr st"
    and "res = Inr name \<Longrightarrow> pt_backend t \<noteq> [] \<Longrightarrow> name = pt_backend t"
    and "res \<noteq> Inl Again" "res = Inl Break \<Longrightarrow> 0 < k" "res = Inl (Stop out) \<Longrightarrow> out \<noteq> LoNothing"
proof -
  obtain r' sel where s: "Select (lo_router st) (en_load env) (en_now env) (pt_model t) (lo_tried st) = (r', sel)" by fastforce
  have f: "models r' = models (lo_router st)" "order r' = order (lo_router st)" using Select_frame s by (metis fst_conv)+
  have st1: "st1 = st \<or> st1 = st\<lparr>lo_router := r'\<rparr>"
    using assms(1) s by (auto simp: pick_backend_def Let_def split: if_splits sum.splits option.splits)
  show "loop_inv r o1 t ob hdrs n st1" using st1 assms(2) f loop_inv_cong [OF assms(2), of st1] by auto
  show "lo_lastErr st1 = lo_lastErr st" using st1 by auto
  show "res = Inr name \<Longrightarrow> pt_backend t \<noteq> [] \<Longrightarrow> name = pt_backend t" using assms(1) by (simp add: pick_backend_def)
  show "res \<noteq> Inl Again" "res = Inl Break \<Longrightarrow> 0 < k" "res = Inl (Stop out) \<Longrightarrow> out \<noteq> LoNothing"
    using assms(1) s by (auto simp: pick_backend_def Let_def split: if_splits sum.splits option.splits)
qed

lemma on_failure_frame:
  assumes "on_failure env name err res st = (st', v)"
  shows "models (lo_router st') = models (lo_router st)" "order (lo_router st') = order (lo_router st)" "lo_fields st' = lo_fields st" "lo_sent st' = lo_sent st"
    and "v = Again \<or> v = Break \<Longrightarrow> lo_lastErr st' = Some err" "v \<noteq> Stop LoNothing"
  using assms by (auto simp: on_failure_def Let_def split: if_splits)

lemma attempt_body_ok:
  assumes "attempt_body (lo_router st) ob name (lo_fields st) = Inr (bd, fs)" "loop_inv r o1 t ob hdrs n st"
  shows "case ob_fields ob of
      None \<Rightarrow> bd = ob_body ob \<and> fs = None
    | Some fs0 \<Rightarrow> \<exists>up fs1 fs'. UpstreamFor r name = Some up \<and> up \<noteq> [] \<and> (map_ok fs0 \<longrightarrow> map_ok fs1) \<and>
        (\<forall>k. k \<noteq> ''model'' \<longrightarrow> map_of fs1 k = map_of fs0 k) \<and> encodeOutbound fs1 up = Inr (bd, fs') \<and> fs = Some fs' \<and>
        (map_ok fs0 \<longrightarrow> map_ok fs') \<and> (\<forall>k. k \<noteq> ''model'' \<longrightarrow> map_of fs' k = map_of fs0 k)"
proof (cases "ob_fields ob")
  case None
  then show ?thesis using assms by (simp add: attempt_body_def loop_inv_def fields_inv_def)
next
  case (Some fs0)
  then obtain fs1 where fs1: "lo_fields st = Some fs1" "map_ok fs0 \<longrightarrow> map_ok fs1" "\<forall>k. k \<noteq> ''model'' \<longrightarrow> map_of fs1 k = map_of fs0 k"
    using assms(2) by (auto simp: loop_inv_def fields_inv_def)
  have uf: "UpstreamFor (lo_router st) name = UpstreamFor r name" using assms(2) by (intro Upstream_frame) (auto simp: loop_inv_def)
  obtain up fs' where e: "UpstreamFor r name = Some up" "encodeOutbound fs1 up = Inr (bd, fs')" "fs = Some fs'"
    using assms(1) fs1(1) uf by (cases "UpstreamFor r name") (auto simp: attempt_body_def bind_sum_Inr encodeOutbound_def split: if_splits)
  then have up: "up \<noteq> []" "fs' = AList.update ''model'' (encode_string up) fs1" by (auto simp: encodeOutbound_def Let_def split: if_splits)
  have "map_ok fs0 \<longrightarrow> map_ok fs'"
    using fs1(2) map_ok_update [OF _ valid_names(1)] unfolding up(2) by (simp add: encode_string_def ok_str_quote del: quote_body.simps)
  moreover have "\<forall>k. k \<noteq> ''model'' \<longrightarrow> map_of fs' k = map_of fs0 k" using fs1(3) up(2) by (simp add: update_conv)
  ultimately show ?thesis using Some e up(1) fs1(2,3) by auto
qed

lemma send_attempt_inv:
  assumes "send_attempt p o1 t ob hdrs env k name st = (st', v)" "loop_inv r o1 t ob hdrs n st"
    and "pt_backend t \<noteq> [] \<Longrightarrow> name = pt_backend t"
  shows "loop_inv r o1 t ob hdrs (Suc n) st'" "v = Again \<or> v = Break \<Longrightarrow> lo_lastErr st' \<noteq> None" "v \<noteq> Stop LoNothing"
proof -
  have mono: "loop_inv r o1 t ob hdrs (Suc n) st" using assms(2) by (auto simp: loop_inv_def)
  have "loop_inv r o1 t ob hdrs (Suc n) st' \<and> (v = Again \<or> v = Break \<longrightarrow> lo_lastErr st' \<noteq> None) \<and> v \<noteq> Stop LoNothing"
  proof (cases "attempt_body (lo_router st) ob name (lo_fields st)")
    case (Inl e)
    then show ?thesis using assms(1) mono by (auto simp: send_attempt_def)
  next
    case (Inr b)
    obtain bd fs where b: "b = (bd, fs)" by fastforce
    note ab = attempt_body_ok [OF Inr [unfolded b] assms(2)]
    define rep where "rep = (0 < k \<and> name = lo_lastFailed st)"
    define st1 where "st1 = st\<lparr>lo_fields := fs, lo_retries := (if rep then lo_retries st + 1 else lo_retries st)\<rparr>"
    have i1: "loop_inv r o1 t ob hdrs (Suc n) st1"
      using mono ab by (cases "ob_fields ob") (auto simp: loop_inv_def fields_inv_def st1_def)
    show ?thesis
    proof (cases "rep \<and> \<not> sleepBackoff (px_retry p) (en_draw env) (en_goneSleep env) k \<or> px_clients p name = None")
      case True
      then have "st' = st1 \<and> (v = Stop LoCanceled \<or> v = Stop (LoFail errInternal []))"
        using assms(1) unfolding send_attempt_def Inr b Let_def rep_def [symmetric] st1_def by (auto split: if_splits)
      then show ?thesis using i1 by auto
    next
      case False
      then obtain c where c: "px_clients p name = Some c" by auto
      define req where "req = \<lparr>bq_Method = op_method o1, bq_Path = pt_path t, bq_Body = bd, bq_Headers = hdrs, bq_Stream = pt_stream t\<rparr>"
      define st2 where "st2 = st1\<lparr>lo_backend := name, lo_sent := lo_sent st1 @ [(name, req)]\<rparr>"
      have "sent_ok r o1 t ob hdrs (name, req)"
        using ab assms(3) by (cases "ob_fields ob") (auto simp: sent_ok_def req_def)
      then have i2: "loop_inv r o1 t ob hdrs (Suc n) st2" using i1 assms(2) by (simp add: loop_inv_def st2_def st1_def)
      define fw where "fw = fst (Forward c req (en_acquired env) (en_valid env) (en_transport env) (en_timeoutFired env))"
      have "send_attempt p o1 t ob hdrs env k name st = (case fw of FwdErr err \<Rightarrow> on_failure env name err None st2 | FwdUpstream r err \<Rightarrow> on_failure env name err (Some r) st2
          | FwdOk r \<Rightarrow> (st2\<lparr>lo_router := RecordSuccess (lo_router st2) name\<rparr>, Stop (LoGot name r)))"
        using False c unfolding fw_def req_def st2_def st1_def rep_def
        by (auto simp: send_attempt_def Inr b Let_def split: forward_result.split)
      note eq = this [unfolded assms(1)]
      show ?thesis
      proof (cases fw)
        case (FwdErr err)
        then have f: "on_failure env name err None st2 = (st', v)" using eq by simp
        show ?thesis using on_failure_frame [OF f] loop_inv_cong [OF i2] by auto
      next
        case (FwdUpstream r' err)
        then have f: "on_failure env name err (Some r') st2 = (st', v)" using eq by simp
        show ?thesis using on_failure_frame [OF f] loop_inv_cong [OF i2] by auto
      next
        case (FwdOk r')
        then show ?thesis using eq loop_inv_cong [OF i2] by auto
      qed
    qed
  qed
  then show "loop_inv r o1 t ob hdrs (Suc n) st'" "v = Again \<or> v = Break \<Longrightarrow> lo_lastErr st' \<noteq> None" "v \<noteq> Stop LoNothing" by auto
qed

lemma terminal_answers: "lo_lastErr st \<noteq> None \<Longrightarrow> terminal p st \<noteq> LoNothing"
  by (auto simp: terminal_def Let_def)

lemma attempts_ok:
  assumes "loop_inv r o1 t ob hdrs k st" "0 < k \<Longrightarrow> lo_lastErr st \<noteq> None" "0 < n + k"
    and "attempts p o1 t ob hdrs env n k st = (st', out)"
  shows "(\<forall>s \<in> set (lo_sent st'). sent_ok r o1 t ob hdrs s) \<and> length (lo_sent st') \<le> k + n \<and> out \<noteq> LoNothing"
  using assms
proof (induction n arbitrary: k st)
  case 0
  then show ?case using terminal_answers by (auto simp: loop_inv_def)
next
  case (Suc n)
  have weak: "(\<forall>s \<in> set (lo_sent st0). sent_ok r o1 t ob hdrs s) \<and> length (lo_sent st0) \<le> k + Suc n"
    if "loop_inv r o1 t ob hdrs (Suc k) st0 \<or> loop_inv r o1 t ob hdrs k st0" for st0 using that by (auto simp: loop_inv_def)
  show ?case
  proof (cases "en_gone (env k)")
    case True
    then show ?thesis using Suc.prems weak [of st] by auto
  next
    case False
    obtain st1 res where pk: "pick_backend t (env k) k st = (st1, res)" by fastforce
    note pi = pick_backend_inv [OF pk Suc.prems(1)]
    show ?thesis
    proof (cases res)
      case (Inl v)
      then consider "v = Break" | out' where "v = Stop out'" using pi(4) by (cases v) auto
      then show ?thesis
      proof cases
        case 1
        then have "lo_lastErr st1 \<noteq> None" using pi(2,5) Inl Suc.prems(2) by simp
        then show ?thesis using 1 Suc.prems(4) False pk Inl weak [of st1] pi(1) terminal_answers by auto
      next
        case 2
        then show ?thesis using Suc.prems(4) False pk Inl weak [of st1] pi(1,6) by auto
      qed
    next
      case (Inr name)
      obtain st2 v where sa: "send_attempt p o1 t ob hdrs (env k) k name st1 = (st2, v)" by fastforce
      note si = send_attempt_inv [OF sa pi(1) pi(3) [OF Inr]]
      show ?thesis
      proof (cases v)
        case Again
        then have "attempts p o1 t ob hdrs env n (Suc k) st2 = (st', out)" using Suc.prems(4) False pk Inr sa by simp
        from Suc.IH [OF si(1) _ _ this] si(2) Again show ?thesis by simp
      next
        case Break
        then show ?thesis using Suc.prems(4) False pk Inr sa weak [of st2] si(1,2) terminal_answers by auto
      next
        case (Stop out')
        then show ?thesis using Suc.prems(4) False pk Inr sa weak [of st2] si(1,3) by auto
      qed
    qed
  qed
qed

subsection \<open>The stages before the loop\<close>

lemma resolveTarget_ok:
  assumes "resolveTarget p q o1 body now = (p1, t, None)"
  shows "px_router p1 = px_router p" "px_retry p1 = px_retry p" "px_budget p1 = px_budget p" "px_quota p1 = px_quota p" "px_acc p1 = px_acc p"
    and "op_route o1 = routeByModel \<Longrightarrow> \<exists>fs model stream. shallowParse body = Inr (fs, model, stream) \<and> Allows (pq_Key q) model \<and>
      Has (px_router p) model \<and> pt_fields t = Some fs \<and> pt_model t = model \<and> pt_stream t = stream \<and> pt_path t = op_path o1"
    and "op_route o1 \<noteq> routeByModel \<Longrightarrow> \<exists>b m. snd (Get (px_affinity p) now (ID (pq_Key q)) (pq_ResponseID q)) = Some (b, m) \<and> Allows (pq_Key q) m \<and>
      isValidResponseID (pq_ResponseID q) \<and> pt_backend t = b \<and>
      pt_path t = ''/v1/responses/'' @ pq_ResponseID q @ (if op_method o1 = ''POST'' then ''/cancel'' else [])"
  using assms
  by (auto simp: resolveTarget_def target_by_model_def target_by_response_def Let_def
      split: if_splits sum.splits prod.splits option.splits)

lemma prepare_frame:
  assumes "prepare p q o1 t now = (p2, ob, e)"
  shows "px_router p2 = px_router p" "px_retry p2 = px_retry p" "px_budget p2 = px_budget p" "px_acc p2 = px_acc p"
    and "op_route o1 \<noteq> routeByModel \<Longrightarrow> ob_fields ob = None"
  using assms
  by (auto simp: prepare_def Let_def split: if_splits sum.splits prod.splits option.splits body_error.splits)

lemma prepare_fields:
  assumes "prepare p q o1 t now = (p2, ob, None)" "op_route o1 = routeByModel"
  shows "\<exists>cap res injd fs1. prepareOutbound (case pt_fields t of Some fs \<Rightarrow> fs | None \<Rightarrow> []) o1 cap (pt_stream t)
      (ensureStreamUsage p (pq_Key q)) (ac_UnknownUsageReservation (px_accounting p)) = Inr (res, injd, fs1) \<and> ob_fields ob = Some fs1"
proof -
  define cap where "cap = (case px_models p (pt_model t) of Some m \<Rightarrow> mo_MaxOutputTokens m | None \<Rightarrow> 0)"
  define po where "po = prepareOutbound (case pt_fields t of Some fs \<Rightarrow> fs | None \<Rightarrow> []) o1 cap (pt_stream t)
      (ensureStreamUsage p (pq_Key q)) (ac_UnknownUsageReservation (px_accounting p))"
  have "\<exists>res injd fs1. po = Inr (res, injd, fs1) \<and> ob_fields ob = Some fs1"
    using assms unfolding prepare_def Let_def cap_def [symmetric] po_def [symmetric]
    by (auto split: sum.splits prod.splits option.splits body_error.splits)
  then show ?thesis unfolding po_def by blast
qed

lemma readBody_POST:
  assumes "readBody p q o1 = (b, reserve, Inr body)" "op_method o1 = ''POST''"
  shows "body = pq_Body q"
proof -
  have "body = pq_Body q" if "readBodyLimited cl (pq_Body q) e mx = Inr body" for cl e mx
  proof (cases "mx + 1 \<le> int (length (pq_Body q))")
    case True
    then have "length (take (nat (mx + 1)) (pq_Body q)) = nat (mx + 1)" by simp
    then show ?thesis using that True by (auto simp: readBodyLimited_def read_limited_def split: if_splits)
  qed (use that in \<open>auto simp: readBodyLimited_def read_limited_def split: if_splits option.splits\<close>)
  then show ?thesis using assms
    by (auto simp: readBody_def Let_def split: if_splits prod.splits sum.splits read_error.splits)
qed

lemma fail_out_ne [simp]: "fail_out x y z \<noteq> (u, NoAnswer)" "snd (fail_out x y z) \<noteq> NoAnswer"
  by (simp_all add: fail_out_def)

lemma fail_out_answer: "(out', ans) = fail_out out ra e \<Longrightarrow> ans \<noteq> Panicked"
  by (simp add: fail_out_def)

lemma fail_out_frame:
  "do_usage (fst (fail_out out ra e)) = do_usage out" "do_usageStatus (fst (fail_out out ra e)) = do_usageStatus out"
  "do_reservation (fst (fail_out out ra e)) = do_reservation out"
  by (simp_all add: fail_out_def)

lemma dispatch_parts:
  assumes "dispatch p q o1 env = (p', out, ans, sent)"
  obtains p1 out0 reserve where "dispatch_core p q o1 env = ((p1, out0, ans), sent, reserve)" "out = final_out out0"
    "p' = account (p1\<lparr>px_budget := release_body (px_budget p1) reserve\<rparr>) q o1 (dn_start env) (dn_now env) out"
  using assms by (auto simp: dispatch_def Let_def split: prod.splits)

text \<open>Either the request was refused before its target was looked for, or its body was read and worked on.\<close>

lemma dispatch_core_cases:
  assumes "dispatch_core p q o1 env = ((p1, out, ans), sent, reserve)"
  obtains (drain) e where "(out, ans) = fail_out init_out [] e" "p1 = p" "sent = []" "reserve = 0"
    | (refused) e b where "readBody p q o1 = (b, reserve, Inl e)" "(out, ans) = fail_out init_out [] e" "p1 = p\<lparr>px_budget := b\<rparr>" "sent = []"
    | (body) b body n where "readBody p q o1 = (b, reserve, Inr body)"
        "dispatch_body (p\<lparr>px_budget := b\<rparr>) q o1 env body (init_out\<lparr>do_bytesIn := n\<rparr>) = ((p1, out, ans), sent)"
proof (cases "px_draining p")
  case True
  then show ?thesis using assms by (intro drain [of errDraining]) (auto simp: dispatch_core_def)
next
  case False
  obtain b r rb where rb: "readBody p q o1 = (b, r, rb)" by (cases "readBody p q o1") auto
  show ?thesis
  proof (cases rb)
    case (Inl e)
    then show ?thesis using assms False rb refused by (auto simp: dispatch_core_def)
  next
    case (Inr bd)
    have "(if op_method o1 = ''POST'' then init_out\<lparr>do_bytesIn := int (length bd)\<rparr> else init_out) =
        init_out\<lparr>do_bytesIn := (if op_method o1 = ''POST'' then int (length bd) else - 1)\<rparr>" by (simp add: init_out_def)
    then show ?thesis using assms False rb Inr body by (auto simp: dispatch_core_def split: prod.splits)
  qed
qed

lemma dispatch_body_cases:
  assumes "dispatch_body p q o1 env body out = ((p', out', ans), sent)"
  obtains (target) p1 t e where "resolveTarget p q o1 body (dn_now env) = (p1, t, Some e)" "p' = p1"
        "(out', ans) = fail_out (out\<lparr>do_model := pt_model t\<rparr>) [] e" "sent = []"
    | (prep) p1 t ob e where "resolveTarget p q o1 body (dn_now env) = (p1, t, None)" "prepare p1 q o1 t (dn_now env) = (p', ob, Some e)"
        "(out', ans) = fail_out (out\<lparr>do_model := pt_model t\<rparr>) [] e" "sent = []"
    | (loop) p1 t p2 ob st lo where "resolveTarget p q o1 body (dn_now env) = (p1, t, None)" "prepare p1 q o1 t (dn_now env) = (p2, ob, None)"
        "attempts p2 o1 t ob (out_headers q ob) (dn_attempt env) (max_attempts p2) 0 (loop_start p2 ob) = (st, lo)" "sent = lo_sent st"
        "finish_loop p2 q o1 t ob env (st, lo) (out\<lparr>do_model := pt_model t\<rparr>) = (p', out', ans)"
proof -
  obtain p1 t e where rt: "resolveTarget p q o1 body (dn_now env) = (p1, t, e)" by (cases "resolveTarget p q o1 body (dn_now env)") auto
  show ?thesis
  proof (cases e)
    case (Some e')
    then show ?thesis using assms rt target by (auto simp: dispatch_body_def)
  next
    case None
    obtain p2 ob e2 where pr: "prepare p1 q o1 t (dn_now env) = (p2, ob, e2)" by (cases "prepare p1 q o1 t (dn_now env)") auto
    obtain st lo where a: "attempts p2 o1 t ob (out_headers q ob) (dn_attempt env) (max_attempts p2) 0 (loop_start p2 ob) = (st, lo)" by fastforce
    show ?thesis
    proof (cases e2)
      case (Some e')
      then show ?thesis using assms rt None pr prep by (auto simp: dispatch_body_def Let_def)
    next
      case e2: None
      then show ?thesis using assms rt None pr a loop by (auto simp: dispatch_body_def Let_def)
    qed
  qed
qed

text \<open>A request that was handed to a backend has passed every stage.\<close>

lemma dispatch_sent:
  assumes "dispatch p q o1 env = (p', out, ans, sent)" "sent \<noteq> []"
  obtains b reserve body p1 t p2 ob where "readBody p q o1 = (b, reserve, Inr body)"
    "resolveTarget (p\<lparr>px_budget := b\<rparr>) q o1 body (dn_now env) = (p1, t, None)"
    "prepare p1 q o1 t (dn_now env) = (p2, ob, None)"
    "sent = lo_sent (fst (attempts p2 o1 t ob (out_headers q ob) (dn_attempt env) (max_attempts p2) 0 (loop_start p2 ob)))"
proof -
  obtain p1 out0 reserve where c: "dispatch_core p q o1 env = ((p1, out0, ans), sent, reserve)" by (rule dispatch_parts [OF assms(1)])
  then obtain b body n where b: "readBody p q o1 = (b, reserve, Inr body)"
      "dispatch_body (p\<lparr>px_budget := b\<rparr>) q o1 env body (init_out\<lparr>do_bytesIn := n\<rparr>) = ((p1, out0, ans), sent)"
    by (cases rule: dispatch_core_cases) (use assms(2) in auto)
  from b(2) show thesis
    by (cases rule: dispatch_body_cases) (use assms(2) b(1) that in auto)
qed

lemma loop_start_inv: "loop_inv (px_router p) o1 t ob hdrs 0 (loop_start p ob)"
  by (auto simp: loop_inv_def fields_inv_def loop_start_def split: option.splits)

lemma max_attempts_pos: "0 < max_attempts p"
  by (simp add: max_attempts_def)

lemma sent_facts:
  assumes "sent = lo_sent (fst (attempts p o1 t ob hdrs env (max_attempts p) 0 (loop_start p ob)))"
  shows "\<forall>s \<in> set sent. sent_ok (px_router p) o1 t ob hdrs s" "length sent \<le> max_attempts p"
proof -
  obtain st' lo where a: "attempts p o1 t ob hdrs env (max_attempts p) 0 (loop_start p ob) = (st', lo)" by fastforce
  from attempts_ok [OF loop_start_inv _ _ a] assms max_attempts_pos [of p]
  show "\<forall>s \<in> set sent. sent_ok (px_router p) o1 t ob hdrs s" "length sent \<le> max_attempts p" by (auto simp: a)
qed

lemma finish_result_answer: "snd (snd (finish_result p q o1 t ob env name r out)) \<noteq> NoAnswer"
  by (simp add: finish_result_def Let_def split: option.split prod.split)

lemma finish_loop_answer:
  assumes "finish_loop p q o1 t ob env (st, lo) out = (p', out', NoAnswer)" "lo \<noteq> LoNothing"
  shows "do_status out' = 499"
proof (cases lo)
  case (LoGot name r)
  then show ?thesis using assms(1) finish_result_answer by (simp add: finish_loop_def Let_def) (metis snd_conv)
next
  case (LoFail e ra)
  then show ?thesis using assms(1) by (simp add: finish_loop_def Let_def)
qed (use assms in \<open>auto simp: finish_loop_def Let_def\<close>)

lemma dispatch_body_answer:
  assumes "dispatch_body p q o1 env body out = ((p', out', NoAnswer), sent)"
  shows "do_status out' = 499"
  using assms
proof (cases rule: dispatch_body_cases)
  case (loop p1 t p2 ob st lo)
  have "lo \<noteq> LoNothing" using attempts_ok [OF loop_start_inv _ _ loop(3)] max_attempts_pos [of p2] by simp
  then show ?thesis using finish_loop_answer loop(5) by blast
qed (metis fail_out_ne(1))+

lemma dispatch_core_answer:
  assumes "dispatch_core p q o1 env = ((p1, out, NoAnswer), sent, reserve)"
  shows "do_status out = 499"
  using assms
proof (cases rule: dispatch_core_cases)
  case (body b bd n)
  then show ?thesis using dispatch_body_answer by blast
qed (metis fail_out_ne(1))+

subsection \<open>The budget and the ledger\<close>

lemma resolveTarget_frame:
  assumes "resolveTarget p q o1 body now = (p1, t, e)"
  shows "px_budget p1 = px_budget p" "px_acc p1 = px_acc p"
  using assms
  by (auto simp: resolveTarget_def target_by_model_def target_by_response_def Let_def
      split: if_splits sum.splits prod.splits option.splits)

lemma finish_loop_frame:
  assumes "finish_loop p q o1 t ob env res out = (p', out', ans)"
  shows "px_budget p' = px_budget p" "px_acc p' = px_acc p"
  using assms
  by (auto simp: finish_loop_def finish_result_def put_affinity_def Let_def
      split: loop_out.splits option.splits prod.splits if_splits)

lemma dispatch_body_frame:
  assumes "dispatch_body p q o1 env body out = ((p', out', ans), sent)"
  shows "px_budget p' = px_budget p \<and> px_acc p' = px_acc p"
  using assms
proof (cases rule: dispatch_body_cases)
  case (target p1 t e)
  then show ?thesis using resolveTarget_frame by auto
next
  case (prep p1 t ob e)
  then show ?thesis using resolveTarget_frame [OF prep(1)] prepare_frame [OF prep(2)] by simp
next
  case (loop p1 t p2 ob st lo)
  then show ?thesis using resolveTarget_frame [OF loop(1)] prepare_frame [OF loop(2)] finish_loop_frame [OF loop(5)] by simp
qed

text \<open>A reservation that was taken is given back exactly, whole or in two parts.\<close>

definition sound_budget :: "budget \<Rightarrow> bool" where
  "sound_budget b \<longleftrightarrow> 0 \<le> bu_used b \<and> bu_used b \<le> bu_total b \<and> 2 * bu_total b < 9223372036854775808"

lemma Acquire_reserves:
  assumes "Acquire b n = (b', True)" "sound_budget b" "0 \<le> n"
  shows "b' = b\<lparr>bu_used := bu_used b + n * 16\<rparr>" "n * 16 \<le> bu_total b"
proof -
  have n: "n * 16 \<le> bu_total b"
    using assms go_div_guard [of "bu_total b" n] by (auto simp: Acquire_def too_big_def budgetWeight_def sound_budget_def split: if_splits)
  then show "n * 16 \<le> bu_total b" .
  have "int64_ok (n * 16)" "int64_ok (bu_used b + n * 16)" using n assms(2,3) by (auto simp: int64_ok_def sound_budget_def)
  then show "b' = b\<lparr>bu_used := bu_used b + n * 16\<rparr>" using assms(1) by (auto simp: Acquire_def budgetWeight_def split: if_splits)
qed

lemma Release_exact:
  assumes "0 \<le> u" "0 \<le> n" "u + n * 16 < 9223372036854775808"
  shows "Release (b\<lparr>bu_used := u + n * 16\<rparr>) n = b\<lparr>bu_used := u\<rparr>"
proof -
  have "int64_ok (- n * 16)" "int64_ok u" using assms by (auto simp: int64_ok_def)
  then show ?thesis by (simp add: Release_def budgetWeight_def)
qed

lemma release_reserved:
  assumes "Acquire b n = (b', True)" "sound_budget b" "0 \<le> m" "m \<le> n"
  shows "release_body b' n = b" "release_body (Release b' (n - m)) m = b"
proof -
  note ac = Acquire_reserves [OF assms(1,2)]
  have le: "bu_used b + n * 16 < 9223372036854775808" using ac(2) assms by (auto simp: sound_budget_def)
  have r: "Release (b\<lparr>bu_used := bu_used b + k * 16\<rparr>) k = b" if "0 \<le> k" "k \<le> n" for k
    using Release_exact [of "bu_used b" k b] that le assms(2) by (simp add: sound_budget_def)
  have b': "b' = b\<lparr>bu_used := bu_used b + n * 16\<rparr>" using ac(1) assms(3,4) by simp
  have "0 \<le> n" using assms(3,4) by simp
  then show "release_body b' n = b" unfolding b' using r [of n] by (cases "n = 0") (simp_all add: release_body_def)
  have sum: "bu_used b + n * 16 = (bu_used b + m * 16) + (n - m) * 16" by simp
  have "Release b' (n - m) = b\<lparr>bu_used := bu_used b + m * 16\<rparr>"
    unfolding b' sum by (rule Release_exact) (use le assms(2-4) in \<open>simp_all add: sound_budget_def\<close>)
  then show "release_body (Release b' (n - m)) m = b" using r [of m] assms(3,4) by (cases "m = 0") (simp_all add: release_body_def)
qed

lemma readBody_released:
  assumes "readBody p q o1 = (b, reserve, res)" "sound_budget (px_budget p)" "0 \<le> sv_MaxBodyBytes (px_server p)"
  shows "release_body b reserve = px_budget p"
proof -
  let ?b = "px_budget p" and ?cl = "pq_ContentLength q" and ?mx = "sv_MaxBodyBytes (px_server p)"
  have none: "release_body ?b 0 = ?b" by (simp add: release_body_def)
  have fin: "release_body b reserve = ?b"
    if "(b1 = ?b \<and> k = 0) \<or> (Acquire ?b k = (b1, True) \<and> 0 \<le> k)"
      "(b = b1 \<and> reserve = k) \<or> (\<exists>n. 0 \<le> n \<and> n < k \<and> b = Release b1 (k - n) \<and> reserve = n)" for b1 k
    using that(1)
  proof
    assume "Acquire ?b k = (b1, True) \<and> 0 \<le> k"
    then have ac: "Acquire ?b k = (b1, True)" "0 \<le> k" by auto
    from that(2) show ?thesis
      using release_reserved(1) [OF ac(1) assms(2) ac(2) order_refl] release_reserved(2) [OF ac(1) assms(2)] by fastforce
  qed (use that(2) none in auto)
  obtain b1 k ok where a: "(if 0 < ?cl \<and> ?cl \<le> ?mx then (case Acquire ?b ?cl of (b', ok) \<Rightarrow> (b', if ok then ?cl else 0, ok))
               else if ?cl < 0 then (case Acquire ?b ?mx of (b', ok) \<Rightarrow> (b', if ok then ?mx else 0, ok))
               else (?b, 0, True)) = (b1, k, ok)" by (rule prod_cases3)
  have ak: "(b1 = ?b \<and> k = 0) \<or> (Acquire ?b k = (b1, True) \<and> 0 \<le> k)"
    using a assms(3) by (auto simp: Acquire_def split: if_splits)
  have "(b = ?b \<and> reserve = 0) \<or> (b = b1 \<and> (reserve = k \<or> reserve = 0 \<and> \<not> ok)) \<or>
      (\<exists>n. 0 \<le> n \<and> n < k \<and> b = Release b1 (k - n) \<and> reserve = n)"
    using assms(1) unfolding readBody_def Let_def a
    by (auto split: if_splits sum.splits read_error.splits)
  moreover have "\<not> ok \<Longrightarrow> b1 = ?b" using a by (auto simp: Acquire_def split: if_splits)
  ultimately show ?thesis using fin [OF ak] none by auto
qed

text \<open>Only an answer of a backend with a status below 300 carries a charge.\<close>

definition uncharged :: "disp_out \<Rightarrow> bool" where
  "uncharged out \<longleftrightarrow> do_usage out = no_usage \<and> do_usageStatus out = UsageUnknown \<and> do_reservation out = 0"

lemma uncharged_total: "uncharged out \<Longrightarrow> charged_total (final_out out) = 0"
  by (auto simp: uncharged_def charged_total_def final_out_def)

lemma fail_out_uncharged: "(out', ans) = fail_out out ra e \<Longrightarrow> uncharged out \<Longrightarrow> uncharged out'"
  by (simp add: fail_out_def uncharged_def)

lemma FwdOk_status:
  assumes "fst (Forward c req acq v tr tf) = FwdOk r"
  shows "re_Status r < 300"
  using assms
  by (auto simp: Forward_def buffered_def Let_def split: sum.splits if_splits prod.splits option.splits)

lemma on_failure_not_got: "on_failure env name err res st = (st', v) \<Longrightarrow> v \<noteq> Stop (LoGot nm r)"
  by (auto simp: on_failure_def Let_def split: if_splits)

lemma send_attempt_got:
  assumes "send_attempt p o1 t ob hdrs env k name st = (st', Stop (LoGot nm r))"
  shows "lo_sent st' \<noteq> [] \<and> re_Status r < 300"
proof -
  have "v \<noteq> Stop (LoGot nm r)" if "on_failure env name err res st0 = (st', v)" for err res st0 v
    using that by (rule on_failure_not_got)
  then show ?thesis using assms
    by (auto simp: send_attempt_def Let_def dest: FwdOk_status split: sum.splits prod.splits if_splits option.splits forward_result.splits)
qed

lemma pick_not_got: "pick_backend t env k st \<noteq> (st', Inl (Stop (LoGot nm r)))"
  by (auto simp: pick_backend_def Let_def split: if_splits sum.splits prod.splits option.splits)

lemma terminal_not_got: "terminal p st \<noteq> LoGot nm r"
  by (auto simp: terminal_def Let_def split: option.splits)

lemma attempts_got:
  assumes "attempts p o1 t ob hdrs env n k st = (st', LoGot nm r)"
  shows "lo_sent st' \<noteq> [] \<and> re_Status r < 300"
  using assms
proof (induction n arbitrary: k st)
  case (Suc n)
  obtain st1 res where pk: "pick_backend t (env k) k st = (st1, res)" by fastforce
  show ?case
  proof (cases res)
    case (Inl v)
    then show ?thesis using Suc.prems pk pick_not_got [of t "env k" k st] terminal_not_got by (cases v) (auto split: if_splits)
  next
    case (Inr name)
    obtain st2 v where sa: "send_attempt p o1 t ob hdrs (env k) k name st1 = (st2, v)" by fastforce
    then show ?thesis using Suc pk Inr terminal_not_got send_attempt_got [of p o1 t ob hdrs "env k" k name st1]
      by (cases v) (auto split: if_splits)
  qed
qed (use terminal_not_got in auto)

text \<open>A handler panics only on a status below 100, and the status is then that of the response.\<close>

definition charge_ok :: "disp_out \<Rightarrow> answer \<Rightarrow> bool \<Rightarrow> bool" where
  "charge_ok out ans reached \<longleftrightarrow> uncharged out \<and> ans \<noteq> Panicked \<or>
     reached \<and> do_status out < 300 \<and> (ans = Panicked \<longleftrightarrow> do_status out < 100)"

lemma charge_final:
  assumes "charge_ok out ans reached"
  shows "charged_total (final_out out) \<noteq> 0 \<longrightarrow> reached \<and> (do_status (final_out out) < 300 \<or> ans = Panicked)"
  using assms uncharged_total [of out] by (auto simp: charge_ok_def final_out_def)

lemma finish_loop_charge:
  assumes "finish_loop p q o1 t ob env (st, lo) out = (p', out', ans)" "uncharged out"
  shows "uncharged out' \<and> ans \<noteq> Panicked \<or>
    (\<exists>nm r. lo = LoGot nm r \<and> (do_status out' = 200 \<and> ans \<noteq> Panicked \<or> do_status out' = re_Status r \<and> (ans = Panicked \<longleftrightarrow> re_Status r < 100)))"
  using assms
  by (auto simp: finish_loop_def finish_result_def fail_out_def uncharged_def Let_def split: loop_out.splits option.splits prod.splits if_splits)

lemma dispatch_body_charge:
  assumes "dispatch_body p q o1 env body out = ((p', out', ans), sent)" "uncharged out"
  shows "charge_ok out' ans (sent \<noteq> [])"
proof -
  have u: "uncharged (out\<lparr>do_model := m\<rparr>)" for m using assms(2) by (simp add: uncharged_def)
  have f: "charge_ok out' ans (sent \<noteq> [])" if "(out', ans) = fail_out (out\<lparr>do_model := m\<rparr>) ra e" for m ra e
    using fail_out_uncharged [OF that u] fail_out_answer [OF that] by (simp add: charge_ok_def)
  show ?thesis using assms(1)
  proof (cases rule: dispatch_body_cases)
    case (loop p1 t p2 ob st lo)
    from finish_loop_charge [OF loop(5) u] show ?thesis using attempts_got loop(3,4) by (fastforce simp: charge_ok_def)
  qed (use f in blast)+
qed

text \<open>Asking for admission is all that happens to the quota before the settlement.\<close>

definition asked_quota :: "preq \<Rightarrow> time \<Rightarrow> quota option \<Rightarrow> quota option \<Rightarrow> bool" where
  "asked_quota q now a b \<longleftrightarrow> b = a \<or>
     (\<exists>qt r. a = Some qt \<and> b = Some (fst (Accounting.Admit qt (ID (pq_Key q)) (windowLimits (Limits (pq_Key q))) r now)))"

lemma resolveTarget_quota: "resolveTarget p q o1 body now = (p1, t, e) \<Longrightarrow> px_quota p1 = px_quota p"
  by (auto simp: resolveTarget_def target_by_model_def target_by_response_def Let_def
      split: if_splits sum.splits prod.splits option.splits)

lemma prepare_quota: "prepare p q o1 t now = (p2, ob, e) \<Longrightarrow> asked_quota q now (px_quota p) (px_quota p2)"
  unfolding asked_quota_def
  by (auto simp: prepare_def Let_def split: if_splits sum.splits prod.splits option.splits body_error.splits) (metis fst_conv)+

lemma finish_loop_quota: "finish_loop p q o1 t ob env res out = (p', out', ans) \<Longrightarrow> px_quota p' = px_quota p"
  by (auto simp: finish_loop_def finish_result_def put_affinity_def Let_def
      split: loop_out.splits option.splits prod.splits if_splits)

lemma dispatch_body_quota:
  assumes "dispatch_body p q o1 env body out = ((p', out', ans), sent)"
  shows "asked_quota q (dn_now env) (px_quota p) (px_quota p')"
  using assms
proof (cases rule: dispatch_body_cases)
  case (target p1 t e)
  then show ?thesis using resolveTarget_quota by (auto simp: asked_quota_def)
next
  case (prep p1 t ob e)
  then show ?thesis using resolveTarget_quota [OF prep(1)] prepare_quota [OF prep(2)] by simp
next
  case (loop p1 t p2 ob st lo)
  then show ?thesis using resolveTarget_quota [OF loop(1)] prepare_quota [OF loop(2)] finish_loop_quota [OF loop(5)] by simp
qed

lemma dispatch_core_settles:
  assumes "dispatch_core p q o1 env = ((p1, out, ans), sent, reserve)"
    and "sound_budget (px_budget p)" "0 \<le> sv_MaxBodyBytes (px_server p)"
  shows "release_body (px_budget p1) reserve = px_budget p" "px_acc p1 = px_acc p" "asked_quota q (dn_now env) (px_quota p) (px_quota p1)"
    and "charge_ok out ans (sent \<noteq> [])"
proof -
  have u: "uncharged (init_out\<lparr>do_bytesIn := n\<rparr>)" for n by (simp add: uncharged_def init_out_def)
  have f: "charge_ok out ans (sent \<noteq> [])" if "(out, ans) = fail_out init_out ra e" for ra e
    using fail_out_uncharged [OF that] fail_out_answer [OF that] by (simp add: charge_ok_def uncharged_def init_out_def)
  have "release_body (px_budget p1) reserve = px_budget p \<and> px_acc p1 = px_acc p \<and> asked_quota q (dn_now env) (px_quota p) (px_quota p1) \<and>
      charge_ok out ans (sent \<noteq> [])"
    using assms(1)
  proof (cases rule: dispatch_core_cases)
    case (drain e)
    then show ?thesis using f [OF drain(1)] by (simp add: release_body_def asked_quota_def)
  next
    case (refused e b)
    then show ?thesis using f [OF refused(2)] readBody_released [OF refused(1) assms(2,3)] by (simp add: asked_quota_def)
  next
    case (body b bd n)
    then show ?thesis using dispatch_body_frame [OF body(2)] dispatch_body_quota [OF body(2)] dispatch_body_charge [OF body(2) u]
        readBody_released [OF body(1) assms(2,3)] by auto
  qed
  then show "release_body (px_budget p1) reserve = px_budget p" "px_acc p1 = px_acc p" "asked_quota q (dn_now env) (px_quota p) (px_quota p1)"
    "charge_ok out ans (sent \<noteq> [])" by auto
qed

subsection \<open>What reaches a backend\<close>

lemma dispatch_reaches:
  assumes "dispatch p q o1 env = (p', out, ans, sent)" "(name, req) \<in> set sent" "o1 \<in> set operations"
    and "\<forall>n u. UpstreamFor (px_router p) n = Some u \<longrightarrow> valid_utf8 u"
  shows "bq_Method req = op_method o1" and "if op_route o1 = routeByModel
    then \<exists>fs model stream up fs'. shallowParse (pq_Body q) = Inr (fs, model, stream) \<and> Allows (pq_Key q) model \<and> Has (px_router p) model \<and>
      UpstreamFor (px_router p) name = Some up \<and> shallowParse (bq_Body req) = Inr (fs', up, stream) \<and> bq_Stream req = stream \<and> bq_Path req = op_path o1
    else \<exists>b m. snd (Get (px_affinity p) (dn_now env) (ID (pq_Key q)) (pq_ResponseID q)) = Some (b, m) \<and> Allows (pq_Key q) m \<and>
      isValidResponseID (pq_ResponseID q) \<and> (b \<noteq> [] \<longrightarrow> name = b) \<and>
      bq_Path req = ''/v1/responses/'' @ pq_ResponseID q @ (if op_method o1 = ''POST'' then ''/cancel'' else [])"
proof -
  have "sent \<noteq> []" using assms(2) by auto
  from dispatch_sent [OF assms(1) this] obtain b reserve body p1 t p2 ob where d:
    "readBody p q o1 = (b, reserve, Inr body)" "resolveTarget (p\<lparr>px_budget := b\<rparr>) q o1 body (dn_now env) = (p1, t, None)"
    "prepare p1 q o1 t (dn_now env) = (p2, ob, None)"
    "sent = lo_sent (fst (attempts p2 o1 t ob (out_headers q ob) (dn_attempt env) (max_attempts p2) 0 (loop_start p2 ob)))" .
  note rt = resolveTarget_ok [OF d(2)] and pf = prepare_frame [OF d(3)]
  have r: "px_router p2 = px_router p" using rt(1) pf(1) by simp
  have so: "sent_ok (px_router p) o1 t ob (out_headers q ob) (name, req)" using sent_facts(1) [OF d(4)] assms(2) r by auto
  then show "bq_Method req = op_method o1" by (simp add: sent_ok_def)
  show "if op_route o1 = routeByModel
    then \<exists>fs model stream up fs'. shallowParse (pq_Body q) = Inr (fs, model, stream) \<and> Allows (pq_Key q) model \<and> Has (px_router p) model \<and>
      UpstreamFor (px_router p) name = Some up \<and> shallowParse (bq_Body req) = Inr (fs', up, stream) \<and> bq_Stream req = stream \<and> bq_Path req = op_path o1
    else \<exists>b m. snd (Get (px_affinity p) (dn_now env) (ID (pq_Key q)) (pq_ResponseID q)) = Some (b, m) \<and> Allows (pq_Key q) m \<and>
      isValidResponseID (pq_ResponseID q) \<and> (b \<noteq> [] \<longrightarrow> name = b) \<and>
      bq_Path req = ''/v1/responses/'' @ pq_ResponseID q @ (if op_method o1 = ''POST'' then ''/cancel'' else [])"
  proof (cases "op_route o1 = routeByModel")
    case True
    then have body: "body = pq_Body q" using readBody_POST [OF d(1)] assms(3) by (auto simp: operations_def opChat_def opLegacy_def opEmbed_def opResp_def opRespGet_def opRespCancel_def)
    obtain fs model stream where m: "shallowParse (pq_Body q) = Inr (fs, model, stream)" "Allows (pq_Key q) model" "Has (px_router p) model"
        "pt_fields t = Some fs" "pt_stream t = stream" "pt_path t = op_path o1"
      using rt(6) [OF True] body by auto
    obtain cap res injd fs1 ens conf where po: "prepareOutbound fs o1 cap stream ens conf = Inr (res, injd, fs1)" "ob_fields ob = Some fs1"
      using prepare_fields [OF d(3) True] m(4,5) by auto
    have ok1: "map_ok fs1" and same: "outbound_step o1 fs fs1"
      using prepare_step [OF shallow_map_ok [OF m(1)] assms(3) po(1)] by (simp_all add: outbound_step_def)
    obtain up fs2 fs3 where up: "UpstreamFor (px_router p) name = Some up" "map_ok fs2" "\<forall>k. k \<noteq> ''model'' \<longrightarrow> map_of fs2 k = map_of fs1 k"
        "encodeOutbound fs2 up = Inr (bq_Body req, fs3)" and sr: "bq_Stream req = stream" "bq_Path req = op_path o1"
      using so ok1 po(2) m(5,6) by (auto simp: sent_ok_def)
    have "valid_utf8 up" using assms(4) up(1) by blast
    from encoded_parses [OF up(2) this up(4)] obtain fs4 where "shallowParse (bq_Body req) = Inr (fs4, up, stream_flag fs2)" by blast
    moreover have "stream_flag fs2 = stream"
    proof -
      have "map_of fs2 ''stream'' = map_of fs ''stream''" using up(3) same op_fields(1) [OF assms(3)] by (auto simp: outbound_step_def)
      then have "stream_flag fs2 = stream_flag fs" by (simp add: stream_flag_def)
      then show ?thesis using shallow_stream [OF m(1)] by simp
    qed
    ultimately show ?thesis using True m up(1) sr by auto
  next
    case False
    then show ?thesis using rt(7) [OF False] so by (auto simp: sent_ok_def)
  qed
qed

section \<open>Properties\<close>

text \<open>
  C2: Only authorized requests reach a backend, and they ask it for what was authorized. If the handler passes a
  request to a backend client, then on a model route the key allows the model the body names and the model is
  configured, and the body sent names, to the same parser, exactly the upstream model of that backend; on a
  response route the affinity table holds that response for this key, the key still allows its model, and the
  request goes to the owning backend alone under a path made of the checked ID.
\<close>

theorem dispatch_authorized:
  assumes "dispatch p q o1 env = (p', out, ans, sent)" "(name, req) \<in> set sent" "o1 \<in> set operations"
    and "\<forall>n u. UpstreamFor (px_router p) n = Some u \<longrightarrow> valid_utf8 u"
  shows "if op_route o1 = routeByModel
    then \<exists>fs model stream up fs'. shallowParse (pq_Body q) = Inr (fs, model, stream) \<and> Allows (pq_Key q) model \<and> Has (px_router p) model \<and>
      UpstreamFor (px_router p) name = Some up \<and> shallowParse (bq_Body req) = Inr (fs', up, stream) \<and> bq_Stream req = stream \<and> bq_Path req = op_path o1
    else \<exists>b m. snd (Get (px_affinity p) (dn_now env) (ID (pq_Key q)) (pq_ResponseID q)) = Some (b, m) \<and> Allows (pq_Key q) m \<and>
      isValidResponseID (pq_ResponseID q) \<and> (b \<noteq> [] \<longrightarrow> name = b) \<and>
      bq_Path req = ''/v1/responses/'' @ pq_ResponseID q @ (if op_method o1 = ''POST'' then ''/cancel'' else [])"
  using dispatch_reaches(2) [OF assms] .


text \<open>
  C3: Every path settles what it took. Whatever happens to a request, when its handler returns the byte budget
  stands where it stood, exactly one record has been offered to the accounting writer, the tokens of that record
  are those debited from the quota, and a request that never reached a backend or was not answered below status 300
  is charged nothing (save one whose answer, with a status below 100, could not be relayed).
\<close>

theorem dispatch_settles:
  assumes "dispatch p q o1 env = (p', out, ans, sent)"
    and "sound_budget (px_budget p)" "0 \<le> sv_MaxBodyBytes (px_server p)"
  shows "px_budget p' = px_budget p \<and>
    px_acc p' = map_option (\<lambda>w. Enqueue w (usage_record q o1 (dn_start env) (dn_now env) out) (time_unix (dn_now env))) (px_acc p) \<and>
    rc_ChargedTokens (usage_record q o1 (dn_start env) (dn_now env) out) = charged_total out \<and>
    (\<exists>qo. asked_quota q (dn_now env) (px_quota p) qo \<and>
       px_quota p' = map_option (\<lambda>qt. if 0 < charged_total out then Settle qt (ID (pq_Key q)) (charged_total out) (dn_now env) else qt) qo) \<and>
    (charged_total out \<noteq> 0 \<longrightarrow> sent \<noteq> [] \<and> (do_status out < 300 \<or> ans = Panicked))"
proof -
  from dispatch_parts [OF assms(1)] obtain p1 out0 reserve where c: "dispatch_core p q o1 env = ((p1, out0, ans), sent, reserve)"
    "out = final_out out0" "p' = account (p1\<lparr>px_budget := release_body (px_budget p1) reserve\<rparr>) q o1 (dn_start env) (dn_now env) out" .
  note core = dispatch_core_settles [OF c(1) assms(2,3)]
  have "charged_total out \<noteq> 0 \<longrightarrow> sent \<noteq> [] \<and> (do_status out < 300 \<or> ans = Panicked)"
    using charge_final [OF core(4)] c(2) by simp
  moreover have "px_budget p' = px_budget p" using c(3) core(1) by (simp add: account_def Let_def)
  moreover have "px_acc p' = map_option (\<lambda>w. Enqueue w (usage_record q o1 (dn_start env) (dn_now env) out) (time_unix (dn_now env))) (px_acc p)"
    using c(3) core(2) by (simp add: account_def Let_def)
  moreover have "px_quota p' = map_option (\<lambda>qt. if 0 < charged_total out then Settle qt (ID (pq_Key q)) (charged_total out) (dn_now env) else qt) (px_quota p1)"
    using c(3) by (simp add: account_def Let_def split: option.split)
  ultimately show ?thesis using core(3) by (auto simp: usage_record_def)
qed

subsection \<open>Witnesses\<close>

definition ex_attempt :: "int \<Rightarrow> attempt_env" where
  "ex_attempt status = \<lparr>en_gone = False, en_load = (\<lambda>_. 0), en_now = 10, en_draw = (\<lambda>d. 0), en_goneSleep = False, en_acquired = Inr (), en_valid = (\<lambda>_. True),
     en_transport = (\<lambda>_ _. Inr \<lparr>hr_Status = status, hr_Header = [], hr_Body = ''{}'', hr_End = None\<rparr>), en_timeoutFired = False, en_goneAfter = False\<rparr>"

definition ex_disp_env :: "int \<Rightarrow> disp_env" where
  "ex_disp_env status = \<lparr>dn_start = 9, dn_now = 10, dn_attempt = (\<lambda>_. ex_attempt status), dn_pump = ex_pump_env, dn_order = [], dn_chunks = 1\<rparr>"

text \<open>The owner of a response asks for it.\<close>

definition ex_preq :: "key \<Rightarrow> string \<Rightarrow> headers \<Rightarrow> preq" where
  "ex_preq k rid h = \<lparr>pq_Key = k, pq_RequestID = rid, pq_ResponseID = ''resp_1'', pq_Header = h, pq_ContentLength = 0, pq_Body = [], pq_BodyEnd = None\<rparr>"

definition ex_breq1 :: "headers \<Rightarrow> backend_request" where
  "ex_breq1 h = \<lparr>bq_Method = ''GET'', bq_Path = ''/v1/responses/resp_1'', bq_Body = [], bq_Headers = passthroughHeaders h, bq_Stream = False\<rparr>"

lemma ex_dispatch: 
  assumes "0 < status" "status < 300" "Allows k ''m''"
  shows "\<exists>p' out w. dispatch (ex_proxy (ID k)) (ex_preq k rid h0) opRespGet (ex_disp_env status) = (p', out, if status < 100 then Panicked else Sent w, [(''b1'', ex_breq1 h0)]) \<and>
    do_status out = status"
proof -
  have g: "Get (px_affinity (ex_proxy (ID k))) 10 (ID k) ''resp_1'' = (px_affinity (ex_proxy (ID k)), Some (''b1'', ''m''))"
    by (simp add: ex_proxy_def Put_def Get_def newAffinity_def evictLocked_def Let_def)
  have vi: "isValidResponseID ''resp_1''" by code_simp
  define t where "t = \<lparr>pt_model = [], pt_stream = False, pt_backend = ''b1'', pt_path = ''/v1/responses/resp_1'', pt_fields = None, pt_body = []\<rparr>"
  define ob where "ob = \<lparr>ob_fields = None, ob_body = [], ob_reservation = 0, ob_injectedUsage = False\<rparr>"
  define r where "r = \<lparr>re_Status = status, re_Header = [], re_Body = None, re_BodyBytes = ''{}'', re_hold = False\<rparr>"
  have rb: "readBody (ex_proxy (ID k)) (ex_preq k rid h0) opRespGet = (px_budget (ex_proxy (ID k)), 0, Inr [])" by (simp add: readBody_def opRespGet_def Let_def)
  have rt: "resolveTarget (ex_proxy (ID k)) (ex_preq k rid h0) opRespGet [] 10 = ((ex_proxy (ID k)), t, None)"
    using g assms(3) vi by (simp add: resolveTarget_def target_by_response_def opRespGet_def ex_preq_def t_def Let_def)
  have pr: "prepare (ex_proxy (ID k)) (ex_preq k rid h0) opRespGet t 10 = ((ex_proxy (ID k)), ob, None)" by (simp add: prepare_def opRespGet_def ob_def t_def Let_def)
  have oh: "out_headers (ex_preq k rid h0) ob = passthroughHeaders h0" by (simp add: out_headers_def ex_preq_def ob_def)
  have fw: "fst (Forward ex_client req (en_acquired (ex_attempt status)) (en_valid (ex_attempt status)) (en_transport (ex_attempt status)) (en_timeoutFired (ex_attempt status))) = FwdOk r"
    if "\<not> bq_Stream req" for req using that assms(2)
    by (simp add: Forward_def buffered_def read_limited_def ex_client_def ex_attempt_def r_def Let_def)
  have pk: "pick_backend t (ex_attempt status) 0 (loop_start (ex_proxy (ID k)) ob) = (loop_start (ex_proxy (ID k)) ob, Inr ''b1'')" by (simp add: pick_backend_def t_def)
  have at: "\<exists>st. attempts (ex_proxy (ID k)) opRespGet t ob (out_headers (ex_preq k rid h0) ob) (\<lambda>_. ex_attempt status) (max_attempts (ex_proxy (ID k))) 0 (loop_start (ex_proxy (ID k)) ob) = (st, LoGot ''b1'' r) \<and>
      lo_sent st = [(''b1'', ex_breq1 h0)]"
  proof -
    have "px_clients (ex_proxy (ID k)) ''b1'' = Some ex_client" by (simp add: ex_proxy_def)
    then obtain st where sa: "send_attempt (ex_proxy (ID k)) opRespGet t ob (out_headers (ex_preq k rid h0) ob) (ex_attempt status) 0 ''b1'' (loop_start (ex_proxy (ID k)) ob) = (st, Stop (LoGot ''b1'' r))"
        "lo_sent st = [(''b1'', ex_breq1 h0)]"
      by (simp add: send_attempt_def attempt_body_def loop_start_def oh [unfolded ob_def] fw t_def ob_def opRespGet_def ex_breq1_def Let_def)
    have "max_attempts (ex_proxy (ID k)) = Suc 1" "\<not> en_gone (ex_attempt status)" by (simp_all add: max_attempts_def ex_proxy_def ex_attempt_def)
    then show ?thesis using sa pk by simp
  qed
  then obtain st where at: "attempts (ex_proxy (ID k)) opRespGet t ob (out_headers (ex_preq k rid h0) ob) (\<lambda>_. ex_attempt status) (max_attempts (ex_proxy (ID k))) 0 (loop_start (ex_proxy (ID k)) ob) = (st, LoGot ''b1'' r)"
    "lo_sent st = [(''b1'', ex_breq1 h0)]" by blast
  have dn: "dn_now (ex_disp_env status) = 10" "dn_attempt (ex_disp_env status) = (\<lambda>_. ex_attempt status)" "\<not> px_draining (ex_proxy (ID k))" "(ex_proxy (ID k))\<lparr>px_budget := px_budget (ex_proxy (ID k))\<rparr> = (ex_proxy (ID k))"
    by (simp_all add: ex_disp_env_def ex_proxy_def)
  obtain p1 out1 w where fl: "finish_loop (ex_proxy (ID k)) (ex_preq k rid h0) opRespGet t ob (ex_disp_env status) (st, LoGot ''b1'' r) (init_out\<lparr>do_model := []\<rparr>) = (p1, out1, if status < 100 then Panicked else Sent w)" "do_status out1 = status"
    by (cases "status < 100") (simp_all add: finish_loop_def finish_result_def r_def consumesUsage_def opRespGet_def Let_def)
  have "dispatch_body (ex_proxy (ID k)) (ex_preq k rid h0) opRespGet (ex_disp_env status) [] init_out = ((p1, out1, if status < 100 then Panicked else Sent w), [(''b1'', ex_breq1 h0)])"
    using fl at by (simp add: dispatch_body_def dn rt pr Let_def) (simp add: t_def)
  then have "dispatch_core (ex_proxy (ID k)) (ex_preq k rid h0) opRespGet (ex_disp_env status) = ((p1, out1, if status < 100 then Panicked else Sent w), [(''b1'', ex_breq1 h0)], 0)"
    by (simp add: dispatch_core_def dn rb) (simp add: opRespGet_def)
  then show ?thesis using fl(2) assms(1) by (simp add: dispatch_def final_out_def)
qed

definition ex_akey :: key where "ex_akey = ex_key\<lparr>ID := ''key-a''\<rparr>"

lemma ex_akey: "Allows ex_akey ''m''" "ID ex_akey = ''key-a''"
  by (simp_all add: ex_akey_def Allows_def ex_key_def ModelWildcard_def)

theorem dispatch_authorized_witness:
  "\<exists>p' out ans. dispatch (ex_proxy ''key-a'') (ex_preq ex_akey ''req'' []) opRespGet (ex_disp_env 200) = (p', out, ans, [(''b1'', (ex_breq1 []))]) \<and>
   snd (Get (px_affinity (ex_proxy ''key-a'')) 10 ''key-a'' ''resp_1'') = Some (''b1'', ''m'')"
proof -
  from ex_dispatch [of 200 ex_akey "''req''" "[]"] ex_akey obtain p' out w where d: "dispatch (ex_proxy ''key-a'') (ex_preq ex_akey ''req'' []) opRespGet (ex_disp_env 200) = (p', out, Sent w, [(''b1'', (ex_breq1 []))])" by auto
  have up: "UpstreamFor (px_router (ex_proxy ''key-a'')) n = (if n = ''a'' then Some ''ua'' else if n = ''b'' then Some ''ub'' else None)" for n
    by (simp add: UpstreamFor_def ex_proxy_def ex_router_def ex_models_def ex_backends_def ex_backend_def entry_of_def replica_of_def)
  have "valid_utf8 ''ua''" "valid_utf8 ''ub''" by (simp_all add: decode1 byte_of_def RuneError_def)
  then have v: "\<forall>n u. UpstreamFor (px_router (ex_proxy ''key-a'')) n = Some u \<longrightarrow> valid_utf8 u" by (simp add: up)
  have o1: "opRespGet \<in> set operations" by (simp add: operations_def)
  have "\<exists>b m. snd (Get (px_affinity (ex_proxy ''key-a'')) 10 ''key-a'' ''resp_1'') = Some (b, m) \<and> (b \<noteq> [] \<longrightarrow> ''b1'' = b)"
    using dispatch_authorized [OF d, of "''b1''" "ex_breq1 []", OF _ o1 v] by (auto simp: opRespGet_def ex_disp_env_def ex_preq_def ex_akey)
  then show ?thesis using d by (auto simp: ex_proxy_def Put_def Get_def newAffinity_def evictLocked_def Let_def)
qed


theorem dispatch_settles_witness:
  "\<exists>p' out ans sent. dispatch (ex_proxy ''key-a'') (ex_preq ex_akey ''req'' []) opRespGet (ex_disp_env 200) = (p', out, ans, sent) \<and> sent \<noteq> [] \<and> px_budget p' = newBudget 4000"
proof -
  from ex_dispatch [of 200 ex_akey "''req''" "[]"] ex_akey obtain p' out w where d: "dispatch (ex_proxy ''key-a'') (ex_preq ex_akey ''req'' []) opRespGet (ex_disp_env 200) = (p', out, Sent w, [(''b1'', (ex_breq1 []))])" by auto
  have "sound_budget (px_budget (ex_proxy ''key-a''))" "0 \<le> sv_MaxBodyBytes (px_server (ex_proxy ''key-a''))" "px_budget (ex_proxy ''key-a'') = newBudget 4000"
    by (simp_all add: sound_budget_def ex_proxy_def newBudget_def ex_server_def)
  from dispatch_settles [OF d this(1,2)] this(3) d show ?thesis by auto
qed

end
