(* ===== verification/HttpApi.thy ===== *)
theory HttpApi
  imports Settings Peers Limiter Dispatch
begin

text \<open>
  The ingress (\<^verbatim>\<open>src/internal/httpapi/server.go\<close>, \<^verbatim>\<open>models.go\<close>, \<^verbatim>\<open>errors.go\<close>): construction, reload, the gates a request
  passes, authentication, the route table, and the listing of models. An accepted request is handed to \<open>dispatch\<close>.

  A handler is a function on the state of the server. The buckets and concurrency bounds that several generations
  of the limit registry may share live in one heap. What the handler meets outside is its environment: the clock
  at each gate, the random bytes of the request ID, the order in which a full source table is scanned, the keyed
  hash, and the environment of the proxy.
\<close>

section \<open>Definitions\<close>

record snapshot =
  sn_store :: store
  sn_limits :: registry

record httpserver =
  hs_snap :: snapshot
  hs_heap :: limit_heap
  hs_proxy :: proxy
  hs_size :: int
  hs_inflight :: int
  hs_globalRPS :: bucket
  hs_sourceLimit :: source_registry
  hs_authLog :: bucket
  hs_authDropped :: int
  hs_peers :: trustedPeers
  hs_ready :: bool
  hs_startedUnix :: int

record http_in =
  hi_Method :: string
  hi_Path :: string
  hi_RemoteAddr :: string
  hi_Header :: headers
  hi_ContentLength :: int
  hi_Body :: bytes
  hi_BodyEnd :: "go_error option"

record route_env =
  rn_random :: "bytes option"
  rn_sourceNow :: time
  rn_globalNow :: time
  rn_lookupNow :: time
  rn_authLogNow :: time
  rn_keyNow :: time
  rn_order :: "string list"
  rn_hmac :: "bytes \<Rightarrow> bytes \<Rightarrow> bytes"
  rn_disp :: disp_env

subsection \<open>Construction and reload\<close>

definition DefaultPreauthSources :: int where "DefaultPreauthSources = 4096"

text \<open>The panics of \<^verbatim>\<open>New\<close> are its left summand.\<close>

definition http_New :: "(string \<Rightarrow> ip_prefix option) \<Rightarrow> config \<Rightarrow> store \<Rightarrow> proxy \<Rightarrow> time \<Rightarrow> string + httpserver" where
  "http_New parsePrefix cfg st p now =
     (let size = max (sv_MaxInflightRequests (cf_Server cfg)) 1;
          l = cf_Limits cfg;
          (rps, burst) = (if f64_le (lm_GlobalRequestsPerSecond l) (Fin 0) \<or> lm_GlobalBurst l < 1 then (Fin 100, 200)
                          else (lm_GlobalRequestsPerSecond l, lm_GlobalBurst l));
          (prps, pburst) = (if f64_le (lm_PreauthRequestsPerSecond l) (Fin 0) \<or> lm_PreauthBurst l < 1 then (Fin 100, 200)
                            else (lm_PreauthRequestsPerSecond l, lm_PreauthBurst l));
          alr = (if f64_le (lm_AuthFailureLogRate l) (Fin 0) then Fin 1 else lm_AuthFailureLogRate l)
      in case NewBucket rps burst of
           None \<Rightarrow> Inl ''httpapi: invalid global rate limit''
         | Some g \<Rightarrow>
             (case NewSourceRegistry prps pburst DefaultPreauthSources of
                None \<Rightarrow> Inl ''httpapi: invalid preauth rate limit''
              | Some sl \<Rightarrow>
                  (case NewBucket alr 3 of
                     None \<Rightarrow> Inl ''httpapi: invalid auth log rate''
                   | Some al \<Rightarrow>
                       Inr \<lparr>hs_snap = \<lparr>sn_store = st, sn_limits = NewRegistry\<rparr>, hs_heap = empty_heap, hs_proxy = p, hs_size = size,
                         hs_inflight = 0, hs_globalRPS = g, hs_sourceLimit = sl, hs_authLog = al, hs_authDropped = 0,
                         hs_peers = newTrustedPeers parsePrefix (l_Network (sv_Listen (cf_Server cfg))) (sv_TrustedProxies (cf_Server cfg)),
                         hs_ready = False, hs_startedUnix = time_unix now\<rparr>)))"

definition ReloadStore :: "httpserver \<Rightarrow> store \<Rightarrow> httpserver" where
  "ReloadStore s st = s\<lparr>hs_snap := \<lparr>sn_store = st, sn_limits = NewRegistryCarrying (Some (sn_limits (hs_snap s))) (Some (HasID st))\<rparr>\<rparr>"

definition SetReady :: "httpserver \<Rightarrow> bool \<Rightarrow> httpserver" where
  "SetReady s v = s\<lparr>hs_ready := v\<rparr>"

subsection \<open>Answers\<close>

text \<open>The standard messages of \<^verbatim>\<open>apierr\<close>, and a 429 with the wait in whole seconds, rounded up.\<close>

definition MsgNotFound :: string where "MsgNotFound = ''not found''"
definition MsgBadMethod :: string where "MsgBadMethod = ''method not allowed''"
definition MsgBadAuth :: string where "MsgBadAuth = ''invalid api key''"
definition MsgOverload :: string where "MsgOverload = ''server is overloaded''"
definition MsgRateLimit :: string where "MsgRateLimit = ''too many requests''"

definition retry_seconds :: "duration \<Rightarrow> int" where
  "retry_seconds ra = max (case dur_seconds ra of Fin r \<Rightarrow> \<lceil>r\<rceil> | _ \<Rightarrow> 0) 1"

definition WriteRateLimit :: "headers \<Rightarrow> duration \<Rightarrow> written" where
  "WriteRateLimit h ra =
     apierr_Write (if 0 < ra then hdr_set h ''Retry-After'' (int_literal (retry_seconds ra)) else h)
       429 ''rate_limit_error'' ''too_many_requests'' MsgRateLimit"

definition writeHealth :: "headers \<Rightarrow> int \<Rightarrow> string \<Rightarrow> written" where
  "writeHealth h status body = \<lparr>wr_status = status, wr_header = hdr_set h ''Content-Type'' ''text/plain'', wr_body = body\<rparr>"

definition newRequestID :: "bytes option \<Rightarrow> string" where
  "newRequestID rnd = (case rnd of None \<Rightarrow> ''req_0000000000000000'' | Some b \<Rightarrow> ''req_'' @ hex_encode b)"

subsection \<open>Authentication\<close>

text \<open>
  The credential a request presents: a bearer token, an \<^verbatim>\<open>X-Api-Key\<close>, or both alike; \<open>None\<close> when it is missing,
  doubled, malformed or contradictory.
\<close>

definition bearer_token :: "string list \<Rightarrow> string option" where
  "bearer_token auths =
     (case auths of
        [] \<Rightarrow> Some []
      | [a] \<Rightarrow>
          let scheme = takeWhile (\<lambda>c. c \<noteq> CHR '' '') a in
          if CHR '' '' \<notin> set a then None
          else if \<not> equal_fold scheme ''bearer'' then None
          else let b = TrimSpace (drop (length scheme + 1) a) in if b = [] then None else Some b
      | _ \<Rightarrow> None)"

definition present_key :: "headers \<Rightarrow> string option" where
  "present_key h =
     (case bearer_token (hdr_values h ''Authorization'') of
        None \<Rightarrow> None
      | Some bearer \<Rightarrow>
          (case hdr_values h ''X-Api-Key'' of
             _ # _ # _ \<Rightarrow> None
           | ks \<Rightarrow>
               let apiKey = (case ks of [] \<Rightarrow> [] | k # _ \<Rightarrow> k) in
               if bearer \<noteq> [] \<and> apiKey = [] then Some bearer
               else if bearer = [] \<and> apiKey \<noteq> [] then Some apiKey
               else if bearer \<noteq> [] \<and> apiKey \<noteq> [] then (if bearer \<noteq> apiKey then None else Some bearer)
               else None))"

definition authorize :: "route_env \<Rightarrow> httpserver \<Rightarrow> headers \<Rightarrow> httpserver \<times> key option" where
  "authorize env s h =
     (case present_key h of
        None \<Rightarrow> (s, None)
      | Some raw \<Rightarrow>
          (case Lookup (rn_hmac env) (sn_store (hs_snap s)) (rn_lookupNow env) raw of
             Inr k \<Rightarrow> (s, Some k)
           | Inl _ \<Rightarrow>
               (case bucket_allow (hs_authLog s) (rn_authLogNow env) of
                  (b, ok, _) \<Rightarrow> (s\<lparr>hs_authLog := b, hs_authDropped := (if ok then 0 else hs_authDropped s + 1)\<rparr>, None))))"

definition classifyAuthError :: "lookup_error \<Rightarrow> string" where
  "classifyAuthError e = (case e of ErrDisabled \<Rightarrow> ''auth_disabled'' | ErrExpired \<Rightarrow> ''auth_expired'' | _ \<Rightarrow> ''auth_unknown'')"

subsection \<open>Routes\<close>

definition isSafeSegment :: "string \<Rightarrow> bool" where
  "isSafeSegment seg = (if seg = [] \<or> 256 < length seg then False else list_all id_rune (runes seg))"

definition responsesPrefix :: string where "responsesPrefix = ''/v1/responses/''"

definition responsesID :: "string \<Rightarrow> (string \<times> bool) option" where
  "responsesID path =
     (let rest = trim_prefix path responsesPrefix; cancel = has_suffix rest ''/cancel''; rest' = trim_suffix rest ''/cancel''
      in if isSafeSegment rest' then Some (rest', cancel) else None)"

definition allowFor :: "string \<Rightarrow> string" where
  "allowFor path =
     (if path = ''/v1/models'' then ''GET''
      else if path = ''/v1/responses'' then ''POST''
      else if path \<in> {''/v1/chat/completions'', ''/v1/completions'', ''/v1/embeddings''} then ''POST''
      else if path \<in> {''/healthz'', ''/readyz''} then ''GET''
      else if has_prefix path responsesPrefix then
        (let rest = trim_prefix path responsesPrefix; cancel = has_suffix rest ''/cancel''; rest' = trim_suffix rest ''/cancel''
         in if \<not> isSafeSegment rest' then [] else if cancel then ''POST'' else ''GET'')
      else [])"

text \<open>The inference routes: the operation and, for the response routes, the response ID.\<close>

definition inference_route :: "string \<Rightarrow> string \<Rightarrow> (operation \<times> string) option" where
  "inference_route method path =
     (if method = ''POST'' \<and> path = ''/v1/chat/completions'' then Some (opChat, [])
      else if method = ''POST'' \<and> path = ''/v1/completions'' then Some (opLegacy, [])
      else if method = ''POST'' \<and> path = ''/v1/embeddings'' then Some (opEmbed, [])
      else if method = ''POST'' \<and> path = ''/v1/responses'' then Some (opResp, [])
      else if has_prefix path responsesPrefix then
        (case responsesID path of
           Some (i, cancel) \<Rightarrow>
             if method = ''GET'' \<and> \<not> cancel then Some (opRespGet, i)
             else if method = ''POST'' \<and> cancel then Some (opRespCancel, i)
             else None
         | None \<Rightarrow> None)
      else None)"

text \<open>\<^verbatim>\<open>handleModels\<close>: the public models of the router the key may use, in its order.\<close>

definition Router_List :: "router \<Rightarrow> string list" where
  "Router_List r = order r"

definition model_json :: "int \<Rightarrow> string \<Rightarrow> json" where
  "model_json started name =
     JObj [(quote_body True ''created'', JNum (int_literal started)), (quote_body True ''id'', encode_string name),
           (quote_body True ''object'', encode_string ''model''), (quote_body True ''owned_by'', encode_string ''mellomting'')]"

definition models_json :: "int \<Rightarrow> string list \<Rightarrow> json" where
  "models_json started names =
     JObj [(quote_body True ''data'', JArr (map (model_json started) names)), (quote_body True ''object'', encode_string ''list'')]"

definition handleModels :: "headers \<Rightarrow> httpserver \<Rightarrow> key \<Rightarrow> written" where
  "handleModels h s key =
     \<lparr>wr_status = 200, wr_header = hdr_set h ''Content-Type'' ''application/json'',
      wr_body = compact (models_json (hs_startedUnix s) (filter (Allows key) (Router_List (px_router (hs_proxy s)))))\<rparr>"

subsection \<open>The handler\<close>

definition proxy_req :: "http_in \<Rightarrow> key \<Rightarrow> string \<Rightarrow> string \<Rightarrow> preq" where
  "proxy_req r key rid respID =
     \<lparr>pq_Key = key, pq_RequestID = rid, pq_ResponseID = respID, pq_Header = hi_Header r, pq_ContentLength = hi_ContentLength r,
      pq_Body = hi_Body r, pq_BodyEnd = hi_BodyEnd r\<rparr>"

text \<open>The header \<^verbatim>\<open>X-Request-ID\<close> was set before the proxy wrote its own.\<close>

fun with_id :: "string \<Rightarrow> answer \<Rightarrow> answer" where
  "with_id rid (Sent w) = Sent (w\<lparr>wr_header := hdr_set (wr_header w) ''X-Request-ID'' rid\<rparr>)"
| "with_id rid a = a"

type_synonym sent_list = "(string \<times> backend_request) list"

definition serve :: "route_env \<Rightarrow> httpserver \<Rightarrow> http_in \<Rightarrow> key \<Rightarrow> string \<Rightarrow> httpserver \<times> answer \<times> sent_list" where
  "serve env s r key rid =
     (let h = hdr_set [] ''X-Request-ID'' rid in
      if hi_Method r = ''GET'' \<and> hi_Path r = ''/v1/models'' then (s, Sent (handleModels h s key), [])
      else case inference_route (hi_Method r) (hi_Path r) of
        Some (o1, respID) \<Rightarrow>
          (case dispatch (hs_proxy s) (proxy_req r key rid respID) o1 (rn_disp env) of
             (p, out, ans, sent) \<Rightarrow> (s\<lparr>hs_proxy := p\<rparr>, with_id rid ans, sent))
      | None \<Rightarrow>
          if allowFor (hi_Path r) \<noteq> []
          then (s, Sent (apierr_Write (hdr_set h ''Allow'' (allowFor (hi_Path r))) 405 ''invalid_request_error'' ''method_not_allowed'' MsgBadMethod), [])
          else (s, Sent (apierr_Write h 404 ''invalid_request_error'' ''not_found'' MsgNotFound), []))"

text \<open>The limits of the key, held for the time of the request.\<close>

definition key_gate :: "route_env \<Rightarrow> httpserver \<Rightarrow> http_in \<Rightarrow> key \<Rightarrow> string \<Rightarrow> httpserver \<times> answer \<times> sent_list" where
  "key_gate env s r key rid =
     (let h = hdr_set [] ''X-Request-ID'' rid;
          (h1, reg, ks) = reg_for (hs_heap s) (sn_limits (hs_snap s)) key;
          (h2, ok, ra) = AllowRate h1 ks (rn_keyNow env);
          s2 = s\<lparr>hs_heap := h2, hs_snap := (hs_snap s)\<lparr>sn_limits := reg\<rparr>\<rparr>
      in if \<not> ok then (s2, Sent (WriteRateLimit h ra), [])
         else case AcquireConcurrency h2 ks of
           (h3, False) \<Rightarrow> (s2\<lparr>hs_heap := h3\<rparr>, Sent (WriteRateLimit h Second), [])
         | (h3, True) \<Rightarrow>
             (case serve env (s2\<lparr>hs_heap := h3\<rparr>) r key rid of
                (s3, ans, sent) \<Rightarrow> (s3\<lparr>hs_heap := ReleaseConcurrency (hs_heap s3) (ks_concur ks)\<rparr>, ans, sent)))"

definition admitted :: "route_env \<Rightarrow> httpserver \<Rightarrow> http_in \<Rightarrow> string \<Rightarrow> string \<Rightarrow> httpserver \<times> answer \<times> sent_list" where
  "admitted env s r remote rid =
     (let h = hdr_set [] ''X-Request-ID'' rid in
      case source_allow (rn_order env) (hs_sourceLimit s) remote (rn_sourceNow env) of
        (sl, False, ra) \<Rightarrow> (s\<lparr>hs_sourceLimit := sl\<rparr>, Sent (WriteRateLimit h ra), [])
      | (sl, True, _) \<Rightarrow>
          (let s1 = s\<lparr>hs_sourceLimit := sl\<rparr> in
           case bucket_allow (hs_globalRPS s1) (rn_globalNow env) of
             (g, False, ra) \<Rightarrow> (s1\<lparr>hs_globalRPS := g\<rparr>, Sent (WriteRateLimit h ra), [])
           | (g, True, _) \<Rightarrow>
               (case authorize env (s1\<lparr>hs_globalRPS := g\<rparr>) (hi_Header r) of
                  (s2, None) \<Rightarrow> (s2, Sent (apierr_Write h 401 ''authentication_error'' ''invalid_api_key'' MsgBadAuth), [])
                | (s2, Some key) \<Rightarrow> key_gate env s2 r key rid)))"

definition routeBody :: "route_env \<Rightarrow> httpserver \<Rightarrow> http_in \<Rightarrow> string \<Rightarrow> httpserver \<times> answer \<times> sent_list" where
  "routeBody env s r remote =
     (let rid = newRequestID (rn_random env); h = hdr_set [] ''X-Request-ID'' rid in
      if hi_Method r = ''GET'' \<and> hi_Path r = ''/healthz'' then (s, Sent (writeHealth h 200 ''ok''), [])
      else if hi_Method r = ''GET'' \<and> hi_Path r = ''/readyz''
      then (s, Sent (if hs_ready s then writeHealth h 200 ''ready'' else writeHealth h 503 ''not ready''), [])
      else if hs_size s \<le> hs_inflight s
      then (s, Sent (apierr_Write h 503 ''overload_error'' ''server_overloaded'' MsgOverload), [])
      else case admitted env (s\<lparr>hs_inflight := hs_inflight s + 1\<rparr>) r remote rid of
        (s1, ans, sent) \<Rightarrow> (s1\<lparr>hs_inflight := hs_inflight s1 - 1\<rparr>, ans, sent))"

definition route :: "(string \<Rightarrow> ip_addr option) \<Rightarrow> (ip_addr \<Rightarrow> string) \<Rightarrow> route_env \<Rightarrow> httpserver \<Rightarrow> http_in \<Rightarrow> httpserver \<times> answer \<times> sent_list" where
  "route parseAddr show_addr env s r = routeBody env s r (clientIP parseAddr show_addr (hs_peers s) (hi_RemoteAddr r) (hi_Header r))"

text \<open>
  What arrives at the client. The panic of \<^verbatim>\<open>WriteHeader\<close> is recovered in \<^verbatim>\<open>route\<close>; \<^verbatim>\<open>committedWriter\<close> has noted the
  header as written by then, so no error is sent, and \<^verbatim>\<open>net/http\<close> completes the response with its default, an empty 200.
\<close>

fun client_view :: "answer \<Rightarrow> (int \<times> bytes) option" where
  "client_view NoAnswer = None"
| "client_view (Sent w) = Some (wr_status w, wr_body w)"
| "client_view (Streamed evs) = Some (200, concat evs)"
| "client_view Panicked = Some (200, [])"

section \<open>Lemmas\<close>

subsection \<open>The route table\<close>

lemma safe_segment_valid: "isSafeSegment = isValidResponseID"
  by (rule ext) (simp add: isSafeSegment_def isValidResponseID_def)

lemma suffix_restored: "has_suffix s p \<Longrightarrow> trim_suffix s p @ p = s"
  by (simp add: trim_suffix_def has_suffix_def) (metis append_take_drop_id)

lemma prefix_restored: "has_prefix s p \<Longrightarrow> p @ trim_prefix s p = s"
  by (simp add: trim_prefix_def has_prefix_def) (metis append_take_drop_id)

lemma responsesID_path:
  assumes "responsesID path = Some (i, cancel)" "has_prefix path responsesPrefix"
  shows "isValidResponseID i \<and> path = ''/v1/responses/'' @ i @ (if cancel then ''/cancel'' else [])"
proof -
  have p: "path = responsesPrefix @ trim_prefix path responsesPrefix" using prefix_restored [OF assms(2)] by simp
  show ?thesis
  proof (cases cancel)
    case True
    then have "has_suffix (trim_prefix path responsesPrefix) ''/cancel''" "i = trim_suffix (trim_prefix path responsesPrefix) ''/cancel''" "isSafeSegment i"
      using assms(1) by (auto simp: responsesID_def Let_def split: if_splits)
    then show ?thesis using p True suffix_restored [of "trim_prefix path responsesPrefix" "''/cancel''"]
      by (simp add: safe_segment_valid responsesPrefix_def)
  next
    case False
    then have "i = trim_prefix path responsesPrefix" "isSafeSegment i"
      using assms(1) by (auto simp: responsesID_def Let_def trim_suffix_def split: if_splits)
    then show ?thesis using p False by (simp add: safe_segment_valid responsesPrefix_def)
  qed
qed

lemma inference_route_ok:
  assumes "inference_route method path = Some (o1, i)"
  shows "o1 \<in> set operations \<and> op_method o1 = method \<and>
    (if op_route o1 = routeByModel then op_path o1 = path
     else isValidResponseID i \<and> path = ''/v1/responses/'' @ i @ (if method = ''POST'' then ''/cancel'' else []))"
proof -
  note ops = operations_def opChat_def opLegacy_def opEmbed_def opResp_def opRespGet_def opRespCancel_def
  consider (chat) "o1 = opChat" "method = ''POST''" "path = ''/v1/chat/completions''"
    | (legacy) "o1 = opLegacy" "method = ''POST''" "path = ''/v1/completions''"
    | (embed) "o1 = opEmbed" "method = ''POST''" "path = ''/v1/embeddings''"
    | (resp) "o1 = opResp" "method = ''POST''" "path = ''/v1/responses''"
    | (get) "o1 = opRespGet" "method = ''GET''" "has_prefix path responsesPrefix" "responsesID path = Some (i, False)"
    | (cancel) "o1 = opRespCancel" "method = ''POST''" "has_prefix path responsesPrefix" "responsesID path = Some (i, True)"
    using assms unfolding inference_route_def by (auto split: if_splits option.splits prod.splits)
  then show ?thesis
  proof cases
    case get
    then show ?thesis using responsesID_path [OF get(4,3)] by (simp add: ops)
  next
    case cancel
    then show ?thesis using responsesID_path [OF cancel(4,3)] by (simp add: ops)
  qed (simp_all add: ops)
qed

subsection \<open>The gates\<close>

text \<open>The parts of the state the gates before the proxy leave alone.\<close>

lemma authorize_frame:
  assumes "authorize env s h = (s1, k)"
  shows "hs_proxy s1 = hs_proxy s \<and> hs_heap s1 = hs_heap s \<and> hs_snap s1 = hs_snap s \<and> hs_inflight s1 = hs_inflight s \<and> hs_size s1 = hs_size s"
  using assms by (auto simp: authorize_def split: option.splits sum.splits prod.splits)

lemma authorize_Some:
  assumes "authorize env s h = (s1, Some k)"
  shows "\<exists>raw. present_key h = Some raw \<and> Lookup (rn_hmac env) (sn_store (hs_snap s)) (rn_lookupNow env) raw = Inr k"
  using assms by (auto simp: authorize_def split: option.splits sum.splits prod.splits)

lemma admitted_cases:
  assumes "admitted env s r remote rid = (s', ans, sent)"
  obtains (limited) sl g ra where "s' = s\<lparr>hs_sourceLimit := sl, hs_globalRPS := g\<rparr>" "ans = Sent (WriteRateLimit (hdr_set [] ''X-Request-ID'' rid) ra)" "sent = []"
    | (unauthorized) sl g where "authorize env (s\<lparr>hs_sourceLimit := sl, hs_globalRPS := g\<rparr>) (hi_Header r) = (s', None)"
        "ans = Sent (apierr_Write (hdr_set [] ''X-Request-ID'' rid) 401 ''authentication_error'' ''invalid_api_key'' MsgBadAuth)" "sent = []"
    | (authorized) sl g s1 key where "authorize env (s\<lparr>hs_sourceLimit := sl, hs_globalRPS := g\<rparr>) (hi_Header r) = (s1, Some key)"
        "key_gate env s1 r key rid = (s', ans, sent)"
proof -
  obtain sl ok ra where sa: "source_allow (rn_order env) (hs_sourceLimit s) remote (rn_sourceNow env) = (sl, ok, ra)" by (rule prod_cases3)
  obtain g ok2 ra2 where ga: "bucket_allow (hs_globalRPS s) (rn_globalNow env) = (g, ok2, ra2)" by (rule prod_cases3)
  have eta: "s\<lparr>hs_sourceLimit := sl\<rparr> = s\<lparr>hs_sourceLimit := sl, hs_globalRPS := hs_globalRPS s\<rparr>" by simp
  show ?thesis
  proof (cases "ok \<and> ok2")
    case False
    then show ?thesis using assms sa ga limited [where sl = sl and g = "if ok then g else hs_globalRPS s" and ra = "if ok then ra2 else ra"]
      by (cases ok) (auto simp: admitted_def Let_def)
  next
    case True
    obtain s1 k where au: "authorize env (s\<lparr>hs_sourceLimit := sl, hs_globalRPS := g\<rparr>) (hi_Header r) = (s1, k)" by fastforce
    then show ?thesis using assms sa ga True unauthorized [where sl = sl and g = g] authorized [where sl = sl and g = g and ?s1.0 = s1]
      by (cases k) (auto simp: admitted_def Let_def)
  qed
qed

lemma serve_frame:
  assumes "serve env s r key rid = (s', ans, sent)"
  shows "hs_heap s' = hs_heap s \<and> hs_snap s' = hs_snap s \<and> hs_inflight s' = hs_inflight s \<and> hs_size s' = hs_size s"
  using assms by (auto simp: serve_def Let_def split: if_splits option.splits prod.splits)

lemma serve_sent:
  assumes "serve env s r key rid = (s', ans, sent)" "(name, req) \<in> set sent"
  obtains o1 i p out a where "inference_route (hi_Method r) (hi_Path r) = Some (o1, i)"
    "dispatch (hs_proxy s) (proxy_req r key rid i) o1 (rn_disp env) = (p, out, a, sent)"
  using assms by (auto simp: serve_def Let_def split: if_splits option.splits prod.splits)

text \<open>A request passes the gate of its key through one concurrency slot, which it gives back.\<close>

lemma key_gate_cases:
  assumes "key_gate env s r key rid = (s', ans, sent)"
  obtains (limited) h1 reg ks h2 ok ra h3 where "reg_for (hs_heap s) (sn_limits (hs_snap s)) key = (h1, reg, ks)"
        "AllowRate h1 ks (rn_keyNow env) = (h2, ok, ra)" "h3 = h2 \<or> AcquireConcurrency h2 ks = (h3, False)"
        "s' = s\<lparr>hs_snap := (hs_snap s)\<lparr>sn_limits := reg\<rparr>, hs_heap := h3\<rparr>" "sent = []"
    | (served) h1 reg ks h2 ra h3 s3 where "reg_for (hs_heap s) (sn_limits (hs_snap s)) key = (h1, reg, ks)"
        "AllowRate h1 ks (rn_keyNow env) = (h2, True, ra)" "AcquireConcurrency h2 ks = (h3, True)"
        "serve env (s\<lparr>hs_snap := (hs_snap s)\<lparr>sn_limits := reg\<rparr>, hs_heap := h3\<rparr>) r key rid = (s3, ans, sent)"
        "s' = s3\<lparr>hs_heap := ReleaseConcurrency (hs_heap s3) (ks_concur ks)\<rparr>"
proof -
  obtain h1 reg ks where rf: "reg_for (hs_heap s) (sn_limits (hs_snap s)) key = (h1, reg, ks)" by (rule prod_cases3)
  obtain h2 ok ra where ar: "AllowRate h1 ks (rn_keyNow env) = (h2, ok, ra)" by (rule prod_cases3)
  obtain h3 ok2 where ac: "AcquireConcurrency h2 ks = (h3, ok2)" by fastforce
  show ?thesis
  proof (cases "ok \<and> ok2")
    case False
    then show ?thesis using assms rf ar ac limited [OF rf ar, of "if ok then h3 else h2"]
      by (cases ok) (auto simp: key_gate_def Let_def)
  next
    case True
    obtain s3 a st where sv: "serve env (s\<lparr>hs_snap := (hs_snap s)\<lparr>sn_limits := reg\<rparr>, hs_heap := h3\<rparr>) r key rid = (s3, a, st)" by (rule prod_cases3)
    then show ?thesis using assms rf ar ac True served [OF rf, of h2 ra h3 s3] by (auto simp: key_gate_def Let_def)
  qed
qed

subsection \<open>Concurrency slots\<close>

definition heap_ok :: "limit_heap \<Rightarrow> bool" where
  "heap_ok h \<longleftrightarrow> (\<forall>a. next_addr h \<le> a \<longrightarrow> concs h a = None)"

text \<open>No bound that was there has changed, and a bound that is new is unused.\<close>

definition same_slots :: "limit_heap \<Rightarrow> limit_heap \<Rightarrow> bool" where
  "same_slots h h' \<longleftrightarrow> heap_ok h' \<and> (\<forall>a c. concs h a = Some c \<longrightarrow> concs h' a = Some c) \<and>
     (\<forall>a c. concs h a = None \<and> concs h' a = Some c \<longrightarrow> c_held c = 0)"

lemma same_slots_refl: "heap_ok h \<Longrightarrow> same_slots h h"
  by (auto simp: same_slots_def)

lemma same_slots_concs: "same_slots h h1 \<Longrightarrow> concs h2 = concs h1 \<Longrightarrow> next_addr h2 = next_addr h1 \<Longrightarrow> same_slots h h2"
  by (simp add: same_slots_def heap_ok_def)

lemma reg_build_slots:
  assumes "reg_build h r k = (h1, ks)" "heap_ok h"
  shows "same_slots h h1"
proof -
  have alloc: "same_slots h (fst (alloc_conc h (NewConcurrency l)))" for l
    using assms(2) by (auto simp: same_slots_def heap_ok_def alloc_conc_def NewConcurrency_def)
  have bucket: "concs (fst (alloc_bucket h' b)) = concs h'" "heap_ok h' \<Longrightarrow> heap_ok (fst (alloc_bucket h' b))" for h' b
    by (auto simp: alloc_bucket_def heap_ok_def)
  then have keep: "same_slots h h' \<Longrightarrow> same_slots h (fst (alloc_bucket h' b))" for h' b by (simp add: same_slots_def)
  have "h1 = h \<or> (\<exists>l. h1 = fst (alloc_conc h (NewConcurrency l))) \<or> (\<exists>b. h1 = fst (alloc_bucket h b)) \<or>
      (\<exists>l b. h1 = fst (alloc_bucket (fst (alloc_conc h (NewConcurrency l))) b))"
    using assms(1) unfolding reg_build_def Let_def
    by (auto split: option.splits if_splits prod.splits) (metis fst_conv)+
  then show ?thesis using alloc keep same_slots_refl [OF assms(2)] by auto
qed

lemma reg_for_slots:
  assumes "reg_for h r k = (h1, reg, ks)" "heap_ok h"
  shows "same_slots h h1"
  using assms reg_build_slots [of h r k] same_slots_refl [OF assms(2)]
  by (auto simp: reg_for_def Let_def split: option.splits prod.splits)

lemma AllowRate_slots:
  assumes "AllowRate h ks now = (h1, ok, ra)"
  shows "concs h1 = concs h" "next_addr h1 = next_addr h"
  using assms by (auto simp: AllowRate_def Let_def split: option.splits prod.splits)

lemma Acquire_refused:
  assumes "AcquireConcurrency h ks = (h1, False)"
  shows "concs h1 = concs h" "next_addr h1 = next_addr h"
  using assms by (auto simp: AcquireConcurrency_def conc_acquire_def Let_def split: option.splits if_splits)

lemma Acquire_Release:
  assumes "AcquireConcurrency h ks = (h1, True)"
  shows "concs (ReleaseConcurrency h1 (ks_concur ks)) = concs h" "next_addr (ReleaseConcurrency h1 (ks_concur ks)) = next_addr h"
  using assms
  by (auto simp: AcquireConcurrency_def ReleaseConcurrency_def conc_acquire_def conc_release_def Let_def fun_upd_idem split: option.splits if_splits)

lemma key_gate_slots:
  assumes "key_gate env s r key rid = (s', ans, sent)" "heap_ok (hs_heap s)"
  shows "same_slots (hs_heap s) (hs_heap s') \<and> hs_inflight s' = hs_inflight s \<and> hs_size s' = hs_size s"
  using assms(1)
proof (cases rule: key_gate_cases)
  case (limited h1 reg ks h2 ok ra h3)
  have "concs h3 = concs h1 \<and> next_addr h3 = next_addr h1" using limited(3) AllowRate_slots [OF limited(2)] Acquire_refused by auto
  then show ?thesis using same_slots_concs [OF reg_for_slots [OF limited(1) assms(2)]] limited(4) by simp
next
  case (served h1 reg ks h2 ra h3 s3)
  note f = serve_frame [OF served(4)]
  have "concs (hs_heap s') = concs h1 \<and> next_addr (hs_heap s') = next_addr h1"
    using served(5) f AllowRate_slots [OF served(2)] Acquire_Release [OF served(3)] by simp
  then show ?thesis using same_slots_concs [OF reg_for_slots [OF served(1) assms(2)]] served(5) f by simp
qed

lemma admitted_slots:
  assumes "admitted env s r remote rid = (s', ans, sent)" "heap_ok (hs_heap s)"
  shows "same_slots (hs_heap s) (hs_heap s') \<and> hs_inflight s' = hs_inflight s \<and> hs_size s' = hs_size s"
  using assms(1)
proof (cases rule: admitted_cases)
  case (limited sl g ra)
  then show ?thesis using same_slots_refl [OF assms(2)] by simp
next
  case (unauthorized sl g)
  then show ?thesis using authorize_frame [OF unauthorized(1)] same_slots_refl [OF assms(2)] by simp
next
  case (authorized sl g s1 key)
  then show ?thesis using authorize_frame [OF authorized(1)] key_gate_slots [OF authorized(2)] assms(2) by simp
qed

lemma routeBody_cases:
  assumes "routeBody env s r remote = (s', ans, sent)"
  obtains (plain) w where "s' = s" "ans = Sent w" "sent = []" "wr_status w = 200 \<or> wr_status w = 503"
    | (gates) s1 where "hs_inflight s < hs_size s"
        "admitted env (s\<lparr>hs_inflight := hs_inflight s + 1\<rparr>) r remote (newRequestID (rn_random env)) = (s1, ans, sent)"
        "s' = s1\<lparr>hs_inflight := hs_inflight s1 - 1\<rparr>"
  using assms
  by (auto simp: routeBody_def writeHealth_def apierr_Write_def Let_def split: if_splits prod.splits)

section \<open>Properties\<close>

text \<open>
  C1: What a backend is asked comes from an authenticated client that may ask it. If the handler of the ingress
  lets any request through to a backend, then an inflight slot was free, the client presented one key that the
  current store accepts, method and path of the outbound request are those of the client, they are on the route
  table, and the key allows the model that the body names or that the response was made with.
\<close>

theorem route_authorized:
  assumes "routeBody env s r remote = (s', ans, sent)" "(name, req) \<in> set sent"
    and "\<forall>n u. UpstreamFor (px_router (hs_proxy s)) n = Some u \<longrightarrow> valid_utf8 u"
  shows "hs_inflight s < hs_size s \<and> bq_Method req = hi_Method r \<and> bq_Path req = hi_Path r \<and>
    (\<exists>raw key o1 i. present_key (hi_Header r) = Some raw \<and>
       Lookup (rn_hmac env) (sn_store (hs_snap s)) (rn_lookupNow env) raw = Inr key \<and>
       inference_route (hi_Method r) (hi_Path r) = Some (o1, i) \<and>
       (if op_route o1 = routeByModel
        then \<exists>fs model stream. shallowParse (hi_Body r) = Inr (fs, model, stream) \<and> Allows key model \<and> Has (px_router (hs_proxy s)) model
        else \<exists>b m. snd (Get (px_affinity (hs_proxy s)) (dn_now (rn_disp env)) (ID key) i) = Some (b, m) \<and> Allows key m))"
  using assms(1)
proof (cases rule: routeBody_cases)
  case (gates s1)
  from gates(2) obtain sl g s2 key where au: "authorize env (s\<lparr>hs_inflight := hs_inflight s + 1, hs_sourceLimit := sl, hs_globalRPS := g\<rparr>) (hi_Header r) = (s2, Some key)"
      "key_gate env s2 r key (newRequestID (rn_random env)) = (s1, ans, sent)"
    by (cases rule: admitted_cases) (use assms(2) in auto)
  note fr = authorize_frame [OF au(1)]
  from au(2) obtain s3 s4 where sv: "serve env s3 r key (newRequestID (rn_random env)) = (s4, ans, sent)" "hs_proxy s3 = hs_proxy s2"
    by (cases rule: key_gate_cases) (use assms(2) in auto)
  from serve_sent [OF sv(1) assms(2)] obtain o1 i p out a where d: "inference_route (hi_Method r) (hi_Path r) = Some (o1, i)"
      "dispatch (hs_proxy s3) (proxy_req r key (newRequestID (rn_random env)) i) o1 (rn_disp env) = (p, out, a, sent)" .
  note ir = inference_route_ok [OF d(1)]
  have p: "hs_proxy s3 = hs_proxy s" using sv(2) fr by simp
  have up: "\<forall>n u. UpstreamFor (px_router (hs_proxy s3)) n = Some u \<longrightarrow> valid_utf8 u" using assms(3) p by simp
  note dr = dispatch_reaches [OF d(2) assms(2) conjunct1 [OF ir] up]
  have "bq_Path req = hi_Path r" using dr(2) ir by (auto simp: proxy_req_def split: if_splits)
  moreover have acl: "if op_route o1 = routeByModel
        then \<exists>fs model stream. shallowParse (hi_Body r) = Inr (fs, model, stream) \<and> Allows key model \<and> Has (px_router (hs_proxy s)) model
        else \<exists>b m. snd (Get (px_affinity (hs_proxy s)) (dn_now (rn_disp env)) (ID key) i) = Some (b, m) \<and> Allows key m"
    using dr(2) p by (auto simp: proxy_req_def split: if_splits)
  moreover obtain raw where raw: "present_key (hi_Header r) = Some raw" "Lookup (rn_hmac env) (sn_store (hs_snap s)) (rn_lookupNow env) raw = Inr key"
    using authorize_Some [OF au(1)] by auto
  moreover have "bq_Method req = hi_Method r" using dr(1) ir by simp
  ultimately show ?thesis using gates(1)
    by (intro conjI exI [of _ raw] exI [of _ key] exI [of _ o1] exI [of _ i]) (simp_all only: d(1))
qed (use assms(2) in auto)

text \<open>
  C17: Slots are given back. Whatever becomes of a request, when its handler returns the number of requests in
  flight is what it was, every concurrency bound holds the tokens it held, and a bound that was made for a key
  seen for the first time is unused.
\<close>

theorem route_releases:
  assumes "route parseAddr show_addr env s r = (s', ans, sent)" "heap_ok (hs_heap s)"
  shows "hs_inflight s' = hs_inflight s \<and> hs_size s' = hs_size s \<and> same_slots (hs_heap s) (hs_heap s')"
  using assms(1) [unfolded route_def]
proof (cases rule: routeBody_cases)
  case (plain w)
  then show ?thesis using same_slots_refl [OF assms(2)] by simp
next
  case (gates s1)
  then show ?thesis using admitted_slots [OF gates(2)] assms(2) by simp
qed


text \<open>
  The listing of models is exact. The body of \<^verbatim>\<open>/v1/models\<close> is a JSON document that lists, in the order of the
  router, the public models the key may use and no others.
\<close>

theorem models_exact:
  assumes "0 < hs_startedUnix s"
  shows "json_parse (wr_body (handleModels h s key)) =
     Some (models_json (hs_startedUnix s) (filter (Allows key) (order (px_router (hs_proxy s)))))"
proof -
  have "wf_json 0 (models_json (hs_startedUnix s) names)" for names
    by (auto simp: models_json_def model_json_def encode_string_def ok_str_quote ok_num_literal [OF assms] maxNestingDepth_def simp del: quote_body.simps)
  then show ?thesis by (simp add: handleModels_def Router_List_def json_parse_compact)
qed

subsection \<open>Witnesses\<close>

text \<open>A server with one key, whose owner asks for a response it created.\<close>

definition ex_full :: bucket where
  "ex_full = \<lparr>b_rate = Fin 3, b_cap = Fin 5, b_avail = Fin 5, b_last = 1000\<rparr>"

definition ex_http :: httpserver where
  "ex_http = \<lparr>hs_snap = \<lparr>sn_store = ex_store, sn_limits = NewRegistry\<rparr>, hs_heap = empty_heap, hs_proxy = ex_proxy (ID ex_key), hs_size = 4,
     hs_inflight = 0, hs_globalRPS = ex_full,
     hs_sourceLimit = \<lparr>sr_cap = 8, sr_rate = Fin 3, sr_burst = 5, sr_srcs = [''peer'' \<mapsto> \<lparr>s_rate = ex_full, s_last = 1000\<rparr>]\<rparr>,
     hs_authLog = ex_full, hs_authDropped = 0, hs_peers = ex_peers, hs_ready = True, hs_startedUnix = 7\<rparr>"

definition ex_route_env :: route_env where
  "ex_route_env = \<lparr>rn_random = None, rn_sourceNow = 1000, rn_globalNow = 1000, rn_lookupNow = 50, rn_authLogNow = 1000, rn_keyNow = 1000,
     rn_order = [], rn_hmac = ex_hmac, rn_disp = ex_disp_env 200\<rparr>"

definition ex_in :: "string \<Rightarrow> http_in" where
  "ex_in raw = \<lparr>hi_Method = ''GET'', hi_Path = ''/v1/responses/resp_1'', hi_RemoteAddr = ''peer:1'', hi_Header = [(''X-Api-Key'', [raw])],
     hi_ContentLength = 0, hi_Body = [], hi_BodyEnd = None\<rparr>"

lemma ex_present: "raw \<noteq> [] \<Longrightarrow> present_key [(''X-Api-Key'', [raw])] = Some raw"
proof -
  have "canon_key ''X-Api-Key'' = ''X-Api-Key''" "canon_key ''Authorization'' = ''Authorization''" by code_simp+
  then show "raw \<noteq> [] \<Longrightarrow> present_key [(''X-Api-Key'', [raw])] = Some raw"
    by (simp add: present_key_def hdr_values_def bearer_token_def)
qed

lemma ex_lookup: "Lookup ex_hmac ex_store 50 ex_raw = Inr (normalizeKey ex_key)"
  by (rule generated_key_lookup [OF ex_Generate _ _ _ ex_store_New])
    (simp_all add: ex_id_def ex_secret_def ex_hmac_def ex_users_def ex_key_def unexpired_def)

lemma ex_gates: "bucket_allow ex_full 1000 = (ex_full\<lparr>b_avail := f64_sub (Fin 5) (Fin 1)\<rparr>, True, 0)"
  by (simp add: bucket_allow_def refill_def ex_full_def f64_le_def)

lemma ex_inference: "inference_route ''GET'' ''/v1/responses/resp_1'' = Some (opRespGet, ''resp_1'')"
proof -
  have "isValidResponseID ''resp_1''" by code_simp
  then show ?thesis
    by (simp add: inference_route_def responsesID_def responsesPrefix_def has_prefix_def has_suffix_def trim_prefix_def trim_suffix_def safe_segment_valid)
qed

lemma ex_serve:
  assumes "hs_proxy s = ex_proxy (ID ex_key)"
  shows "\<exists>s' w. serve ex_route_env s (ex_in ex_raw) (normalizeKey ex_key) rid = (s', Sent w, [(''b1'', ex_breq1 [(''X-Api-Key'', [ex_raw])])])"
proof -
  have k: "Allows (normalizeKey ex_key) ''m''" "ID (normalizeKey ex_key) = ID ex_key"
    by (simp_all add: Allows_def ModelWildcard_def ex_key_def normalizeKey_def)
  have "proxy_req (ex_in ex_raw) (normalizeKey ex_key) rid ''resp_1'' = ex_preq (normalizeKey ex_key) rid [(''X-Api-Key'', [ex_raw])]"
    by (simp add: proxy_req_def ex_in_def ex_preq_def)
  then show ?thesis
    using ex_dispatch [of 200 "normalizeKey ex_key" rid "[(''X-Api-Key'', [ex_raw])]"] assms ex_inference k
    by (auto simp: serve_def ex_in_def ex_route_env_def Let_def split: prod.split)
qed

lemma ex_route:
  "\<exists>s' w. routeBody ex_route_env ex_http (ex_in ex_raw) ''peer'' = (s', Sent w, [(''b1'', ex_breq1 [(''X-Api-Key'', [ex_raw])])])"
proof -
  have "ex_raw \<noteq> []" by (simp add: ex_raw_def)
  then have au: "authorize ex_route_env s (hi_Header (ex_in ex_raw)) = (s, Some (normalizeKey ex_key))" if "hs_snap s = hs_snap ex_http" for s
    using that ex_present ex_lookup by (simp add: authorize_def ex_route_env_def ex_in_def ex_http_def)
  have kg: "\<exists>s' w. key_gate ex_route_env s (ex_in ex_raw) (normalizeKey ex_key) rid = (s', Sent w, [(''b1'', ex_breq1 [(''X-Api-Key'', [ex_raw])])])"
    if "hs_snap s = hs_snap ex_http" "hs_heap s = empty_heap" "hs_proxy s = ex_proxy (ID ex_key)" for s rid
  proof -
    note s = that
    obtain h1 reg where rf: "reg_for (hs_heap s) (sn_limits (hs_snap s)) (normalizeKey ex_key) = (h1, reg, \<lparr>ks_bucket = None, ks_concur = 0\<rparr>)"
        "concs h1 0 = Some (NewConcurrency 8)"
      using s by (simp add: reg_for_def reg_build_def NewRegistry_def ex_http_def alloc_conc_def empty_heap_def normalizeKey_def ex_key_def
          DefaultConcurrentRequests_def Let_def)
    obtain h3 where ac: "AcquireConcurrency h1 \<lparr>ks_bucket = None, ks_concur = 0\<rparr> = (h3, True)"
      using rf(2) by (simp add: AcquireConcurrency_def conc_acquire_def NewConcurrency_def)
    show ?thesis
      using ex_serve [of "s\<lparr>hs_snap := (hs_snap s)\<lparr>sn_limits := reg\<rparr>, hs_heap := h3\<rparr>" rid] s(3) rf ac
      by (auto simp: key_gate_def AllowRate_def Let_def split: prod.split)
  qed
  have gate: "source_allow (rn_order ex_route_env) (hs_sourceLimit ex_http) ''peer'' (rn_sourceNow ex_route_env) =
      ((hs_sourceLimit ex_http)\<lparr>sr_srcs := (sr_srcs (hs_sourceLimit ex_http))(''peer'' \<mapsto> \<lparr>s_rate = ex_full\<lparr>b_avail := f64_sub (Fin 5) (Fin 1)\<rparr>, s_last = 1000\<rparr>)\<rparr>, True, 0)"
    by (simp add: source_allow_def ex_http_def ex_route_env_def ex_gates)
  let ?s = "ex_http\<lparr>hs_inflight := 1, hs_sourceLimit := (hs_sourceLimit ex_http)\<lparr>sr_srcs := (sr_srcs (hs_sourceLimit ex_http))(''peer'' \<mapsto> \<lparr>s_rate = ex_full\<lparr>b_avail := f64_sub (Fin 5) (Fin 1)\<rparr>, s_last = 1000\<rparr>)\<rparr>,
      hs_globalRPS := ex_full\<lparr>b_avail := f64_sub (Fin 5) (Fin 1)\<rparr>\<rparr>"
  obtain s' w where k: "key_gate ex_route_env ?s (ex_in ex_raw) (normalizeKey ex_key) (newRequestID None) = (s', Sent w, [(''b1'', ex_breq1 [(''X-Api-Key'', [ex_raw])])])"
    using kg [of ?s "newRequestID None"] by (auto simp: ex_http_def)
  have a: "authorize ex_route_env ?s (hi_Header (ex_in ex_raw)) = (?s, Some (normalizeKey ex_key))" by (rule au) simp
  have ga: "bucket_allow (hs_globalRPS ex_http) (rn_globalNow ex_route_env) = (ex_full\<lparr>b_avail := f64_sub (Fin 5) (Fin 1)\<rparr>, True, 0)"
    by (simp add: ex_http_def ex_route_env_def ex_gates)
  have "admitted ex_route_env (ex_http\<lparr>hs_inflight := 1\<rparr>) (ex_in ex_raw) ''peer'' (newRequestID None) = (s', Sent w, [(''b1'', ex_breq1 [(''X-Api-Key'', [ex_raw])])])"
    using gate ga a k by (simp add: admitted_def)
  moreover have "rn_random ex_route_env = None" "hs_inflight ex_http = 0" "hs_size ex_http = 4" "hi_Path (ex_in ex_raw) = ''/v1/responses/resp_1''"
    by (simp_all add: ex_route_env_def ex_http_def ex_in_def)
  ultimately show ?thesis by (simp add: routeBody_def Let_def)
qed

theorem route_authorized_witness:
  "\<exists>s' ans. routeBody ex_route_env ex_http (ex_in ex_raw) ''peer'' = (s', ans, [(''b1'', ex_breq1 [(''X-Api-Key'', [ex_raw])])]) \<and>
   (\<exists>raw key. present_key (hi_Header (ex_in ex_raw)) = Some raw \<and> Lookup ex_hmac ex_store 50 raw = Inr key)"
proof -
  from ex_route obtain s' w where d: "routeBody ex_route_env ex_http (ex_in ex_raw) ''peer'' = (s', Sent w, [(''b1'', ex_breq1 [(''X-Api-Key'', [ex_raw])])])" by blast
  have up: "UpstreamFor (px_router (hs_proxy ex_http)) n = (if n = ''a'' then Some ''ua'' else if n = ''b'' then Some ''ub'' else None)" for n
    by (simp add: UpstreamFor_def ex_http_def ex_proxy_def ex_router_def ex_models_def ex_backends_def ex_backend_def entry_of_def replica_of_def)
  have "valid_utf8 ''ua''" "valid_utf8 ''ub''" by (simp_all add: decode1 byte_of_def RuneError_def)
  then have v: "\<forall>n u. UpstreamFor (px_router (hs_proxy ex_http)) n = Some u \<longrightarrow> valid_utf8 u" by (simp add: up)
  have e: "rn_hmac ex_route_env = ex_hmac" "sn_store (hs_snap ex_http) = ex_store" "rn_lookupNow ex_route_env = 50" by (simp_all add: ex_route_env_def ex_http_def)
  from route_authorized [OF d, of "''b1''" "ex_breq1 [(''X-Api-Key'', [ex_raw])]", OF _ v] d show ?thesis unfolding e by auto
qed

theorem route_releases_witness:
  "hs_inflight (fst (route ex_parse ex_show ex_route_env ex_http (ex_in ex_raw))) = 0"
proof -
  obtain s' ans sent where r: "route ex_parse ex_show ex_route_env ex_http (ex_in ex_raw) = (s', ans, sent)" by (rule prod_cases3)
  have "heap_ok (hs_heap ex_http)" "hs_inflight ex_http = 0" by (simp_all add: heap_ok_def ex_http_def empty_heap_def)
  from route_releases [OF r this(1)] this(2) r show ?thesis by simp
qed


theorem models_exact_witness:
  "json_parse (wr_body (handleModels [] ex_http ex_key)) = Some (models_json 7 [''m''])"
  using models_exact [of ex_http "[]" ex_key]
  by (simp add: ex_http_def ex_proxy_def ex_router_def Allows_def ModelWildcard_def ex_key_def)

text \<open>
  A status that HTTP does not have becomes a success. A backend that answers a buffered request with a status
  below 100 (the client of \<^verbatim>\<open>net/http\<close> accepts any three digits) makes \<^verbatim>\<open>WriteHeader\<close> panic after \<^verbatim>\<open>committedWriter\<close>
  has noted the header as written: the recovery sends no error, and the client receives an empty 200, while the
  record of the request carries the status of the backend.
\<close>

theorem bad_status_reads_200:
  "\<exists>p out. dispatch (ex_proxy ''key-a'') (ex_preq ex_akey ''req'' []) opRespGet (ex_disp_env 42) = (p, out, Panicked, [(''b1'', ex_breq1 [])]) \<and>
     do_status out = 42 \<and> client_view (with_id ''req'' Panicked) = Some (200, [])"
  using ex_dispatch [of 42 ex_akey "''req''" "[]"] ex_akey by auto

text \<open>A bucket computed by hand: the second request comes a fraction of a nanosecond too early.\<close>

lemma f64_value: "\<bar>x\<bar> \<le> 2 ^ 53 \<Longrightarrow> f64 x = Fin (round_rat x)"
proof -
  assume x: "\<bar>x\<bar> \<le> 2 ^ 53"
  have i: "round_rat (2 ^ 53) = 2 ^ 53" "round_rat (- (2 ^ 53)) = - (2 ^ 53)"
    using round_rat_int [of "2 ^ 53"] round_rat_int [of "- (2 ^ 53)"] by simp_all
  have "- (2 ^ 53) \<le> round_rat x" "round_rat x \<le> 2 ^ 53"
    using round_rat_mono [of "- (2 ^ 53)" x] round_rat_mono [of x "2 ^ 53"] x i by (auto simp: abs_le_iff)
  then have "\<not> 2 ^ 1024 \<le> round_rat x" "\<not> round_rat x \<le> - (2 ^ 1024)" using order.trans by force+
  then show ?thesis by (simp add: f64_def Let_def)
qed

lemma ex_rounded:
  "round_rat (333333333 / 1000000000) = 3002399748577931 / 9007199254740992"
  "round_rat (3002399748577931 / 9007199254740992) = 3002399748577931 / 9007199254740992"
  "round_rat (9007199245733793 / 9007199254740992) = 9007199245733793 / 9007199254740992"
  "round_rat (9007199 / 9007199254740992) = 9007199 / 9007199254740992"
  "round_rat (17592185546875 / 17592186044416) = 17592185546875 / 17592186044416"
  "round_rat (17592185546875 / 52776558133248) = 6004799333333333 / 18014398509481984"
  by code_simp+

lemma ex_starved:
  "case NewBucket (Fin 3) 1 of None \<Rightarrow> False
   | Some b \<Rightarrow> (let r1 = bucket_allow b (10 * Second); r2 = bucket_allow (fst r1) (10 * Second + 333333333) in
       fst (snd r1) \<and> \<not> fst (snd r2) \<and> snd (snd r2) = 0)"
proof -
  have i: "f64_of_int n = Fin (of_int n)" if "\<bar>n\<bar> \<le> 2 ^ 53" for n using f64_of_int_exact [OF that] .
  have s10: "dur_seconds (10 * Second) = Fin 10"
    using round_rat_int [of 10] by (simp add: dur_seconds_def go_div_def go_mod_def i f64_value)
  have s3: "dur_seconds 333333333 = Fin (3002399748577931 / 9007199254740992)"
    by (simp add: dur_seconds_def go_div_def go_mod_def i f64_value ex_rounded)
  have b: "NewBucket (Fin 3) 1 = Some \<lparr>b_rate = Fin 3, b_cap = Fin 1, b_avail = Fin 0, b_last = 0\<rparr>"
    using i [of 1] by (simp add: NewBucket_def)
  have n: "f64 (of_int k) = Fin (of_int k)" if "\<bar>k\<bar> \<le> 2 ^ 53" for k using i [OF that] by (simp add: f64_of_int_def)
  have r1: "bucket_allow \<lparr>b_rate = Fin 3, b_cap = Fin 1, b_avail = Fin 0, b_last = 0\<rparr> (10 * Second) =
      (\<lparr>b_rate = Fin 3, b_cap = Fin 1, b_avail = Fin 0, b_last = 10 * Second\<rparr>, True, 0)"
    using n [of 30] n [of 0] s10 by (simp add: bucket_allow_def refill_def time_sub_def f64_sub_def)
  have fl: "\<lfloor>6004799333333333 / 18014398509481984 :: rat\<rfloor> = 0" by (simp add: floor_eq_iff)
  have r2: "bucket_allow \<lparr>b_rate = Fin 3, b_cap = Fin 1, b_avail = Fin 0, b_last = 10 * Second\<rparr> (10 * Second + 333333333) =
      (\<lparr>b_rate = Fin 3, b_cap = Fin 1, b_avail = Fin (9007199245733793 / 9007199254740992), b_last = 10 * Second + 333333333\<rparr>, False, 0)"
    using i [of 1000000000] fl
    by (simp add: bucket_allow_def refill_def time_sub_def s3 f64_sub_def f64_value ex_rounded trunc_rat_def int64_ok_def)
  show ?thesis unfolding b option.case Let_def r1 fst_conv r2 snd_conv by simp
qed

text \<open>
  A 429 can go out without a \<^verbatim>\<open>Retry-After\<close>. A bucket of three requests a second refuses a request 333333333 ns after
  the last one with a wait of less than a nanosecond, which is rounded down to none, so no header is written.
\<close>

theorem rate_limit_without_retry_after:
  "case NewBucket (Fin 3) 1 of None \<Rightarrow> False
   | Some b \<Rightarrow> (let r1 = bucket_allow b (10 * Second); r2 = bucket_allow (fst r1) (10 * Second + 333333333) in
       fst (snd r1) \<and> \<not> fst (snd r2) \<and> snd (snd r2) = 0 \<and> hdr_get (wr_header (WriteRateLimit [] (snd (snd r2)))) ''Retry-After'' = [])"
proof -
  have "canon_key ''Retry-After'' = ''Retry-After''" "canon_key ''Content-Type'' = ''Content-Type''" by code_simp+
  then have "hdr_get (wr_header (WriteRateLimit [] 0)) ''Retry-After'' = []"
    by (simp add: WriteRateLimit_def apierr_Write_def hdr_get_def hdr_values_def hdr_set_def)
  with ex_starved show ?thesis by (auto simp: Let_def split: option.splits)
qed

end
