(* ===== verification/Source.thy ===== *)
theory Source
  imports Settings Peers Auth
begin

text \<open>
  From the operator's document to the runtime configuration: the source schema and its normalization
  (\<^verbatim>\<open>src/internal/config/source.go\<close>) and the defaults (\<^verbatim>\<open>applyDefaults\<close> of \<^verbatim>\<open>src/internal/config/validate.go\<close>).

  The YAML decoder is not part of the program; what it yields, a \<^verbatim>\<open>sourceDoc\<close>, is the input here. Maps are association
  lists with distinct keys. A message is a list of pieces, one for each stretch of fixed text and each formatted
  value, so that the text a \<^verbatim>\<open>fmt\<close> verb produces is left open.
\<close>

section \<open>Definitions\<close>

text \<open>Fixed text, \<^verbatim>\<open>%q\<close> of a string, \<^verbatim>\<open>%d\<close>, \<^verbatim>\<open>%s\<close> of a duration, \<^verbatim>\<open>%q\<close> of the printed form of a prefix.\<close>

datatype piece = Txt string | Quo string | Num int | Dur duration | Pfx ip_prefix

type_synonym violation = "piece list"

definition complain :: "bool \<Rightarrow> violation \<Rightarrow> violation list" where
  "complain b v = (if b then [v] else [])"

subsection \<open>The source schema\<close>

record source_server =
  ss_URL :: string
  ss_APIKeyFile :: string
  ss_RelayUpstreamErrors :: bool
  ss_MaxConcurrency :: "int option"
  ss_QueueSize :: "int option"
  ss_QueueTimeout :: "duration option"

record source_model =
  sm_Type :: string
  sm_Strategy :: string
  sm_MaxOutputTokens :: int
  sm_Servers :: "string list"
  sm_UpstreamModel :: string

record source_doc =
  sd_Version :: int
  sd_Server :: server_cfg
  sd_Auth :: auth_cfg
  sd_Security :: security_cfg
  sd_Logging :: logging_cfg
  sd_Accounting :: accounting_cfg
  sd_Limits :: limits_cfg
  sd_GracePeriod :: duration
  sd_Responses :: responses_cfg
  sd_Retry :: retry_cfg
  sd_Servers :: "(string \<times> source_server) list"
  sd_Models :: "(string \<times> source_model) list"

definition defaultMaxConcurrency :: int where "defaultMaxConcurrency = 8"
definition defaultBackendQueueSize :: int where "defaultBackendQueueSize = 32"
definition defaultQueueTimeout :: duration where "defaultQueueTimeout = 120 * Second"
definition defaultRequestTimeout :: duration where "defaultRequestTimeout = 30 * Minute"
definition maxServerConcurrency :: int where "maxServerConcurrency = 1024"
definition maxServerQueueSize :: int where "maxServerQueueSize = 4096"

record adm_limits =
  al_conc :: int
  al_queue :: int
  al_wait :: duration

definition server_admission :: "source_server \<Rightarrow> string \<Rightarrow> adm_limits \<times> violation list" where
  "server_admission s name =
     (let conc = (case ss_MaxConcurrency s of None \<Rightarrow> defaultMaxConcurrency | Some c \<Rightarrow> c);
          queue = (case ss_QueueSize s of None \<Rightarrow> defaultBackendQueueSize | Some q \<Rightarrow> q);
          wait = (case ss_QueueTimeout s of None \<Rightarrow> defaultQueueTimeout | Some w \<Rightarrow> w)
      in (\<lparr>al_conc = conc, al_queue = queue, al_wait = wait\<rparr>,
          complain (conc < 1 \<or> maxServerConcurrency < conc)
            [Txt ''servers.'', Txt name, Txt ''.max_concurrency: must be between 1 and '', Num maxServerConcurrency, Txt '', got '', Num conc] @
          complain (queue < 0 \<or> maxServerQueueSize < queue)
            [Txt ''servers.'', Txt name, Txt ''.queue_size: must be between 0 and '', Num maxServerQueueSize, Txt '', got '', Num queue] @
          complain (wait \<le> 0 \<or> defaultRequestTimeout < wait)
            [Txt ''servers.'', Txt name, Txt ''.queue_timeout: must be > 0 and at most request_timeout ('', Dur defaultRequestTimeout, Txt ''), got '', Dur wait]))"

subsection \<open>Normalization\<close>

text \<open>
  \<^verbatim>\<open>backendName\<close> is the injected generator of names. The one \<^verbatim>\<open>normalizeSource\<close> injects takes the first 12 hexadecimal
  digits of a SHA-256, whose digest is a parameter.
\<close>

definition defaultBackendName :: "(bytes \<Rightarrow> bytes) \<Rightarrow> string \<Rightarrow> string \<Rightarrow> string" where
  "defaultBackendName sha256 publicModel server =
     ''auto-'' @ server @ ''-'' @ take 12 (hex_encode (sha256 (publicModel @ CHR 0x00 # server)))"

record norm_state =
  ns_errs :: "violation list"
  ns_backends :: "(string \<times> backend_cfg) list"
  ns_referenced :: "string list"

definition say :: "violation \<Rightarrow> norm_state \<Rightarrow> norm_state" where
  "say v st = st\<lparr>ns_errs := ns_errs st @ [v]\<rparr>"

text \<open>The backend made of a server for one model; the four timeouts are left to the defaults.\<close>

definition source_backend :: "source_server \<Rightarrow> string \<Rightarrow> string \<Rightarrow> adm_limits \<Rightarrow> backend_cfg" where
  "source_backend s server upstream l =
     \<lparr>be_Server = server, be_BaseURL = ss_URL s, be_UpstreamModel = upstream, be_APIKeyFile = ss_APIKeyFile s,
      be_ConnectTimeout = 0, be_HeaderTimeout = 0, be_RequestTimeout = 0, be_StreamIdleTimeout = 0,
      be_MaxConcurrency = al_conc l, be_QueueSize = al_queue l, be_QueueTimeout = al_wait l,
      be_RelayUpstreamErrors = ss_RelayUpstreamErrors s\<rparr>"

fun norm_refs ::
  "(string \<Rightarrow> string \<Rightarrow> string) \<Rightarrow> (string \<times> source_server) list \<Rightarrow> string \<Rightarrow> string \<Rightarrow> string list \<Rightarrow> string list \<Rightarrow> backend_ref list \<Rightarrow> norm_state \<Rightarrow>
   backend_ref list \<times> norm_state" where
  "norm_refs backendName servers publicName upstream seen [] refs st = (refs, st)"
| "norm_refs backendName servers publicName upstream seen (server # rest) refs st =
     (if server \<in> set seen then
        norm_refs backendName servers publicName upstream seen rest refs
          (say [Txt ''models.'', Txt publicName, Txt ''.servers: duplicate server '', Quo server] st)
      else case map_of servers server of
        None \<Rightarrow>
          norm_refs backendName servers publicName upstream (server # seen) rest refs
            (say [Txt ''models.'', Txt publicName, Txt ''.servers: unknown server '', Quo server] st)
      | Some s \<Rightarrow>
          (let name = backendName publicName server in
           if map_of (ns_backends st) name \<noteq> None then
             norm_refs backendName servers publicName upstream (server # seen) rest refs
               (say [Txt ''generated backend name collision: '', Txt name] st)
           else
             norm_refs backendName servers publicName upstream (server # seen) rest (refs @ [\<lparr>br_Name = name, br_Weight = 1\<rparr>])
               (st\<lparr>ns_backends := ns_backends st @ [(name, source_backend s server upstream (fst (server_admission s server)))],
                   ns_referenced := server # ns_referenced st\<rparr>)))"

definition model_upstream :: "string \<Rightarrow> source_model \<Rightarrow> string" where
  "model_upstream publicName sm = (if sm_UpstreamModel sm = [] then publicName else sm_UpstreamModel sm)"

fun norm_models ::
  "(string \<Rightarrow> string \<Rightarrow> string) \<Rightarrow> (string \<times> source_server) list \<Rightarrow> (string \<times> source_model) list \<Rightarrow> norm_state \<Rightarrow>
   (string \<times> model_cfg) list \<times> norm_state" where
  "norm_models backendName servers [] st = ([], st)"
| "norm_models backendName servers ((publicName, sm) # ms) st =
     (if sm_Servers sm = [] then
        norm_models backendName servers ms (say [Txt ''models.'', Txt publicName, Txt ''.servers: at least one server is required''] st)
      else
        (let (refs, st1) = norm_refs backendName servers publicName (model_upstream publicName sm) [] (sm_Servers sm) [] st;
             (rest, st2) = norm_models backendName servers ms st1
         in ((publicName, \<lparr>mo_Type = sm_Type sm, mo_Strategy = sm_Strategy sm, mo_MaxOutputTokens = sm_MaxOutputTokens sm, mo_Backends = refs\<rparr>) # rest, st2)))"

text \<open>The models are visited in the byte order of their names.\<close>

definition sortedModelKeys :: "(string \<times> 'a) list \<Rightarrow> string list" where
  "sortedModelKeys m = sort (map fst m)"

definition sorted_entries :: "(string \<times> 'a) list \<Rightarrow> (string \<times> 'a) list" where
  "sorted_entries m = map (\<lambda>k. (k, the (map_of m k))) (sortedModelKeys m)"

definition normalizeSourceWith :: "source_doc \<Rightarrow> (string \<Rightarrow> string \<Rightarrow> string) \<Rightarrow> violation list + config" where
  "normalizeSourceWith doc backendName =
     (let servers = sd_Servers doc;
          adm = concat (map (\<lambda>(name, s). snd (server_admission s name)) (sorted_entries servers));
          none = complain (servers = []) [Txt ''servers: at least one server is required''] @
                 complain (sd_Models doc = []) [Txt ''models: at least one model is required''];
          (ms, st) = norm_models backendName servers (sorted_entries (sd_Models doc))
                       \<lparr>ns_errs = adm @ none, ns_backends = [], ns_referenced = []\<rparr>;
          errs = ns_errs st @ concat (map (\<lambda>(name, s). complain (name \<notin> set (ns_referenced st))
                   [Txt ''servers.'', Txt name, Txt '': not referenced by any model'']) servers)
      in if errs \<noteq> [] then Inl errs
         else Inr \<lparr>cf_Version = sd_Version doc, cf_Server = sd_Server doc, cf_Auth = sd_Auth doc, cf_Security = sd_Security doc,
           cf_Logging = sd_Logging doc, cf_Accounting = sd_Accounting doc, cf_Limits = sd_Limits doc, cf_GracePeriod = sd_GracePeriod doc,
           cf_Responses = sd_Responses doc, cf_Retry = sd_Retry doc, cf_Backends = ns_backends st, cf_Models = ms\<rparr>)"

definition normalizeSource :: "(bytes \<Rightarrow> bytes) \<Rightarrow> source_doc \<Rightarrow> violation list + config" where
  "normalizeSource sha256 doc = normalizeSourceWith doc (defaultBackendName sha256)"

subsection \<open>Defaults\<close>

definition DefaultUsersFile :: string where "DefaultUsersFile = ''/etc/mellomting/users.yaml''"
definition DefaultPepperFile :: string where "DefaultPepperFile = ''/etc/mellomting/auth.pepper''"
definition DefaultAccountingPath :: string where "DefaultAccountingPath = ''/var/log/mellomting/usage.jsonl''"
definition DefaultUnixSocketMode :: string where "DefaultUnixSocketMode = ''0660''"
definition ModeRequired :: string where "ModeRequired = ''required''"
definition ModeBestEffort :: string where "ModeBestEffort = ''best-effort''"
definition ModeDisabled :: string where "ModeDisabled = ''disabled''"
definition MaxABI :: int where "MaxABI = 9"
definition DefaultMinimumABI :: int where "DefaultMinimumABI = 6"
definition Millisecond :: duration where "Millisecond = 1000000"

text \<open>\<^verbatim>\<open>cmp.Or\<close> at the types the code uses it: the second value where the first is zero. A NaN is not zero.\<close>

definition or_int :: "int \<Rightarrow> int \<Rightarrow> int" where "or_int x d = (if x = 0 then d else x)"
definition or_str :: "string \<Rightarrow> string \<Rightarrow> string" where "or_str x d = (if x = [] then d else x)"
definition or_f64 :: "float64 \<Rightarrow> float64 \<Rightarrow> float64" where "or_f64 x d = (if f64_eq x (Fin 0) then d else x)"
definition or_ptr :: "'a option \<Rightarrow> 'a \<Rightarrow> 'a option" where "or_ptr x d = (case x of None \<Rightarrow> Some d | Some _ \<Rightarrow> x)"

definition server_defaults :: "server_cfg \<Rightarrow> server_cfg" where
  "server_defaults s =
     s\<lparr>sv_MaxHeaderBytes := or_int (sv_MaxHeaderBytes s) 32768,
       sv_MaxBodyBytes := or_int (sv_MaxBodyBytes s) 16777216,
       sv_MaxResponseBytes := or_int (sv_MaxResponseBytes s) 67108864,
       sv_MaxInflightRequests := or_int (sv_MaxInflightRequests s) 64,
       sv_MaxBufferedRequestBytes := or_int (sv_MaxBufferedRequestBytes s) 67108864,
       sv_MaxConnections := or_int (sv_MaxConnections s) 1024,
       sv_ReadHeaderTimeout := or_int (sv_ReadHeaderTimeout s) (5 * Second),
       sv_ReadBodyTimeout := or_int (sv_ReadBodyTimeout s) (60 * Second),
       sv_IdleTimeout := or_int (sv_IdleTimeout s) (120 * Second),
       sv_StreamIdleTimeout := or_int (sv_StreamIdleTimeout s) (120 * Second),
       sv_StreamWriteTimeout := or_int (sv_StreamWriteTimeout s) (30 * Second),
       sv_Listen := (if l_Network (sv_Listen s) = ''unix''
                     then (sv_Listen s)\<lparr>l_Mode := or_str (l_Mode (sv_Listen s)) DefaultUnixSocketMode\<rparr> else sv_Listen s)\<rparr>"

definition security_defaults :: "security_cfg \<Rightarrow> security_cfg" where
  "security_defaults s =
     \<lparr>sc_BackendNetwork = (sc_BackendNetwork s)\<lparr>bn_Mode := or_str (bn_Mode (sc_BackendNetwork s)) ''loopback-only''\<rparr>,
      sc_Landlock = \<lparr>ll_Mode = or_str (ll_Mode (sc_Landlock s)) ModeBestEffort, ll_MinimumABI = or_int (ll_MinimumABI (sc_Landlock s)) DefaultMinimumABI\<rparr>,
      sc_Seatbelt_Mode = or_str (sc_Seatbelt_Mode s) ModeBestEffort\<rparr>"

definition accounting_defaults :: "accounting_cfg \<Rightarrow> accounting_cfg" where
  "accounting_defaults a =
     (if ac_Enabled a then
        let fsync = or_str (ac_FSync a) ''interval'' in
        a\<lparr>ac_Path := or_str (ac_Path a) DefaultAccountingPath,
          ac_EnsureStreamUsage := or_ptr (ac_EnsureStreamUsage a) True,
          ac_ReplayOnStart := or_ptr (ac_ReplayOnStart a) True,
          ac_ReplayMaxBytes := or_int (ac_ReplayMaxBytes a) (2 ^ 30),
          ac_QueueSize := or_int (ac_QueueSize a) 4096,
          ac_Overflow := or_str (ac_Overflow a) ''drop-and-alert'',
          ac_FSync := fsync,
          ac_FSyncInterval := (if fsync = ''interval'' then or_int (ac_FSyncInterval a) (5 * Second) else ac_FSyncInterval a)\<rparr>
      else a)"

definition limits_defaults :: "limits_cfg \<Rightarrow> limits_cfg" where
  "limits_defaults l =
     \<lparr>lm_GlobalRequestsPerSecond = or_f64 (lm_GlobalRequestsPerSecond l) (Fin 100),
      lm_GlobalBurst = or_int (lm_GlobalBurst l) 200,
      lm_PreauthRequestsPerSecond = or_f64 (lm_PreauthRequestsPerSecond l) (Fin 100),
      lm_PreauthBurst = or_int (lm_PreauthBurst l) 200,
      lm_AuthFailureLogRate = or_f64 (lm_AuthFailureLogRate l) (Fin 1)\<rparr>"

definition backend_defaults :: "backend_cfg \<Rightarrow> backend_cfg" where
  "backend_defaults b =
     b\<lparr>be_ConnectTimeout := or_int (be_ConnectTimeout b) (3 * Second),
       be_HeaderTimeout := or_int (be_HeaderTimeout b) (300 * Second),
       be_RequestTimeout := or_int (be_RequestTimeout b) defaultRequestTimeout,
       be_StreamIdleTimeout := or_int (be_StreamIdleTimeout b) (120 * Second)\<rparr>"

definition model_defaults :: "model_cfg \<Rightarrow> model_cfg" where
  "model_defaults m =
     m\<lparr>mo_Type := or_str (mo_Type m) ''generation'',
       mo_Strategy := (if mo_Strategy m = [] then if 1 < length (mo_Backends m) then ''least-inflight'' else ''single'' else mo_Strategy m),
       mo_Backends := map (\<lambda>r. r\<lparr>br_Weight := or_int (br_Weight r) 1\<rparr>) (mo_Backends m)\<rparr>"

definition applyDefaults :: "config \<Rightarrow> config" where
  "applyDefaults c =
     c\<lparr>cf_Auth := \<lparr>au_UsersFile = or_str (au_UsersFile (cf_Auth c)) DefaultUsersFile, au_PepperFile = or_str (au_PepperFile (cf_Auth c)) DefaultPepperFile\<rparr>,
       cf_Server := server_defaults (cf_Server c),
       cf_Security := security_defaults (cf_Security c),
       cf_Logging := \<lparr>lg_Format = or_str (lg_Format (cf_Logging c)) ''json'', lg_Level = or_str (lg_Level (cf_Logging c)) ''info''\<rparr>,
       cf_Accounting := accounting_defaults (cf_Accounting c),
       cf_Limits := limits_defaults (cf_Limits c),
       cf_GracePeriod := or_int (cf_GracePeriod c) (30 * Second),
       cf_Responses := \<lparr>rs_AffinityTTL = or_int (rs_AffinityTTL (cf_Responses c)) (2 * (60 * Minute)),
                        rs_MaxAffinityEntries = or_int (rs_MaxAffinityEntries (cf_Responses c)) 10000\<rparr>,
       cf_Retry := (cf_Retry c)\<lparr>rt_MaxAttempts := or_int (rt_MaxAttempts (cf_Retry c)) 1,
                                 rt_InitialBackoff := or_int (rt_InitialBackoff (cf_Retry c)) (100 * Millisecond),
                                 rt_MaxBackoff := or_int (rt_MaxBackoff (cf_Retry c)) Second\<rparr>,
       cf_Backends := map (\<lambda>(n, b). (n, backend_defaults b)) (cf_Backends c),
       cf_Models := map (\<lambda>(n, m). (n, model_defaults m)) (cf_Models c)\<rparr>"

subsection \<open>The effective document\<close>

text \<open>What \<^verbatim>\<open>config show-effective\<close> prints: the defaulted sections, the servers with their limits, the models with their aliases.\<close>

definition effective_server :: "string \<Rightarrow> source_server \<Rightarrow> source_server" where
  "effective_server name s =
     (let l = fst (server_admission s name) in
      s\<lparr>ss_MaxConcurrency := Some (al_conc l), ss_QueueSize := Some (al_queue l), ss_QueueTimeout := Some (al_wait l)\<rparr>)"

definition effective_model :: "config \<Rightarrow> string \<Rightarrow> source_model \<Rightarrow> source_model" where
  "effective_model cfg name sm =
     (case map_of (cf_Models cfg) name of
        Some m \<Rightarrow> \<lparr>sm_Type = mo_Type m, sm_Strategy = mo_Strategy m, sm_MaxOutputTokens = mo_MaxOutputTokens m,
                    sm_Servers = sm_Servers sm, sm_UpstreamModel = model_upstream name sm\<rparr>
      | None \<Rightarrow> \<lparr>sm_Type = [], sm_Strategy = [], sm_MaxOutputTokens = 0, sm_Servers = sm_Servers sm, sm_UpstreamModel = model_upstream name sm\<rparr>)"

definition effectiveSource :: "source_doc \<Rightarrow> config \<Rightarrow> source_doc" where
  "effectiveSource doc cfg =
     \<lparr>sd_Version = cf_Version cfg, sd_Server = cf_Server cfg, sd_Auth = cf_Auth cfg, sd_Security = cf_Security cfg,
      sd_Logging = cf_Logging cfg, sd_Accounting = cf_Accounting cfg, sd_Limits = cf_Limits cfg, sd_GracePeriod = cf_GracePeriod cfg,
      sd_Responses = cf_Responses cfg, sd_Retry = cf_Retry cfg,
      sd_Servers = map (\<lambda>(n, s). (n, effective_server n s)) (sd_Servers doc),
      sd_Models = map (\<lambda>(n, m). (n, effective_model cfg n m)) (sd_Models doc)\<rparr>"

subsection \<open>What normalization computes\<close>

text \<open>
  The document read as a specification: one backend for each server a model names, in order, and the conditions under
  which the document has a normal form at all.
\<close>

definition wanted :: "(string \<times> source_model) list \<Rightarrow> (string \<times> string \<times> string) list" where
  "wanted ms = concat (map (\<lambda>(n, sm). map (\<lambda>s. (n, model_upstream n sm, s)) (sm_Servers sm)) ms)"

definition wanted_backend :: "(string \<Rightarrow> string \<Rightarrow> string) \<Rightarrow> (string \<times> source_server) list \<Rightarrow> string \<times> string \<times> string \<Rightarrow> string \<times> backend_cfg" where
  "wanted_backend backendName servers = (\<lambda>(n, u, s).
     (backendName n s, source_backend (the (map_of servers s)) s u (fst (server_admission (the (map_of servers s)) s))))"

definition wanted_model :: "(string \<Rightarrow> string \<Rightarrow> string) \<Rightarrow> string \<times> source_model \<Rightarrow> string \<times> model_cfg" where
  "wanted_model backendName = (\<lambda>(n, sm).
     (n, \<lparr>mo_Type = sm_Type sm, mo_Strategy = sm_Strategy sm, mo_MaxOutputTokens = sm_MaxOutputTokens sm,
          mo_Backends = map (\<lambda>s. \<lparr>br_Name = backendName n s, br_Weight = 1\<rparr>) (sm_Servers sm)\<rparr>))"

definition limits_ok :: "adm_limits \<Rightarrow> bool" where
  "limits_ok l \<longleftrightarrow> 1 \<le> al_conc l \<and> al_conc l \<le> 1024 \<and> 0 \<le> al_queue l \<and> al_queue l \<le> 4096 \<and> 0 < al_wait l \<and> al_wait l \<le> 30 * Minute"

definition models_ok :: "(string \<Rightarrow> string \<Rightarrow> string) \<Rightarrow> (string \<times> source_server) list \<Rightarrow> (string \<times> source_model) list \<Rightarrow> bool" where
  "models_ok backendName servers ms \<longleftrightarrow>
     (\<forall>(n, sm) \<in> set ms. sm_Servers sm \<noteq> [] \<and> distinct (sm_Servers sm) \<and> set (sm_Servers sm) \<subseteq> fst ` set servers) \<and>
     distinct (map (\<lambda>(n, u, s). backendName n s) (wanted ms))"

definition doc_ok :: "(string \<Rightarrow> string \<Rightarrow> string) \<Rightarrow> source_doc \<Rightarrow> bool" where
  "doc_ok backendName doc \<longleftrightarrow>
     sd_Servers doc \<noteq> [] \<and> sd_Models doc \<noteq> [] \<and>
     (\<forall>(n, s) \<in> set (sd_Servers doc). limits_ok (fst (server_admission s n))) \<and>
     models_ok backendName (sd_Servers doc) (sorted_entries (sd_Models doc)) \<and>
     (\<forall>n \<in> fst ` set (sd_Servers doc). \<exists>sm \<in> snd ` set (sd_Models doc). n \<in> set (sm_Servers sm))"

definition normal_form :: "(string \<Rightarrow> string \<Rightarrow> string) \<Rightarrow> source_doc \<Rightarrow> config" where
  "normal_form backendName doc =
     \<lparr>cf_Version = sd_Version doc, cf_Server = sd_Server doc, cf_Auth = sd_Auth doc, cf_Security = sd_Security doc,
      cf_Logging = sd_Logging doc, cf_Accounting = sd_Accounting doc, cf_Limits = sd_Limits doc, cf_GracePeriod = sd_GracePeriod doc,
      cf_Responses = sd_Responses doc, cf_Retry = sd_Retry doc,
      cf_Backends = map (wanted_backend backendName (sd_Servers doc)) (wanted (sorted_entries (sd_Models doc))),
      cf_Models = map (wanted_model backendName) (sorted_entries (sd_Models doc))\<rparr>"

section \<open>Lemmas\<close>

lemma complain_Nil [simp]: "complain b v = [] \<longleftrightarrow> \<not> b"
  by (simp add: complain_def)

lemma map_of_None_iff: "map_of m k = None \<longleftrightarrow> k \<notin> fst ` set m"
  by (rule map_of_eq_None_iff)

lemma say_errs [simp]: "ns_errs (say v st) \<noteq> []"
  by (simp add: say_def)

lemma norm_refs_iff:
  "ns_errs (snd (norm_refs bn servers pn up seen ss refs st)) = [] \<longleftrightarrow>
     ns_errs st = [] \<and> distinct ss \<and> set ss \<inter> set seen = {} \<and> set ss \<subseteq> fst ` set servers \<and>
     distinct (map (bn pn) ss) \<and> bn pn ` set ss \<inter> fst ` set (ns_backends st) = {}"
proof (induction ss arbitrary: seen refs st)
  case Nil
  then show ?case by simp
next
  case (Cons a ss)
  show ?case
  proof (cases "map_of servers a")
    case None
    moreover from None have "a \<notin> fst ` set servers" by (simp add: map_of_None_iff)
    ultimately show ?thesis by (simp add: Cons.IH)
  next
    case (Some s)
    then have a: "a \<in> fst ` set servers" using map_of_None_iff [of servers a] by auto
    show ?thesis
    proof (cases "map_of (ns_backends st) (bn pn a)")
      case None
      then have "bn pn a \<notin> fst ` set (ns_backends st)" by (simp add: map_of_None_iff)
      then show ?thesis using Some None a by (auto simp: Let_def Cons.IH)
    next
      case (Some b)
      then have "bn pn a \<in> fst ` set (ns_backends st)" using map_of_None_iff [of "ns_backends st" "bn pn a"] by auto
      then show ?thesis using \<open>map_of servers a = Some s\<close> Some by (simp add: Let_def Cons.IH)
    qed
  qed
qed

lemma norm_refs_result:
  assumes "ns_errs (snd (norm_refs bn servers pn up seen ss refs st)) = []"
  shows "norm_refs bn servers pn up seen ss refs st =
     (refs @ map (\<lambda>s. \<lparr>br_Name = bn pn s, br_Weight = 1\<rparr>) ss,
      st\<lparr>ns_backends := ns_backends st @ map (\<lambda>s. wanted_backend bn servers (pn, up, s)) ss,
         ns_referenced := rev ss @ ns_referenced st\<rparr>)"
  using assms
proof (induction ss arbitrary: seen refs st)
  case Nil
  then show ?case by simp
next
  case (Cons a ss)
  then have d: "a \<notin> set seen" "a \<in> fst ` set servers" "bn pn a \<notin> fst ` set (ns_backends st)"
    using norm_refs_iff [of bn servers pn up seen "a # ss" refs st] by auto
  then obtain s where s: "map_of servers a = Some s" by (metis map_of_None_iff option.exhaust)
  from d(3) have n: "map_of (ns_backends st) (bn pn a) = None" by (simp add: map_of_None_iff)
  let ?st = "st\<lparr>ns_backends := ns_backends st @ [(bn pn a, source_backend s a up (fst (server_admission s a)))], ns_referenced := a # ns_referenced st\<rparr>"
  have e: "norm_refs bn servers pn up seen (a # ss) refs st =
      norm_refs bn servers pn up (a # seen) ss (refs @ [\<lparr>br_Name = bn pn a, br_Weight = 1\<rparr>]) ?st"
    using d(1) s n by (simp add: Let_def)
  show ?case unfolding e Cons.IH [OF Cons.prems [unfolded e]] using s by (simp add: wanted_backend_def)
qed

lemma wanted_simps [simp]:
  "wanted [] = []"
  "wanted ((n, sm) # ms) = map (\<lambda>s. (n, model_upstream n sm, s)) (sm_Servers sm) @ wanted ms"
  by (simp_all add: wanted_def)

lemma wanted_names: "fst (wanted_backend bn servers (n, u, s)) = bn n s"
  by (simp add: wanted_backend_def)

lemma models_ok_Cons:
  "models_ok bn servers ((n, sm) # ms) \<longleftrightarrow>
     sm_Servers sm \<noteq> [] \<and> distinct (sm_Servers sm) \<and> set (sm_Servers sm) \<subseteq> fst ` set servers \<and> distinct (map (bn n) (sm_Servers sm)) \<and>
     models_ok bn servers ms \<and> bn n ` set (sm_Servers sm) \<inter> (\<lambda>(n, u, s). bn n s) ` set (wanted ms) = {}"
  by (simp add: models_ok_def comp_def) blast

lemma wanted_names_Cons:
  "(\<lambda>(n, u, s). bn n s) ` set (wanted ((n, sm) # ms)) = bn n ` set (sm_Servers sm) \<union> (\<lambda>(n, u, s). bn n s) ` set (wanted ms)"
  by (simp add: image_Un image_image)

lemma norm_models_iff:
  "ns_errs (snd (norm_models bn servers ms st)) = [] \<longleftrightarrow>
     ns_errs st = [] \<and> models_ok bn servers ms \<and> (\<lambda>(n, u, s). bn n s) ` set (wanted ms) \<inter> fst ` set (ns_backends st) = {}"
proof (induction ms arbitrary: st)
  case Nil
  then show ?case by (simp add: models_ok_def)
next
  case (Cons a ms)
  obtain n sm where a: "a = (n, sm)" by (cases a)
  let ?r = "norm_refs bn servers n (model_upstream n sm) [] (sm_Servers sm) [] st"
  have r: "ns_errs (snd ?r) = [] \<longleftrightarrow> ns_errs st = [] \<and> distinct (sm_Servers sm) \<and> set (sm_Servers sm) \<subseteq> fst ` set servers \<and>
      distinct (map (bn n) (sm_Servers sm)) \<and> bn n ` set (sm_Servers sm) \<inter> fst ` set (ns_backends st) = {}"
    unfolding norm_refs_iff by simp
  show ?case
  proof (cases "sm_Servers sm = []")
    case True
    then show ?thesis by (simp add: a Cons.IH models_ok_Cons)
  next
    case False
    have e: "ns_errs (snd (norm_models bn servers ((n, sm) # ms) st)) = ns_errs (snd (norm_models bn servers ms (snd ?r)))"
      using False by (simp add: Let_def split: prod.splits)
    show ?thesis
    proof (cases "ns_errs (snd ?r) = []")
      case True
      then have b: "fst ` set (ns_backends (snd ?r)) = fst ` set (ns_backends st) \<union> bn n ` set (sm_Servers sm)"
        using norm_refs_result [OF True] by (simp add: wanted_names image_Un image_image)
      have k: "C \<inter> (A \<union> B) = {} \<longleftrightarrow> C \<inter> A = {} \<and> B \<inter> C = {}" "(B \<union> C) \<inter> A = {} \<longleftrightarrow> B \<inter> A = {} \<and> C \<inter> A = {}" for A B C :: "string set"
        by blast+
      show ?thesis unfolding a e Cons.IH b models_ok_Cons wanted_names_Cons k using True False r by metis
    next
      case f: False
      then show ?thesis unfolding a e Cons.IH models_ok_Cons wanted_names_Cons using f False r by (auto simp: Int_Un_distrib2)
    qed
  qed
qed

lemma norm_models_result:
  assumes "ns_errs (snd (norm_models bn servers ms st)) = []"
  shows "norm_models bn servers ms st =
     (map (wanted_model bn) ms,
      st\<lparr>ns_backends := ns_backends st @ map (wanted_backend bn servers) (wanted ms),
         ns_referenced := rev (map (snd \<circ> snd) (wanted ms)) @ ns_referenced st\<rparr>)"
  using assms
proof (induction ms arbitrary: st)
  case Nil
  then show ?case by simp
next
  case (Cons a ms)
  obtain n sm where a: "a = (n, sm)" by (cases a)
  let ?r = "norm_refs bn servers n (model_upstream n sm) [] (sm_Servers sm) [] st"
  have ne: "sm_Servers sm \<noteq> []" using Cons.prems norm_models_iff [of bn servers "a # ms" st] by (simp add: a models_ok_def)
  then have e: "norm_models bn servers (a # ms) st =
      (let (rest, st2) = norm_models bn servers ms (snd ?r)
       in ((n, \<lparr>mo_Type = sm_Type sm, mo_Strategy = sm_Strategy sm, mo_MaxOutputTokens = sm_MaxOutputTokens sm, mo_Backends = fst ?r\<rparr>) # rest, st2))"
    by (simp add: a Let_def split: prod.splits)
  then have m: "ns_errs (snd (norm_models bn servers ms (snd ?r))) = []" using Cons.prems by (simp add: Let_def split: prod.splits)
  then have "ns_errs (snd ?r) = []" using norm_models_iff by blast
  from norm_refs_result [OF this] show ?case unfolding e Cons.IH [OF m] by (simp add: a wanted_model_def comp_def)
qed

lemma sorted_entries_set:
  assumes "distinct (map fst m)"
  shows "set (sorted_entries m) = set m"
  using assms by (force simp: sorted_entries_def sortedModelKeys_def image_iff)

lemma admission_ok: "snd (server_admission s n) = [] \<longleftrightarrow> limits_ok (fst (server_admission s n))"
  by (auto simp: server_admission_def limits_ok_def Let_def maxServerConcurrency_def maxServerQueueSize_def defaultRequestTimeout_def)

lemma normalize_iff:
  assumes "distinct (map fst (sd_Servers doc))" "distinct (map fst (sd_Models doc))"
  shows "normalizeSourceWith doc bn = Inr c \<longleftrightarrow> doc_ok bn doc \<and> c = normal_form bn doc"
proof -
  let ?s = "sd_Servers doc" and ?m = "sorted_entries (sd_Models doc)"
  let ?adm = "concat (map (\<lambda>(name, s). snd (server_admission s name)) (sorted_entries ?s))"
  let ?none = "complain (?s = []) [Txt ''servers: at least one server is required''] @ complain (sd_Models doc = []) [Txt ''models: at least one model is required'']"
  let ?st = "\<lparr>ns_errs = ?adm @ ?none, ns_backends = [], ns_referenced = []\<rparr>"
  let ?r = "norm_models bn ?s ?m ?st"
  have adm: "?adm = [] \<longleftrightarrow> (\<forall>(n, s) \<in> set ?s. limits_ok (fst (server_admission s n)))"
    using sorted_entries_set [OF assms(1)] by (auto simp: admission_ok)
  have errs: "ns_errs (snd ?r) = [] \<longleftrightarrow> ?adm = [] \<and> ?s \<noteq> [] \<and> sd_Models doc \<noteq> [] \<and> models_ok bn ?s ?m"
    unfolding norm_models_iff by auto
  have ref: "ns_errs (snd ?r) = [] \<Longrightarrow>
      (concat (map (\<lambda>(name, s). complain (name \<notin> set (ns_referenced (snd ?r))) [Txt ''servers.'', Txt name, Txt '': not referenced by any model'']) ?s) = []
       \<longleftrightarrow> (\<forall>n \<in> fst ` set ?s. \<exists>sm \<in> snd ` set (sd_Models doc). n \<in> set (sm_Servers sm)))"
  proof -
    assume e: "ns_errs (snd ?r) = []"
    have "set (ns_referenced (snd ?r)) = (\<Union>(n, sm) \<in> set (sd_Models doc). set (sm_Servers sm))"
      unfolding norm_models_result [OF e] using sorted_entries_set [OF assms(2)] by (auto simp: wanted_def image_iff) force+
    then show ?thesis by (auto simp: image_iff) force+
  qed
  show ?thesis
  proof (cases "ns_errs (snd ?r) = []")
    case True
    then show ?thesis using errs adm ref [OF True] norm_models_result [OF True]
      by (auto simp: normalizeSourceWith_def doc_ok_def normal_form_def Let_def)
  next
    case False
    then show ?thesis using errs adm by (auto simp: normalizeSourceWith_def doc_ok_def Let_def split: prod.splits)
  qed
qed

subsection \<open>Defaults are applied once\<close>

lemma or_idem [simp]:
  "or_int (or_int x d) d = or_int x d" "or_str (or_str y e) e = or_str y e" "or_ptr (or_ptr z f) f = or_ptr z f"
  "\<not> f64_eq g (Fin 0) \<Longrightarrow> or_f64 (or_f64 w g) g = or_f64 w g"
  by (auto simp: or_int_def or_str_def or_ptr_def or_f64_def split: option.splits)

lemma server_defaults_idem [simp]: "server_defaults (server_defaults s) = server_defaults s"
  by (auto simp: server_defaults_def)

lemma security_defaults_idem [simp]: "security_defaults (security_defaults s) = security_defaults s"
  by (simp add: security_defaults_def)

lemma accounting_defaults_idem [simp]: "accounting_defaults (accounting_defaults a) = accounting_defaults a"
  by (auto simp: accounting_defaults_def Let_def)

lemma limits_defaults_idem [simp]: "limits_defaults (limits_defaults l) = limits_defaults l"
  by (simp add: limits_defaults_def)

lemma model_defaults_idem [simp]: "model_defaults (model_defaults m) = model_defaults m"
  by (auto simp: model_defaults_def comp_def or_str_def)

subsection \<open>The effective document\<close>

lemma effective_upstream [simp]: "model_upstream n (effective_model cfg n sm) = model_upstream n sm"
  by (auto simp: effective_model_def model_upstream_def split: option.splits)

lemma effective_servers [simp]: "sm_Servers (effective_model cfg n sm) = sm_Servers sm"
  by (simp add: effective_model_def split: option.splits)

lemma effective_admission [simp]: "server_admission (effective_server n s) n = server_admission s n"
  by (simp add: effective_server_def server_admission_def Let_def)

lemma effective_server_idem [simp]: "effective_server n (effective_server n s) = effective_server n s"
  by (simp add: effective_server_def [of n "effective_server n s"] Let_def) (simp add: effective_server_def Let_def)

lemma effective_model_idem [simp]: "effective_model cfg n (effective_model cfg n sm) = effective_model cfg n sm"
  by (cases "map_of (cf_Models cfg) n") (simp_all add: effective_model_def model_upstream_def)

lemma map_of_keyed: "map_of (map (\<lambda>(n, x). (n, f n x)) m) k = map_option (f k) (map_of m k)"
  by (induction m) auto

lemma sorted_entries_keyed: "distinct (map fst m) \<Longrightarrow> sorted_entries (map (\<lambda>(n, x). (n, f n x)) m) = map (\<lambda>(n, x). (n, f n x)) (sorted_entries m)"
proof -
  assume d: "distinct (map fst m)"
  have k: "fst \<circ> (\<lambda>(n, x). (n, f n x)) = fst" by auto
  show ?thesis
    using d by (auto simp: sorted_entries_def sortedModelKeys_def k map_of_keyed)
qed

lemma wanted_effective: "wanted (map (\<lambda>(n, sm). (n, effective_model cfg n sm)) ms) = wanted ms"
  by (induction ms) auto

lemma wanted_in: "(n, u, s) \<in> set (wanted ms) \<Longrightarrow> \<exists>sm. (n, sm) \<in> set ms \<and> s \<in> set (sm_Servers sm)"
  by (auto simp: wanted_def)

end
