(* ===== verification/Validate.thy ===== *)
theory Validate
  imports Source Routing
begin

text \<open>
  The validation of a normalized configuration (\<^verbatim>\<open>src/internal/config/validate.go\<close>) and the loader that chains
  normalization, defaults and validation (\<^verbatim>\<open>parse\<close> of \<^verbatim>\<open>src/internal/config/load.go\<close>, from the decoded document on).

  Every violation is reported: a validator returns the list of them, and an empty list means accepted. The syntax of
  URLs, addresses and prefixes (\<^verbatim>\<open>url.Parse\<close>, \<^verbatim>\<open>netip.ParseAddr\<close>, \<^verbatim>\<open>netip.ParsePrefix\<close>, \<^verbatim>\<open>net.ParseCIDR\<close>) is a parameter.
\<close>

section \<open>Definitions\<close>

record net_syntax =
  sx_URL :: "string \<Rightarrow> url option"
  sx_Addr :: "string \<Rightarrow> ip_addr option"
  sx_Prefix :: "string \<Rightarrow> ip_prefix option"
  sx_CIDR :: "string \<Rightarrow> ipnet option"

definition TLSConfigured :: "tls_cfg \<Rightarrow> bool" where
  "TLSConfigured t \<longleftrightarrow> t_CertFile t \<noteq> [] \<or> t_KeyFile t \<noteq> []"

definition isLoopbackHost :: "net_syntax \<Rightarrow> string \<Rightarrow> bool" where
  "isLoopbackHost sx host \<longleftrightarrow> (case sx_Addr sx host of Some a \<Rightarrow> addr_IsLoopback a | None \<Rightarrow> False)"

definition IsNonLoopbackHost :: "net_syntax \<Rightarrow> string \<Rightarrow> bool" where
  "IsNonLoopbackHost sx host \<longleftrightarrow> (case sx_Addr sx host of Some a \<Rightarrow> \<not> addr_IsLoopback a | None \<Rightarrow> True)"

definition IsNonLoopbackListenAddress :: "net_syntax \<Rightarrow> string \<Rightarrow> bool" where
  "IsNonLoopbackListenAddress sx a \<longleftrightarrow> (case net_SplitHostPort a of None \<Rightarrow> True | Some (host, _) \<Rightarrow> IsNonLoopbackHost sx host)"

definition inAnyPrefix :: "ip_addr \<Rightarrow> ip_prefix list \<Rightarrow> bool" where
  "inAnyPrefix a ps \<longleftrightarrow> list_ex (\<lambda>p. prefix_Contains p a) ps"

text \<open>\<^verbatim>\<open>filepath.IsAbs\<close> and \<^verbatim>\<open>strconv.ParseUint(s, 8, 16)\<close>.\<close>

definition IsAbs :: "string \<Rightarrow> bool" where "IsAbs path \<longleftrightarrow> has_prefix path ''/''"

definition parse_octal16 :: "string \<Rightarrow> nat option" where
  "parse_octal16 s =
     (let n = foldl (\<lambda>a c. a * 8 + (byte_of c - 48)) 0 s in
      if s = [] \<or> \<not> list_all (\<lambda>c. 48 \<le> byte_of c \<and> byte_of c \<le> 55) s \<or> 65535 < n then None else Some n)"

subsection \<open>The server section\<close>

fun trusted_violations :: "net_syntax \<Rightarrow> string \<Rightarrow> string list \<Rightarrow> string list \<Rightarrow> violation list" where
  "trusted_violations sx network seen [] = []"
| "trusted_violations sx network seen (entry # rest) =
     (if entry \<in> set seen then [[Txt ''server.trusted_proxies: duplicate entry '', Quo entry]]
      else if entry = TrustedProxyUnix
      then complain (network \<noteq> ''unix'') [Txt ''server.trusted_proxies: \"unix\" requires server.listen.network: unix'']
      else case sx_Prefix sx entry of
        None \<Rightarrow> [[Txt ''server.trusted_proxies: '', Quo entry, Txt '' is not a CIDR like 127.0.0.1/32 (or the literal '', Quo TrustedProxyUnix, Txt '')'']]
      | Some p \<Rightarrow>
          if pf_addr p \<noteq> pf_addr (Masked p)
          then [[Txt ''server.trusted_proxies: '', Quo entry, Txt '' has bits set below the prefix length; write '', Pfx (Masked p)]]
          else complain (network = ''unix'')
                 [Txt ''server.trusted_proxies: '', Quo entry, Txt '' cannot match a Unix listener; use '', Quo TrustedProxyUnix]) @
     trusted_violations sx network (entry # seen) rest"

definition validateTrustedProxies :: "net_syntax \<Rightarrow> server_cfg \<Rightarrow> violation list" where
  "validateTrustedProxies sx s = trusted_violations sx (l_Network (sv_Listen s)) [] (sv_TrustedProxies s)"

definition listen_violations :: "net_syntax \<Rightarrow> server_cfg \<Rightarrow> violation list" where
  "listen_violations sx s =
     (let l = sv_Listen s in
      if l_Network l = ''tcp'' then
        complain (l_Mode l \<noteq> []) [Txt ''server.listen.mode: only valid for network unix''] @
        (case net_SplitHostPort (l_Address l) of
           None \<Rightarrow> [[Txt ''server.listen.address: '', Quo (l_Address l), Txt '' must be host:port for network tcp'']]
         | Some (host, _) \<Rightarrow>
             complain (IsNonLoopbackHost sx host \<and> \<not> TLSConfigured (sv_TLS s) \<and> \<not> sv_AllowPlaintextNonLoopback s)
               [Txt ''server: non-loopback TCP listener requires tls configuration or allow_plaintext_non_loopback: true''])
      else if l_Network l = ''unix'' then
        (if l_Address l = [] then [[Txt ''server.listen.address: required for network unix'']]
         else complain (\<not> IsAbs (l_Address l)) [Txt ''server.listen.address: '', Quo (l_Address l), Txt '' must be an absolute path'']) @
        complain (case parse_octal16 (l_Mode l) of None \<Rightarrow> True | Some mode \<Rightarrow> mode = 0 \<or> 511 < mode)
          [Txt ''server.listen.mode: '', Quo (l_Mode l), Txt '' must be an octal mode like 0660'']
      else
        [Txt ''server.listen.network: required, one of \"unix\" or \"tcp\"''] #
        complain (l_Mode l \<noteq> []) [Txt ''server.listen.mode: only valid for network unix''])"

definition positive :: "string \<Rightarrow> int \<Rightarrow> violation list" where
  "positive field x = complain (x \<le> 0) [Txt (field @ '': must be > 0'')]"

definition validateServer :: "net_syntax \<Rightarrow> server_cfg \<Rightarrow> violation list" where
  "validateServer sx s =
     listen_violations sx s @
     complain (sv_AdminSocket s \<noteq> [] \<and> \<not> IsAbs (sv_AdminSocket s)) [Txt ''server.admin_socket: '', Quo (sv_AdminSocket s), Txt '' must be an absolute path''] @
     complain (sv_AdminSocket s \<noteq> [] \<and> sv_AdminSocket s = l_Address (sv_Listen s)) [Txt ''server.admin_socket: must differ from server.listen.address''] @
     validateTrustedProxies sx s @
     positive ''server.max_header_bytes'' (sv_MaxHeaderBytes s) @
     positive ''server.max_body_bytes'' (sv_MaxBodyBytes s) @
     positive ''server.max_response_bytes'' (sv_MaxResponseBytes s) @
     positive ''server.max_inflight_requests'' (sv_MaxInflightRequests s) @
     positive ''server.max_buffered_request_bytes'' (sv_MaxBufferedRequestBytes s) @
     positive ''server.max_connections'' (sv_MaxConnections s) @
     positive ''server.read_header_timeout'' (sv_ReadHeaderTimeout s) @
     positive ''server.read_body_timeout'' (sv_ReadBodyTimeout s) @
     positive ''server.idle_timeout'' (sv_IdleTimeout s) @
     positive ''server.stream_idle_timeout'' (sv_StreamIdleTimeout s) @
     positive ''server.stream_write_timeout'' (sv_StreamWriteTimeout s) @
     complain (l_Network (sv_Listen s) = ''unix'' \<and> TLSConfigured (sv_TLS s)) [Txt ''server.tls: only valid when listen network is tcp''] @
     complain (TLSConfigured (sv_TLS s) \<and> (t_CertFile (sv_TLS s) = [] \<or> t_KeyFile (sv_TLS s) = []))
       [Txt ''server.tls: cert_file and key_file are required together'']"

subsection \<open>The other sections\<close>

definition absolute :: "string \<Rightarrow> string \<Rightarrow> violation list" where
  "absolute field path =
     (if path = [] then [[Txt (field @ '': required'')]] else complain (\<not> IsAbs path) [Txt (field @ '': must be an absolute path'')])"

definition validateAuth :: "auth_cfg \<Rightarrow> violation list" where
  "validateAuth a = absolute ''auth.users_file'' (au_UsersFile a) @ absolute ''auth.pepper_file'' (au_PepperFile a)"

definition sandbox_mode_ok :: "string \<Rightarrow> bool" where
  "sandbox_mode_ok m \<longleftrightarrow> m \<in> {ModeRequired, ModeBestEffort, ModeDisabled}"

definition validateSecurity :: "net_syntax \<Rightarrow> security_cfg \<Rightarrow> violation list" where
  "validateSecurity sx s =
     (let bn = sc_BackendNetwork s; l = sc_Landlock s in
      (if bn_Mode bn \<in> {''loopback-only'', ''any''}
       then complain (bn_CIDRs bn \<noteq> []) [Txt ''security.backend_network.cidrs: only valid when mode is allowed-cidrs'']
       else if bn_Mode bn = ''allowed-cidrs'' then
         complain (bn_CIDRs bn = []) [Txt ''security.backend_network.cidrs: required when mode is allowed-cidrs''] @
         concat (map (\<lambda>c. complain (sx_CIDR sx c = None) [Txt ''security.backend_network.cidrs: '', Quo c, Txt '' is not a valid CIDR'']) (bn_CIDRs bn))
       else [[Txt ''security.backend_network.mode: '', Quo (bn_Mode bn), Txt '' must be loopback-only, allowed-cidrs, or any'']]) @
      complain (\<not> sandbox_mode_ok (ll_Mode l)) [Txt ''security.landlock.mode: '', Quo (ll_Mode l), Txt '' must be required, best-effort, or disabled''] @
      complain (ll_MinimumABI l < 1 \<or> MaxABI < ll_MinimumABI l)
        [Txt ''security.landlock.minimum_abi: '', Num (ll_MinimumABI l), Txt '' out of range 1..'', Num MaxABI] @
      complain (\<not> sandbox_mode_ok (sc_Seatbelt_Mode s))
        [Txt ''security.seatbelt.mode: '', Quo (sc_Seatbelt_Mode s), Txt '' must be required, best-effort, or disabled''])"

definition validateLogging :: "logging_cfg \<Rightarrow> violation list" where
  "validateLogging l =
     complain (lg_Format l \<notin> {''json'', ''text''}) [Txt ''logging.format: '', Quo (lg_Format l), Txt '' must be json or text''] @
     complain (lg_Level l \<notin> {''debug'', ''info'', ''warn'', ''error''}) [Txt ''logging.level: '', Quo (lg_Level l), Txt '' must be debug, info, warn, or error'']"

definition validateAccounting :: "accounting_cfg \<Rightarrow> violation list" where
  "validateAccounting a =
     (let reservation = complain (ac_UnknownUsageReservation a < 0) [Txt ''accounting.unknown_usage_reservation: must be >= 0''] in
      if \<not> ac_Enabled a then
        complain (ac_Path a \<noteq> [] \<or> ac_ReplayOnStart a \<noteq> None \<or> ac_ReplayMaxBytes a \<noteq> 0 \<or> ac_QueueSize a \<noteq> 0 \<or> ac_Overflow a \<noteq> [] \<or>
            ac_FSync a \<noteq> [] \<or> ac_FSyncInterval a \<noteq> 0)
          [Txt ''accounting: remaining fields must be empty when enabled is false''] @ reservation
      else
        complain (ac_Path a = []) [Txt ''accounting.path: required when accounting is enabled''] @
        complain (ac_QueueSize a \<le> 0) [Txt ''accounting.queue_size: must be > 0 when accounting is enabled''] @
        complain (ac_ReplayMaxBytes a < 0) [Txt ''accounting.replay_max_bytes: must be >= 0''] @
        reservation @
        complain (ac_Overflow a \<noteq> ''drop-and-alert'') [Txt ''accounting.overflow: '', Quo (ac_Overflow a), Txt '' must be drop-and-alert''] @
        (if ac_FSync a = ''interval''
         then complain (ac_FSyncInterval a \<le> 0) [Txt ''accounting.fsync_interval: must be > 0 when fsync is interval'']
         else if ac_FSync a \<in> {''every'', ''never''}
         then complain (ac_FSyncInterval a \<noteq> 0) [Txt ''accounting.fsync_interval: only valid when fsync is interval'']
         else [[Txt ''accounting.fsync: '', Quo (ac_FSync a), Txt '' must be interval, every, or never'']]))"

text \<open>The rates are tested with \<^verbatim>\<open><= 0\<close>, which a NaN does not satisfy.\<close>

definition positive_rate :: "string \<Rightarrow> float64 \<Rightarrow> violation list" where
  "positive_rate field x = complain (f64_le x (Fin 0)) [Txt (field @ '': must be > 0'')]"

definition validateLimits_cfg :: "limits_cfg \<Rightarrow> violation list" where
  "validateLimits_cfg l =
     positive_rate ''limits.global_requests_per_second'' (lm_GlobalRequestsPerSecond l) @
     positive ''limits.global_burst'' (lm_GlobalBurst l) @
     positive_rate ''limits.preauth_requests_per_second'' (lm_PreauthRequestsPerSecond l) @
     positive ''limits.preauth_burst'' (lm_PreauthBurst l) @
     positive_rate ''limits.auth_failure_log_rate'' (lm_AuthFailureLogRate l)"

definition validateShutdown :: "duration \<Rightarrow> violation list" where
  "validateShutdown grace = positive ''shutdown.grace_period'' grace"

definition validateResponses :: "responses_cfg \<Rightarrow> violation list" where
  "validateResponses r = positive ''responses.affinity_ttl'' (rs_AffinityTTL r) @ positive ''responses.max_affinity_entries'' (rs_MaxAffinityEntries r)"

definition defaultRetryMaxAttemptsMax :: int where "defaultRetryMaxAttemptsMax = 8"

definition validateRetry :: "retry_cfg \<Rightarrow> violation list" where
  "validateRetry r =
     complain (rt_MaxAttempts r < 1 \<or> defaultRetryMaxAttemptsMax < rt_MaxAttempts r)
       [Txt ''retry.max_attempts: '', Num (rt_MaxAttempts r), Txt '' out of range 1..'', Num defaultRetryMaxAttemptsMax] @
     positive ''retry.initial_backoff'' (rt_InitialBackoff r) @
     positive ''retry.max_backoff'' (rt_MaxBackoff r) @
     complain (rt_MaxBackoff r < rt_InitialBackoff r) [Txt ''retry.initial_backoff: must not exceed retry.max_backoff'']"

subsection \<open>Backends and models\<close>

definition host_violations :: "net_syntax \<Rightarrow> network_cfg \<Rightarrow> ip_prefix list \<Rightarrow> string \<Rightarrow> string \<Rightarrow> violation list" where
  "host_violations sx bn allowed prefix h =
     (case net_SplitHostPort h of
        Some (host, port) \<Rightarrow>
          if host = [] \<or> port = [] then [[Txt prefix, Txt ''.base_url: host '', Quo h, Txt '' is malformed or missing a port'']]
          else
            complain (bn_Mode bn = ''loopback-only'' \<and> \<not> isLoopbackHost sx host)
              [Txt prefix, Txt ''.base_url: '', Quo host, Txt '' is not a loopback IP literal; loopback-only mode requires a literal loopback destination''] @
            complain (bn_Mode bn = ''allowed-cidrs'' \<and> (case sx_Addr sx host of Some a \<Rightarrow> \<not> inAnyPrefix a allowed | None \<Rightarrow> False))
              [Txt prefix, Txt ''.base_url: '', Quo host, Txt '' is not within security.backend_network.cidrs'']
      | None \<Rightarrow> [[Txt prefix, Txt ''.base_url: host '', Quo h, Txt '' is malformed or missing a port'']])"

definition backend_violations :: "net_syntax \<Rightarrow> network_cfg \<Rightarrow> ip_prefix list \<Rightarrow> string \<Rightarrow> backend_cfg \<Rightarrow> violation list" where
  "backend_violations sx bn allowed name b =
     (let prefix = ''backends.'' @ name in
      case (if be_BaseURL b = [] then None else sx_URL sx (be_BaseURL b)) of
        None \<Rightarrow> [[Txt (prefix @ ''.base_url: is not a valid URL'')]]
      | Some u \<Rightarrow>
          complain (u_Scheme u \<noteq> ''http'' \<and> u_Scheme u \<noteq> ''https'')
            [Txt prefix, Txt ''.base_url: unsupported scheme '', Quo (u_Scheme u), Txt '' (want http or https)''] @
          complain (u_User u) [Txt prefix, Txt ''.base_url: userinfo is not supported''] @
          complain (u_RawQuery u \<noteq> []) [Txt prefix, Txt ''.base_url: query strings are not supported''] @
          complain (u_Fragment u \<noteq> []) [Txt prefix, Txt ''.base_url: fragments are not supported''] @
          complain (u_Path u \<noteq> [] \<and> u_Path u \<noteq> ''/'') [Txt prefix, Txt ''.base_url: path '', Quo (u_Path u), Txt '' must be empty or /''] @
          host_violations sx bn allowed prefix (u_Host u) @
          complain (be_UpstreamModel b = []) [Txt (prefix @ ''.upstream_model: required'')] @
          positive (prefix @ ''.connect_timeout'') (be_ConnectTimeout b) @
          positive (prefix @ ''.header_timeout'') (be_HeaderTimeout b) @
          positive (prefix @ ''.request_timeout'') (be_RequestTimeout b) @
          positive (prefix @ ''.stream_idle_timeout'') (be_StreamIdleTimeout b) @
          complain (be_MaxConcurrency b < 1) [Txt (prefix @ ''.max_concurrency: must be >= 1'')] @
          complain (be_QueueSize b < 0) [Txt (prefix @ ''.queue_size: must be >= 0'')] @
          positive (prefix @ ''.queue_timeout'') (be_QueueTimeout b))"

definition validateBackends :: "net_syntax \<Rightarrow> (string \<times> backend_cfg) list \<Rightarrow> network_cfg \<Rightarrow> violation list" where
  "validateBackends sx backends bn =
     (if backends = [] then [[Txt ''backends: at least one backend is required'']]
      else let allowed = concat (map (\<lambda>c. case sx_Prefix sx c of Some p \<Rightarrow> [p] | None \<Rightarrow> []) (bn_CIDRs bn))
           in concat (map (\<lambda>(name, b). backend_violations sx bn allowed name b) backends))"

definition ValidateModelName :: "string \<Rightarrow> violation option" where
  "ValidateModelName name =
     (if name = ModelWildcard then Some [Quo ModelWildcard, Txt '' is the ACL wildcard and cannot name a model'']
      else if CHR '','' \<in> set name
      then Some [Txt ''a model name cannot contain a comma, which separates entries in a key's model list'']
      else None)"

fun ref_violations :: "(string \<times> backend_cfg) list \<Rightarrow> string \<Rightarrow> string list \<Rightarrow> backend_ref list \<Rightarrow> violation list" where
  "ref_violations backends prefix seen [] = []"
| "ref_violations backends prefix seen (ref # refs) =
     (if br_Name ref = [] then [Txt (prefix @ ''.backends: empty backend reference'')] # ref_violations backends prefix seen refs
      else
        complain (map_of backends (br_Name ref) = None) [Txt prefix, Txt ''.backends: unknown backend '', Quo (br_Name ref)] @
        complain (br_Name ref \<in> set seen) [Txt prefix, Txt ''.backends: duplicate backend '', Quo (br_Name ref)] @
        complain (br_Weight ref < 0) [Txt prefix, Txt ''.backends: '', Quo (br_Name ref), Txt '' has a negative weight''] @
        ref_violations backends prefix (br_Name ref # seen) refs)"

definition model_violations :: "(string \<times> backend_cfg) list \<Rightarrow> string \<Rightarrow> model_cfg \<Rightarrow> violation list" where
  "model_violations backends name m =
     (let prefix = ''models.'' @ name in
      (case ValidateModelName name of Some v \<Rightarrow> [Txt prefix # Txt '': '' # v] | None \<Rightarrow> []) @
      complain (mo_Type m \<notin> {''generation'', ''embedding''}) [Txt prefix, Txt ''.type: '', Quo (mo_Type m), Txt '' must be generation or embedding''] @
      complain (mo_Strategy m \<notin> set SupportedStrategies) [Txt prefix, Txt ''.strategy: '', Quo (mo_Strategy m), Txt '' is not a supported routing strategy''] @
      complain (mo_Strategy m = ''single'' \<and> length (mo_Backends m) \<noteq> 1) [Txt prefix, Txt '': strategy single requires exactly one backend''] @
      complain (mo_Backends m = []) [Txt (prefix @ ''.backends: at least one backend reference is required'')] @
      ref_violations backends prefix [] (mo_Backends m) @
      complain (mo_MaxOutputTokens m < 0) [Txt (prefix @ ''.policy.max_output_tokens: must be >= 0'')])"

definition validateModels :: "(string \<times> model_cfg) list \<Rightarrow> (string \<times> backend_cfg) list \<Rightarrow> violation list" where
  "validateModels ms backends =
     (if ms = [] then [[Txt ''models: at least one public model is required'']]
      else concat (map (\<lambda>(name, m). model_violations backends name m) ms))"

subsection \<open>The whole configuration\<close>

definition validate :: "net_syntax \<Rightarrow> config \<Rightarrow> violation list" where
  "validate sx c =
     complain (cf_Version c \<noteq> 1) [Txt ''version: '', Num (cf_Version c), Txt '' is not supported (want 1)''] @
     validateServer sx (cf_Server c) @
     validateAuth (cf_Auth c) @
     validateSecurity sx (cf_Security c) @
     validateLogging (cf_Logging c) @
     validateAccounting (cf_Accounting c) @
     validateLimits_cfg (cf_Limits c) @
     validateShutdown (cf_GracePeriod c) @
     validateResponses (cf_Responses c) @
     validateRetry (cf_Retry c) @
     validateBackends sx (cf_Backends c) (sc_BackendNetwork (cf_Security c)) @
     validateModels (cf_Models c) (cf_Backends c)"

definition parse_config :: "(bytes \<Rightarrow> bytes) \<Rightarrow> net_syntax \<Rightarrow> source_doc \<Rightarrow> violation list + config \<times> source_doc" where
  "parse_config sha256 sx doc =
     bind_sum (normalizeSource sha256 doc) (\<lambda>c.
       let cfg = applyDefaults c; errs = validate sx cfg
       in if errs \<noteq> [] then Inl errs else Inr (cfg, effectiveSource doc cfg))"

section \<open>Lemmas\<close>

lemma effective_doc_ok:
  assumes "distinct (map fst (sd_Servers doc))" "distinct (map fst (sd_Models doc))"
  shows "doc_ok bn (effectiveSource doc cfg) \<longleftrightarrow> doc_ok bn doc"
proof -
  let ?e = "effectiveSource doc cfg"
  have k: "fst ` set (sd_Servers ?e) = fst ` set (sd_Servers doc)" by (force simp: effectiveSource_def)
  have "(\<forall>(n, s) \<in> set (sd_Servers ?e). limits_ok (fst (server_admission s n))) \<longleftrightarrow> (\<forall>(n, s) \<in> set (sd_Servers doc). limits_ok (fst (server_admission s n)))"
    by (force simp: effectiveSource_def)
  moreover have "models_ok bn (sd_Servers ?e) (sorted_entries (sd_Models ?e)) \<longleftrightarrow> models_ok bn (sd_Servers doc) (sorted_entries (sd_Models doc))"
    unfolding models_ok_def k by (simp add: effectiveSource_def sorted_entries_keyed [OF assms(2)] wanted_effective case_prod_beta)
  moreover have "(\<exists>sm \<in> snd ` set (sd_Models ?e). n \<in> set (sm_Servers sm)) \<longleftrightarrow> (\<exists>sm \<in> snd ` set (sd_Models doc). n \<in> set (sm_Servers sm))" for n
    by (force simp: effectiveSource_def)
  moreover have "sd_Servers ?e = [] \<longleftrightarrow> sd_Servers doc = []" "sd_Models ?e = [] \<longleftrightarrow> sd_Models doc = []" by (simp_all add: effectiveSource_def)
  ultimately show ?thesis by (simp add: doc_ok_def k)
qed

lemma effective_backends:
  assumes "distinct (map fst (sd_Models doc))" "doc_ok bn doc"
  shows "cf_Backends (normal_form bn (effectiveSource doc cfg)) = cf_Backends (normal_form bn doc)"
proof -
  have "wanted_backend bn (sd_Servers (effectiveSource doc cfg)) w = wanted_backend bn (sd_Servers doc) w"
    if w: "w \<in> set (wanted (sorted_entries (sd_Models doc)))" for w
  proof -
    obtain n u s where [simp]: "w = (n, u, s)" by (rule prod_cases3)
    obtain sm where "(n, sm) \<in> set (sorted_entries (sd_Models doc))" "s \<in> set (sm_Servers sm)" using wanted_in w by fastforce
    then have "s \<in> fst ` set (sd_Servers doc)" using assms(2) by (auto simp: doc_ok_def models_ok_def)
    then obtain srv where "map_of (sd_Servers doc) s = Some srv" by (metis map_of_None_iff option.exhaust)
    then show ?thesis by (simp add: wanted_backend_def effectiveSource_def map_of_keyed source_backend_def)
      (simp add: effective_server_def Let_def)
  qed
  then show ?thesis by (simp add: normal_form_def effectiveSource_def sorted_entries_keyed [OF assms(1)] wanted_effective)
qed

lemma effective_models:
  assumes d: "distinct (map fst (sd_Models doc))" and c: "cf_Models cfg = map (\<lambda>(n, m). (n, model_defaults m)) (cf_Models (normal_form bn doc))"
  shows "map (\<lambda>(n, m). (n, model_defaults m)) (cf_Models (normal_form bn (effectiveSource doc cfg))) = cf_Models cfg"
proof -
  have "(case wanted_model bn (n, effective_model cfg n sm) of (n, m) \<Rightarrow> (n, model_defaults m)) = (case wanted_model bn (n, sm) of (n, m) \<Rightarrow> (n, model_defaults m))"
    if e: "(n, sm) \<in> set (sorted_entries (sd_Models doc))" for n sm
  proof -
    let ?m = "snd (wanted_model bn (n, sm))"
    have "fst \<circ> wanted_model bn = fst" by (auto simp: wanted_model_def)
    moreover have "distinct (map fst (sorted_entries (sd_Models doc)))" using d by (simp add: sorted_entries_def sortedModelKeys_def comp_def)
    ultimately have "map_of (cf_Models (normal_form bn doc)) n = Some ?m"
      using e by (intro map_of_is_SomeI) (auto simp: normal_form_def image_iff wanted_model_def intro!: bexI [of _ "(n, sm)"])
    then have "map_of (cf_Models cfg) n = Some (model_defaults ?m)" unfolding c by (simp add: map_of_keyed)
    then show ?thesis by (auto simp: wanted_model_def effective_model_def model_defaults_def comp_def or_str_def)
  qed
  then show ?thesis unfolding c by (auto simp: normal_form_def effectiveSource_def sorted_entries_keyed [OF d])
qed

section \<open>Properties\<close>

text \<open>
  C23: Normalization computes the document's meaning. A document is accepted exactly when it names servers and models,
  every limit is within its bounds, every model names servers that exist and each of them once, no two of the
  backends it makes share a name, and every server is used; the result has one backend for each server a model names,
  with the address, credential and limits of that server and the upstream name of that model, and the models refer to
  them in the order of the document.
\<close>

theorem normalize_exact:
  assumes "distinct (map fst (sd_Servers doc))" "distinct (map fst (sd_Models doc))"
  shows "normalizeSourceWith doc bn = Inr c \<longleftrightarrow> doc_ok bn doc \<and> c = normal_form bn doc"
  by (rule normalize_iff [OF assms])

text \<open>
  C24: The effective document means the same. What \<^verbatim>\<open>config show-effective\<close> reports for an accepted document is itself accepted,
  yields the same runtime configuration, and is its own effective document.
\<close>

theorem effective_roundtrip:
  assumes "distinct (map fst (sd_Servers doc))" "distinct (map fst (sd_Models doc))"
    and "parse_config sha256 sx doc = Inr (cfg, eff)"
  shows "parse_config sha256 sx eff = Inr (cfg, eff)"
proof -
  define bn where "bn = defaultBackendName sha256"
  have n: "doc_ok bn doc" and cfg: "cfg = applyDefaults (normal_form bn doc)" and v: "validate sx cfg = []" and eff: "eff = effectiveSource doc cfg"
    using assms(3) unfolding parse_config_def normalizeSource_def bn_def [symmetric]
    by (cases "normalizeSourceWith doc bn"; use normalize_iff [OF assms(1,2), of bn] in \<open>force simp: Let_def split: if_splits\<close>)+
  have k: "fst \<circ> (\<lambda>(n, s). (n, effective_server n s)) = fst" "fst \<circ> (\<lambda>(n, m). (n, effective_model cfg n m)) = fst" by auto
  then have d: "distinct (map fst (sd_Servers eff))" "distinct (map fst (sd_Models eff))" using assms(1,2) by (simp_all add: eff effectiveSource_def)
  have m: "cf_Models cfg = map (\<lambda>(n, m). (n, model_defaults m)) (cf_Models (normal_form bn doc))" by (simp add: cfg applyDefaults_def)
  have "applyDefaults (normal_form bn eff) = cfg"
    using effective_backends [OF assms(2) n, of cfg] effective_models [OF assms(2) m]
    by (simp add: eff cfg applyDefaults_def) (simp add: normal_form_def effectiveSource_def)
  moreover have "normalizeSource sha256 eff = Inr (normal_form bn eff)"
    using normalize_iff [OF d, of bn] effective_doc_ok [OF assms(1,2)] n by (simp add: normalizeSource_def bn_def eff)
  moreover have "effectiveSource eff cfg = eff"
    by (simp add: eff effectiveSource_def comp_def case_prod_beta)
  ultimately show ?thesis using v by (simp add: parse_config_def Let_def)
qed

subsection \<open>Witnesses\<close>

text \<open>One server, one model under another name, everything else left to the defaults.\<close>

definition ex_url :: url where
  "ex_url = \<lparr>u_Scheme = ''http'', u_User = False, u_Host = ''127.0.0.1:8000'', u_Path = [], u_RawQuery = [], u_Fragment = []\<rparr>"

definition ex_syntax :: net_syntax where
  "ex_syntax = \<lparr>sx_URL = (\<lambda>s. if s = ''http://127.0.0.1:8000'' then Some ex_url else None),
     sx_Addr = (\<lambda>s. if s = ''127.0.0.1'' then Some (Addr4 [127, 0, 0, 1]) else None), sx_Prefix = (\<lambda>_. None), sx_CIDR = (\<lambda>_. None)\<rparr>"

definition ex_source :: source_server where
  "ex_source = \<lparr>ss_URL = ''http://127.0.0.1:8000'', ss_APIKeyFile = [], ss_RelayUpstreamErrors = False, ss_MaxConcurrency = None,
     ss_QueueSize = Some 0, ss_QueueTimeout = None\<rparr>"

definition ex_doc :: source_doc where
  "ex_doc = \<lparr>sd_Version = 1,
     sd_Server = \<lparr>sv_Listen = \<lparr>l_Network = ''tcp'', l_Address = ''127.0.0.1:80'', l_Mode = []\<rparr>, sv_TLS = \<lparr>t_CertFile = [], t_KeyFile = []\<rparr>,
       sv_MaxHeaderBytes = 0, sv_MaxBodyBytes = 64, sv_MaxResponseBytes = 64, sv_MaxInflightRequests = 0, sv_MaxBufferedRequestBytes = 640, sv_MaxConnections = 0,
       sv_ReadHeaderTimeout = 0, sv_ReadBodyTimeout = 0, sv_IdleTimeout = 0, sv_StreamIdleTimeout = 0, sv_StreamWriteTimeout = 0,
       sv_AllowPlaintextNonLoopback = False, sv_AdminSocket = [], sv_TrustedProxies = []\<rparr>,
     sd_Auth = \<lparr>au_UsersFile = [], au_PepperFile = []\<rparr>,
     sd_Security = \<lparr>sc_BackendNetwork = \<lparr>bn_Mode = [], bn_CIDRs = []\<rparr>, sc_Landlock = \<lparr>ll_Mode = [], ll_MinimumABI = 0\<rparr>, sc_Seatbelt_Mode = []\<rparr>,
     sd_Logging = \<lparr>lg_Format = [], lg_Level = []\<rparr>,
     sd_Accounting = \<lparr>ac_Enabled = False, ac_Path = [], ac_EnsureStreamUsage = None, ac_ReplayOnStart = None, ac_ReplayMaxBytes = 0, ac_QueueSize = 0,
       ac_Overflow = [], ac_FSync = [], ac_FSyncInterval = 0, ac_UnknownUsageReservation = 7\<rparr>,
     sd_Limits = \<lparr>lm_GlobalRequestsPerSecond = Fin 0, lm_GlobalBurst = 0, lm_PreauthRequestsPerSecond = Fin 0, lm_PreauthBurst = 0, lm_AuthFailureLogRate = Fin 0\<rparr>,
     sd_GracePeriod = 0, sd_Responses = \<lparr>rs_AffinityTTL = 0, rs_MaxAffinityEntries = 0\<rparr>,
     sd_Retry = \<lparr>rt_MaxAttempts = 0, rt_InitialBackoff = 0, rt_MaxBackoff = 0, rt_Jitter = None\<rparr>,
     sd_Servers = [(''gpu'', ex_source)],
     sd_Models = [(''m'', \<lparr>sm_Type = ''embedding'', sm_Strategy = [], sm_MaxOutputTokens = 0, sm_Servers = [''gpu''], sm_UpstreamModel = ''up''\<rparr>)]\<rparr>"

definition ex_sha :: "bytes \<Rightarrow> bytes" where "ex_sha b = replicate 32 (CHR ''a'')"

theorem normalize_exact_witness:
  "normalizeSourceWith ex_doc (\<lambda>m s. m @ s) = Inr (normal_form (\<lambda>m s. m @ s) ex_doc) \<and> map fst (cf_Backends (normal_form (\<lambda>m s. m @ s) ex_doc)) = [''mgpu'']"
proof -
  have "distinct (map fst (sd_Servers ex_doc))" "distinct (map fst (sd_Models ex_doc))" by (simp_all add: ex_doc_def)
  moreover have "doc_ok (\<lambda>m s. m @ s) ex_doc" "map fst (cf_Backends (normal_form (\<lambda>m s. m @ s) ex_doc)) = [''mgpu'']"
    by code_simp+
  ultimately show ?thesis using normalize_exact [of ex_doc "\<lambda>m s. m @ s" "normal_form (\<lambda>m s. m @ s) ex_doc"] by simp
qed

lemma ex_parsed: "\<exists>cfg eff. parse_config ex_sha ex_syntax ex_doc = Inr (cfg, eff)"
proof -
  have "\<not> isl (parse_config ex_sha ex_syntax ex_doc)" by code_simp
  then show ?thesis by (cases "parse_config ex_sha ex_syntax ex_doc") auto
qed

theorem effective_roundtrip_witness:
  "\<exists>cfg eff. parse_config ex_sha ex_syntax ex_doc = Inr (cfg, eff) \<and> parse_config ex_sha ex_syntax eff = Inr (cfg, eff)"
proof -
  have "distinct (map fst (sd_Servers ex_doc))" "distinct (map fst (sd_Models ex_doc))" by (simp_all add: ex_doc_def)
  with ex_parsed effective_roundtrip [of ex_doc ex_sha ex_syntax] show ?thesis by blast
qed

text \<open>The configuration that the example document is read into.\<close>

definition ex_upstream :: backend_cfg where
  "ex_upstream = \<lparr>be_Server = ''gpu'', be_BaseURL = ''http://127.0.0.1:8000'', be_UpstreamModel = ''up'', be_APIKeyFile = [],
     be_ConnectTimeout = 3000000000, be_HeaderTimeout = 300000000000, be_RequestTimeout = 1800000000000, be_StreamIdleTimeout = 120000000000,
     be_MaxConcurrency = 8, be_QueueSize = 0, be_QueueTimeout = 120000000000, be_RelayUpstreamErrors = False\<rparr>"

definition ex_conf :: config where
  "ex_conf = \<lparr>cf_Version = 1,
     cf_Server = \<lparr>sv_Listen = \<lparr>l_Network = ''tcp'', l_Address = ''127.0.0.1:80'', l_Mode = []\<rparr>, sv_TLS = \<lparr>t_CertFile = [], t_KeyFile = []\<rparr>,
       sv_MaxHeaderBytes = 32768, sv_MaxBodyBytes = 64, sv_MaxResponseBytes = 64, sv_MaxInflightRequests = 64,
       sv_MaxBufferedRequestBytes = 640, sv_MaxConnections = 1024, sv_ReadHeaderTimeout = 5000000000, sv_ReadBodyTimeout = Minute,
       sv_IdleTimeout = 120000000000, sv_StreamIdleTimeout = 120000000000, sv_StreamWriteTimeout = 30000000000,
       sv_AllowPlaintextNonLoopback = False, sv_AdminSocket = [], sv_TrustedProxies = []\<rparr>,
     cf_Auth = \<lparr>au_UsersFile = ''/etc/mellomting/users.yaml'', au_PepperFile = ''/etc/mellomting/auth.pepper''\<rparr>,
     cf_Security = \<lparr>sc_BackendNetwork = \<lparr>bn_Mode = ''loopback-only'', bn_CIDRs = []\<rparr>,
       sc_Landlock = \<lparr>ll_Mode = ''best-effort'', ll_MinimumABI = 6\<rparr>, sc_Seatbelt_Mode = ''best-effort''\<rparr>,
     cf_Logging = \<lparr>lg_Format = ''json'', lg_Level = ''info''\<rparr>,
     cf_Accounting = \<lparr>ac_Enabled = False, ac_Path = [], ac_EnsureStreamUsage = None, ac_ReplayOnStart = None, ac_ReplayMaxBytes = 0,
       ac_QueueSize = 0, ac_Overflow = [], ac_FSync = [], ac_FSyncInterval = 0, ac_UnknownUsageReservation = 7\<rparr>,
     cf_Limits = \<lparr>lm_GlobalRequestsPerSecond = Fin 100, lm_GlobalBurst = 200, lm_PreauthRequestsPerSecond = Fin 100, lm_PreauthBurst = 200,
       lm_AuthFailureLogRate = Fin 1\<rparr>,
     cf_GracePeriod = 30000000000, cf_Responses = \<lparr>rs_AffinityTTL = 7200000000000, rs_MaxAffinityEntries = 10000\<rparr>,
     cf_Retry = \<lparr>rt_MaxAttempts = 1, rt_InitialBackoff = 100000000, rt_MaxBackoff = Second, rt_Jitter = None\<rparr>,
     cf_Backends = [(''auto-gpu-616161616161'', ex_upstream)],
     cf_Models = [(''m'', \<lparr>mo_Type = ''embedding'', mo_Strategy = ''single'', mo_MaxOutputTokens = 0,
       mo_Backends = [\<lparr>br_Name = ''auto-gpu-616161616161'', br_Weight = 1\<rparr>]\<rparr>)]\<rparr>"

lemma ex_conf_parsed: "\<exists>eff. parse_config ex_sha ex_syntax ex_doc = Inr (ex_conf, eff)"
proof -
  have "map_sum id fst (parse_config ex_sha ex_syntax ex_doc) = Inr ex_conf" by code_simp
  then show ?thesis by (cases "parse_config ex_sha ex_syntax ex_doc") auto
qed

end
