(* ===== verification/Securefile.thy ===== *)
theory Securefile
  imports Prelude
begin

text \<open>
  Sensitive files (\<^verbatim>\<open>src/internal/securefile\<close>): the guarded read (\<^verbatim>\<open>securefile.go\<close>) and the atomic replacement (\<^verbatim>\<open>replace.go\<close>).

  The file system is a table of names over a table of files. \<open>replace\<close> yields the states it leads through, one for each
  call that changes the file system, so that a crash between two calls is a prefix of the list. What the kernel answers
  is the environment.
\<close>

unbundle bit_operations_syntax

section \<open>Definitions\<close>

subsection \<open>Reading\<close>

datatype file_kind = RegularFile | SymbolicLink | OtherKind

record file_node =
  fn_kind :: file_kind
  fn_perm :: nat
  fn_uid :: int
  fn_gid :: int
  fn_data :: bytes
  fn_synced :: bool

definition DefaultMaxSize :: int where "DefaultMaxSize = 2 ^ 20"

definition WorldAccessible :: "nat \<Rightarrow> bool" where
  "WorldAccessible perm \<longleftrightarrow> perm AND 7 \<noteq> 0"

datatype read_refusal = OpenFailed | NotRegular | TooPermissive nat | ReadFailed | TooLarge int

text \<open>
  \<open>opened\<close> is what the open with \<^verbatim>\<open>O_NOFOLLOW\<close> yields, \<open>None\<close> for an error, which it is for a symbolic link; \<open>readOK\<close>
  says whether the content can be read.
\<close>

definition read_file :: "file_node option \<Rightarrow> bool \<Rightarrow> int \<Rightarrow> bool \<Rightarrow> read_refusal + bytes" where
  "read_file opened readOK maxBytes rejectWorldAccessible =
     (let mx = (if maxBytes \<le> 0 then DefaultMaxSize else maxBytes) in
      case opened of
        None \<Rightarrow> Inl OpenFailed
      | Some f \<Rightarrow>
          if fn_kind f \<noteq> RegularFile then Inl NotRegular
          else if rejectWorldAccessible \<and> WorldAccessible (fn_perm f) then Inl (TooPermissive (fn_perm f))
          else if \<not> readOK then Inl ReadFailed
          else let data = take (nat (mx + 1)) (fn_data f)
               in if mx < int (length data) then Inl (TooLarge mx) else Inr data)"

definition Read :: "file_node option \<Rightarrow> bool \<Rightarrow> int \<Rightarrow> read_refusal + bytes" where
  "Read opened readOK maxBytes = read_file opened readOK maxBytes True"

definition ReadPublic :: "file_node option \<Rightarrow> bool \<Rightarrow> int \<Rightarrow> read_refusal + bytes" where
  "ReadPublic opened readOK maxBytes = read_file opened readOK maxBytes False"

subsection \<open>Replacing\<close>

record fsys =
  fs_names :: "string \<rightharpoonup> nat"
  fs_nodes :: "nat \<Rightarrow> file_node"

definition lstat :: "fsys \<Rightarrow> string \<Rightarrow> file_node option" where
  "lstat fs path = map_option (fs_nodes fs) (fs_names fs path)"

definition on_node :: "nat \<Rightarrow> (file_node \<Rightarrow> file_node) \<Rightarrow> fsys \<Rightarrow> fsys" where
  "on_node i f fs = fs\<lparr>fs_nodes := (fs_nodes fs)(i := f (fs_nodes fs i))\<rparr>"

text \<open>
  The answers of the kernel: the error of \<^verbatim>\<open>Lstat\<close> other than absence, the temporary file of \<^verbatim>\<open>CreateTemp\<close> with its name and
  its place in the table of files, the group of the directory, the caller's user and group, the bytes that \<^verbatim>\<open>write\<close> puts
  and whether it reports success, and the success of each later call.
\<close>

record replace_env =
  rp_statError :: bool
  rp_temp :: "(string \<times> nat) option"
  rp_dirGid :: "int option"
  rp_uid :: int
  rp_egid :: int
  rp_chown :: bool
  rp_data :: bytes
  rp_write :: bool
  rp_sync :: bool
  rp_chmod :: bool
  rp_close :: bool
  rp_rename :: bool
  rp_remove :: bool

definition ServiceGroup :: "int \<Rightarrow> int \<Rightarrow> int option" where
  "ServiceGroup dirGid egid = (if dirGid = egid then None else Some dirGid)"

definition dirGroup :: "replace_env \<Rightarrow> int option" where
  "dirGroup env = (case rp_dirGid env of None \<Rightarrow> None | Some g \<Rightarrow> ServiceGroup g (rp_egid env))"

datatype replace_error = IsSymlink | NotRegularFile | StatFailed | NoTemp | WriteFailed | SyncFailed | ChmodFailed | CloseFailed | RenameFailed

definition create_temp :: "replace_env \<Rightarrow> string \<Rightarrow> nat \<Rightarrow> fsys \<Rightarrow> fsys" where
  "create_temp env tmp i fs =
     fs\<lparr>fs_names := (fs_names fs)(tmp \<mapsto> i),
        fs_nodes := (fs_nodes fs)(i := \<lparr>fn_kind = RegularFile, fn_perm = 384, fn_uid = rp_uid env, fn_gid = rp_egid env, fn_data = [], fn_synced = False\<rparr>)\<rparr>"

definition remove_temp :: "replace_env \<Rightarrow> string \<Rightarrow> fsys \<Rightarrow> fsys" where
  "remove_temp env tmp fs = (if rp_remove env then fs\<lparr>fs_names := (fs_names fs)(tmp := None)\<rparr> else fs)"

text \<open>The mode the result takes and the owner of the temporary file, by whether there is a file to preserve.\<close>

definition adopt_owner :: "replace_env \<Rightarrow> file_node option \<Rightarrow> nat \<Rightarrow> nat \<Rightarrow> nat \<Rightarrow> fsys \<Rightarrow> nat \<times> fsys" where
  "adopt_owner env existing mode clamp i fs =
     (if clamp = 0 then (mode, fs)
      else case existing of
        Some f \<Rightarrow> (fn_perm f AND clamp, if rp_chown env then on_node i (\<lambda>n. n\<lparr>fn_uid := fn_uid f, fn_gid := fn_gid f\<rparr>) fs else fs)
      | None \<Rightarrow>
          (case dirGroup env of
             Some g \<Rightarrow> if rp_chown env then ((mode OR 32) AND clamp, on_node i (\<lambda>n. n\<lparr>fn_gid := g\<rparr>) fs) else (mode, fs)
           | None \<Rightarrow> (mode, fs)))"

text \<open>From \<^verbatim>\<open>CreateTemp\<close> on; a failure removes the temporary file.\<close>

definition replace_with :: "replace_env \<Rightarrow> string \<Rightarrow> file_node option \<Rightarrow> nat \<Rightarrow> nat \<Rightarrow> fsys \<Rightarrow> fsys list \<times> (replace_error + unit)" where
  "replace_with env path existing mode clamp fs =
     (case rp_temp env of
        None \<Rightarrow> ([], Inl NoTemp)
      | Some (tmp, i) \<Rightarrow>
          (let s1 = create_temp env tmp i fs;
               (m, s2) = adopt_owner env existing mode clamp i s1;
               s3 = on_node i (\<lambda>n. n\<lparr>fn_data := rp_data env, fn_synced := False\<rparr>) s2;
               s4 = on_node i (\<lambda>n. n\<lparr>fn_synced := True\<rparr>) s3;
               s5 = on_node i (\<lambda>n. n\<lparr>fn_perm := m\<rparr>) s4;
               s6 = s5\<lparr>fs_names := (fs_names s5)(tmp := None, path \<mapsto> i)\<rparr>
           in if \<not> rp_write env then ([s1, s2, s3, remove_temp env tmp s3], Inl WriteFailed)
              else if \<not> rp_sync env then ([s1, s2, s3, remove_temp env tmp s3], Inl SyncFailed)
              else if \<not> rp_chmod env then ([s1, s2, s3, s4, remove_temp env tmp s4], Inl ChmodFailed)
              else if \<not> rp_close env then ([s1, s2, s3, s4, s5, remove_temp env tmp s5], Inl CloseFailed)
              else if \<not> rp_rename env then ([s1, s2, s3, s4, s5, remove_temp env tmp s5], Inl RenameFailed)
              else ([s1, s2, s3, s4, s5, s6], Inr ())))"

definition replace :: "replace_env \<Rightarrow> string \<Rightarrow> nat \<Rightarrow> nat \<Rightarrow> fsys \<Rightarrow> fsys list \<times> (replace_error + unit)" where
  "replace env path mode clamp fs =
     (if rp_statError env then ([], Inl StatFailed)
      else case lstat fs path of
        Some f \<Rightarrow> (if fn_kind f = SymbolicLink then ([], Inl IsSymlink) else if fn_kind f \<noteq> RegularFile then ([], Inl NotRegularFile)
                   else replace_with env path (Some f) mode clamp fs)
      | None \<Rightarrow> replace_with env path None mode clamp fs)"

definition Replace :: "replace_env \<Rightarrow> string \<Rightarrow> nat \<Rightarrow> fsys \<Rightarrow> fsys list \<times> (replace_error + unit)" where
  "Replace env path mode fs = replace env path mode 0 fs"

definition ReplacePreservingOwner :: "replace_env \<Rightarrow> string \<Rightarrow> nat \<Rightarrow> nat \<Rightarrow> fsys \<Rightarrow> fsys list \<times> (replace_error + unit)" where
  "ReplacePreservingOwner env path mode clamp fs = replace env path mode clamp fs"

section \<open>Lemmas\<close>

definition new_file :: "replace_env \<Rightarrow> nat \<Rightarrow> file_node \<Rightarrow> bool" where
  "new_file env m f \<longleftrightarrow> fn_kind f = RegularFile \<and> fn_data f = rp_data env \<and> fn_synced f \<and> fn_perm f = m"

text \<open>What a state shares with the first one: every name but the temporary one, and every file but the new one.\<close>

definition only_temp :: "string \<Rightarrow> nat \<Rightarrow> fsys \<Rightarrow> fsys \<Rightarrow> bool" where
  "only_temp tmp i fs s \<longleftrightarrow> (\<forall>p. p \<noteq> tmp \<longrightarrow> fs_names s p = fs_names fs p) \<and> (\<forall>j. j \<noteq> i \<longrightarrow> fs_nodes s j = fs_nodes fs j)"

lemma only_temp_steps:
  "only_temp tmp i fs (create_temp env tmp i fs)"
  "only_temp tmp i fs s \<Longrightarrow> only_temp tmp i fs (on_node i f s)"
  "only_temp tmp i fs s \<Longrightarrow> only_temp tmp i fs (remove_temp env tmp s)"
  "only_temp tmp i fs s \<Longrightarrow> only_temp tmp i fs (snd (adopt_owner env existing mode clamp i s))"
  by (auto simp: only_temp_def create_temp_def on_node_def remove_temp_def adopt_owner_def split: option.splits)

lemma only_temp_lstat:
  "only_temp tmp i fs s \<Longrightarrow> p \<noteq> tmp \<Longrightarrow> i \<notin> ran (fs_names fs) \<Longrightarrow> lstat s p = lstat fs p"
  by (cases "fs_names fs p") (auto simp: only_temp_def lstat_def ran_def)

lemma adopt_names [simp]: "fs_names (snd (adopt_owner env existing mode clamp i s)) = fs_names s"
  by (simp add: adopt_owner_def on_node_def split: option.splits)

lemma adopt_kind [simp]: "fn_kind (fs_nodes (snd (adopt_owner env existing mode clamp i s)) i) = fn_kind (fs_nodes s i)"
  by (simp add: adopt_owner_def on_node_def split: option.splits)

text \<open>The states of a replacement: the temporary file is all that changes, until the last step of a success.\<close>

lemma replace_with_states:
  assumes "replace_with env path existing mode clamp fs = (states, r)" "rp_temp env = Some (tmp, i)" "fs_names fs tmp = None"
  shows "\<exists>before. (\<forall>s \<in> set before. only_temp tmp i fs s) \<and>
    (case r of
       Inl e \<Rightarrow> states = before \<and> before \<noteq> [] \<and> (rp_remove env \<longrightarrow> fs_names (last before) = fs_names fs)
     | Inr _ \<Rightarrow> \<exists>s5 s6. states = before @ [s6] \<and> only_temp tmp i fs s5 \<and> s6 = s5\<lparr>fs_names := (fs_names s5)(tmp := None, path \<mapsto> i)\<rparr> \<and>
         rp_write env \<and> new_file env (fst (adopt_owner env existing mode clamp i (create_temp env tmp i fs))) (fs_nodes s5 i))"
proof -
  define s1 where "s1 = create_temp env tmp i fs"
  obtain m s2 where a: "adopt_owner env existing mode clamp i (create_temp env tmp i fs) = (m, s2)" by (rule prod.exhaust)
  then have s2_def: "s2 = snd (adopt_owner env existing mode clamp i (create_temp env tmp i fs))" by simp
  define s3 where "s3 = on_node i (\<lambda>n. n\<lparr>fn_data := rp_data env, fn_synced := False\<rparr>) (s2)"
  define s4 where "s4 = on_node i (\<lambda>n. n\<lparr>fn_synced := True\<rparr>) s3"
  define s5 where "s5 = on_node i (\<lambda>n. n\<lparr>fn_perm := m\<rparr>) s4"
  note defs = s1_def s2_def s3_def s4_def s5_def
  have o: "only_temp tmp i fs s1" "only_temp tmp i fs (s2)" "only_temp tmp i fs s3" "only_temp tmp i fs s4" "only_temp tmp i fs s5"
    by (simp_all add: defs only_temp_steps)
  have rm: "rp_remove env \<Longrightarrow> fs_names (remove_temp env tmp s3) = fs_names fs" "rp_remove env \<Longrightarrow> fs_names (remove_temp env tmp s4) = fs_names fs"
      "rp_remove env \<Longrightarrow> fs_names (remove_temp env tmp s5) = fs_names fs"
    using assms(3) by (auto simp: remove_temp_def defs on_node_def create_temp_def)
  have n: "new_file env (m) (fs_nodes s5 i)"
    by (simp add: new_file_def s3_def s4_def s5_def on_node_def) (simp add: s2_def create_temp_def)
  have e: "replace_with env path existing mode clamp fs =
      (if \<not> rp_write env then ([s1, s2, s3, remove_temp env tmp s3], Inl WriteFailed)
       else if \<not> rp_sync env then ([s1, s2, s3, remove_temp env tmp s3], Inl SyncFailed)
       else if \<not> rp_chmod env then ([s1, s2, s3, s4, remove_temp env tmp s4], Inl ChmodFailed)
       else if \<not> rp_close env then ([s1, s2, s3, s4, s5, remove_temp env tmp s5], Inl CloseFailed)
       else if \<not> rp_rename env then ([s1, s2, s3, s4, s5, remove_temp env tmp s5], Inl RenameFailed)
       else ([s1, s2, s3, s4, s5, s5\<lparr>fs_names := (fs_names s5)(tmp := None, path \<mapsto> i)\<rparr>], Inr ()))"
    by (simp only: replace_with_def assms(2) option.case prod.case Let_def a s1_def s3_def s4_def s5_def)
  show ?thesis
  proof (cases r)
    case (Inl x)
    then consider "states = [s1, s2, s3, remove_temp env tmp s3]" | "states = [s1, s2, s3, s4, remove_temp env tmp s4]"
        | "states = [s1, s2, s3, s4, s5, remove_temp env tmp s5]"
      using assms(1) e by (auto split: if_splits)
    then show ?thesis
      by cases (rule exI [of _ states]; simp add: Inl o only_temp_steps(3) rm)+
  next
    case (Inr u)
    then have "states = [s1, s2, s3, s4, s5, s5\<lparr>fs_names := (fs_names s5)(tmp := None, path \<mapsto> i)\<rparr>]" "rp_write env"
      using assms(1) e by (auto split: if_splits)
    then show ?thesis using Inr o n by (intro exI [of _ "[s1, s2, s3, s4, s5]"]) (auto simp: a)
  qed
qed

section \<open>Properties\<close>

text \<open>
  C25: A replacement is all or nothing, also across a crash. \<^verbatim>\<open>CreateTemp\<close> makes a file that was not there before. Then in every
  state that a replacement leads through, the name either stands for the file it stood for, unchanged, or for a regular file
  that holds everything the writer put, written to disk, with its final mode; every other name than the temporary one is as it
  was. A success ends in the new file. A failure ends in the old one, with the temporary name gone when it can be removed. A
  file whose owner is preserved never gets a mode wider than it had.
\<close>

theorem replace_atomic:
  assumes "replace env path mode clamp fs = (states, r)"
    and "rp_temp env = Some (tmp, i)" "fs_names fs tmp = None" "i \<notin> ran (fs_names fs)" "tmp \<noteq> path"
  shows "(\<forall>s \<in> set states. lstat s path = lstat fs path \<or> (\<exists>f m. lstat s path = Some f \<and> rp_write env \<and> new_file env m f)) \<and>
    (\<forall>s \<in> set states. \<forall>p. p \<noteq> path \<longrightarrow> p \<noteq> tmp \<longrightarrow> lstat s p = lstat fs p) \<and>
    (case r of
       Inl _ \<Rightarrow> lstat (last (fs # states)) path = lstat fs path \<and> (rp_remove env \<longrightarrow> fs_names (last (fs # states)) = fs_names fs)
     | Inr _ \<Rightarrow> \<exists>f m. lstat (last (fs # states)) path = Some f \<and> new_file env m f \<and>
         (case lstat fs path of Some old \<Rightarrow> clamp \<noteq> 0 \<longrightarrow> m = fn_perm old AND clamp | None \<Rightarrow> True))"
proof (cases "states = [] \<and> (\<exists>e. r = Inl e)")
  case True
  then show ?thesis by auto
next
  case False
  have w: "replace_with env path (lstat fs path) mode clamp fs = (states, r)"
    using assms(1) False by (auto simp: replace_def split: if_splits option.splits)
  obtain before where d: "\<forall>s \<in> set before. only_temp tmp i fs s" and c: "case r of
       Inl e \<Rightarrow> states = before \<and> before \<noteq> [] \<and> (rp_remove env \<longrightarrow> fs_names (last before) = fs_names fs)
     | Inr _ \<Rightarrow> \<exists>s5 s6. states = before @ [s6] \<and> only_temp tmp i fs s5 \<and> s6 = s5\<lparr>fs_names := (fs_names s5)(tmp := None, path \<mapsto> i)\<rparr> \<and>
         rp_write env \<and> new_file env (fst (adopt_owner env (lstat fs path) mode clamp i (create_temp env tmp i fs))) (fs_nodes s5 i)"
    using replace_with_states [OF w assms(2,3)] by blast
  have l: "lstat s p = lstat fs p" if "s \<in> set before" "p \<noteq> tmp" for s p using only_temp_lstat [of tmp i fs s p] d that assms(4) by blast
  show ?thesis
  proof (cases r)
    case (Inl e)
    then show ?thesis using c l assms(5) by auto
  next
    case (Inr u)
    with c obtain s5 s6 where s: "states = before @ [s6]" "only_temp tmp i fs s5" "s6 = s5\<lparr>fs_names := (fs_names s5)(tmp := None, path \<mapsto> i)\<rparr>" "rp_write env"
      and n: "new_file env (fst (adopt_owner env (lstat fs path) mode clamp i (create_temp env tmp i fs))) (fs_nodes s5 i)" by auto
    have p6: "lstat s6 path = Some (fs_nodes s5 i)" by (simp add: s(3) lstat_def)
    have o6: "lstat s6 p = lstat fs p" if "p \<noteq> path" "p \<noteq> tmp" for p
      using only_temp_lstat [OF s(2) that(2) assms(4)] that by (simp add: s(3) lstat_def)
    have m: "case lstat fs path of Some old \<Rightarrow> clamp \<noteq> 0 \<longrightarrow> fst (adopt_owner env (lstat fs path) mode clamp i (create_temp env tmp i fs)) = fn_perm old AND clamp | None \<Rightarrow> True"
      by (simp add: adopt_owner_def split: option.splits)
    show ?thesis using Inr s(1,4) p6 o6 n m l assms(5) by auto
  qed
qed

text \<open>
  What a guarded read lets through. The content of a file is returned exactly when it could be opened without following a
  link, is a regular file with no permission for others, can be read, and is not larger than the bound; then it is returned
  whole. Permissions of the group are not looked at.
\<close>

theorem read_exact:
  assumes "0 < maxBytes"
  shows "Read opened readOK maxBytes = Inr d \<longleftrightarrow>
     (\<exists>f. opened = Some f \<and> fn_kind f = RegularFile \<and> fn_perm f AND 7 = 0 \<and> readOK \<and> int (length (fn_data f)) \<le> maxBytes \<and> d = fn_data f)"
proof -
  have "maxBytes < int (length (take (nat (maxBytes + 1)) xs)) \<longleftrightarrow> maxBytes < int (length xs)" for xs :: bytes
    using assms by auto
  moreover have "\<not> maxBytes < int (length xs) \<Longrightarrow> take (nat (maxBytes + 1)) xs = xs" for xs :: bytes
    by simp
  ultimately show ?thesis
    using assms by (auto simp: Read_def read_file_def WorldAccessible_def Let_def split: option.splits)
qed

subsection \<open>Witnesses\<close>

definition ex_file :: file_node where
  "ex_file = \<lparr>fn_kind = RegularFile, fn_perm = 416, fn_uid = 0, fn_gid = 7, fn_data = ''old'', fn_synced = True\<rparr>"

definition ex_fs :: fsys where
  "ex_fs = \<lparr>fs_names = [''users.yaml'' \<mapsto> 1], fs_nodes = (\<lambda>_. ex_file)\<rparr>"

definition ex_replace :: replace_env where
  "ex_replace = \<lparr>rp_statError = False, rp_temp = Some (''.tmp'', 2), rp_dirGid = None, rp_uid = 0, rp_egid = 0, rp_chown = True, rp_data = ''new'',
     rp_write = True, rp_sync = True, rp_chmod = True, rp_close = True, rp_rename = True, rp_remove = True\<rparr>"

theorem replace_atomic_witness:
  "\<exists>f. lstat (last (ex_fs # fst (replace ex_replace ''users.yaml'' 384 416 ex_fs))) ''users.yaml'' = Some f \<and> fn_data f = ''new''"
proof -
  have "lstat ex_fs ''users.yaml'' = Some ex_file" by (simp add: lstat_def ex_fs_def)
  then have e: "replace ex_replace ''users.yaml'' 384 416 ex_fs = replace_with ex_replace ''users.yaml'' (Some ex_file) 384 416 ex_fs"
    by (simp add: replace_def ex_replace_def ex_file_def)
  have w: "rp_write ex_replace" "rp_sync ex_replace" "rp_chmod ex_replace" "rp_close ex_replace" "rp_rename ex_replace" "rp_temp ex_replace = Some (''.tmp'', 2)"
    by (simp_all add: ex_replace_def)
  have "snd (replace_with ex_replace ''users.yaml'' (Some ex_file) 384 416 ex_fs) = Inr ()"
    unfolding replace_with_def w by (simp add: w Let_def split_beta)
  then obtain st where st: "replace ex_replace ''users.yaml'' 384 416 ex_fs = (st, Inr ())" unfolding e by (metis prod.collapse)
  have n: "fs_names ex_fs ''.tmp'' = None" "2 \<notin> ran (fs_names ex_fs)" "''.tmp'' \<noteq> ''users.yaml''" and d: "rp_data ex_replace = ''new''"
    by (auto simp: ex_fs_def ran_def ex_replace_def split: if_splits)
  obtain f m where "lstat (last (ex_fs # st)) ''users.yaml'' = Some f" "new_file ex_replace m f"
    using replace_atomic [OF st w(6) n, THEN conjunct2, THEN conjunct2] unfolding sum.case by blast
  then show ?thesis unfolding st fst_conv using d by (simp only: new_file_def) blast
qed

theorem read_exact_witness: "Read (Some ex_file) True 4096 = Inr ''old''"
  using read_exact [of 4096 "Some ex_file" True "''old''"] by (simp add: ex_file_def)

end
