(* ===== verification/Serve.thy ===== *)
theory Serve
  imports HttpApi Validate Securefile
begin

text \<open>
  The daemon (\<^verbatim>\<open>src/cmd/mellomting/serve.go\<close>): wiring the components from an accepted configuration, the sandbox gate, the
  ingress socket, the connection counter and the reload of the users file; with what it reads through
  \<^verbatim>\<open>src/internal/tlsconfig/tls.go\<close>, \<^verbatim>\<open>src/internal/logging/logging.go\<close> and the policy of \<^verbatim>\<open>src/internal/sandbox/sandbox.go\<close>.

  What the operating system answers is the environment of each definition. Logging is left out.
\<close>

section \<open>Definitions\<close>

subsection \<open>Token quotas\<close>

definition quotaKeysConfigured :: "key list \<Rightarrow> bool" where
  "quotaKeysConfigured ks = list_ex (\<lambda>k. 0 < TokensPerHour (Limits k) \<or> 0 < TokensPerDay (Limits k)) ks"

datatype quota_refusal = SettingsWithoutQuota | UncountedModels "string list"

definition checkQuotaEnforceable :: "config \<Rightarrow> users_file \<Rightarrow> quota_refusal + unit" where
  "checkQuotaEnforceable cfg users =
     (let hasQuota = quotaKeysConfigured (Keys users); a = cf_Accounting cfg in
      if \<not> ac_Enabled a \<and> \<not> hasQuota \<and> (ac_EnsureStreamUsage a \<noteq> None \<or> ac_UnknownUsageReservation a \<noteq> 0)
      then Inl SettingsWithoutQuota
      else if \<not> hasQuota \<or> ac_UnknownUsageReservation a \<noteq> 0 then Inr ()
      else let uncounted = map fst (filter (\<lambda>(n, m). mo_Type m = ''embedding'' \<or> mo_MaxOutputTokens m = 0) (cf_Models cfg))
           in if uncounted = [] then Inr () else Inl (UncountedModels (sort uncounted)))"

subsection \<open>The sandbox gate\<close>

text \<open>\<^verbatim>\<open>filepath.Dir\<close>: the path up to its last separator, cleaned.\<close>

fun clean_parts :: "bool \<Rightarrow> string list \<Rightarrow> string list \<Rightarrow> string list" where
  "clean_parts rooted stack [] = rev stack"
| "clean_parts rooted stack (p # ps) =
     (if p = [] \<or> p = ''.'' then clean_parts rooted stack ps
      else if p = ''..'' then
        (case stack of
           t # ts \<Rightarrow> if t \<noteq> ''..'' then clean_parts rooted ts ps else clean_parts rooted (p # stack) ps
         | [] \<Rightarrow> if rooted then clean_parts rooted [] ps else clean_parts rooted [p] ps)
      else clean_parts rooted (p # stack) ps)"

definition path_Clean :: "string \<Rightarrow> string" where
  "path_Clean path =
     (let rooted = has_prefix path ''/''; body = join_with (CHR ''/'') (clean_parts rooted [] (split_on (CHR ''/'') path))
      in if rooted then CHR ''/'' # body else if body = [] then ''.'' else body)"

definition path_Dir :: "string \<Rightarrow> string" where
  "path_Dir path = path_Clean (case last_index_byte (CHR ''/'') path of Some i \<Rightarrow> take (i + 1) path | None \<Rightarrow> [])"

datatype net_addr = UnixAddr string | TCPAddr int | OtherAddr

datatype sandbox_listener = UnixPath string | TCPPort int

record sandbox_policy =
  sp_ReadPaths :: "string list"
  sp_WriteFiles :: "string list"
  sp_ConnectTCP :: "nat list"
  sp_Listeners :: "sandbox_listener list"

definition backendBaseURLs :: "config \<Rightarrow> string list" where
  "backendBaseURLs cfg = map (\<lambda>(n, b). be_BaseURL b) (cf_Backends cfg)"

fun listener_of :: "net_addr \<Rightarrow> sandbox_listener list" where
  "listener_of (UnixAddr name) = [UnixPath name]"
| "listener_of (TCPAddr port) = [TCPPort (port mod 65536)]"
| "listener_of OtherAddr = []"

definition sandboxPolicy :: "(string \<Rightarrow> url option) \<Rightarrow> config \<Rightarrow> net_addr list \<Rightarrow> string + sandbox_policy" where
  "sandboxPolicy urlParse cfg listeners =
     bind_sum (BackendPorts urlParse (backendBaseURLs cfg)) (\<lambda>ports.
       Inr \<lparr>sp_ReadPaths = [path_Dir (au_UsersFile (cf_Auth cfg))],
            sp_WriteFiles = (if ac_Enabled (cf_Accounting cfg) then [ac_Path (cf_Accounting cfg)] else []),
            sp_ConnectTCP = ports, sp_Listeners = concat (map listener_of listeners)\<rparr>)"

record sandbox_report =
  rpt_Supported :: bool
  rpt_KernelABI :: int
  rpt_Reason :: string

text \<open>One platform's mechanism: its section's mode, its probe, its floor, and whether the kernel takes the policy.\<close>

record sandbox_backend =
  sb_name :: string
  sb_mode :: string
  sb_check :: sandbox_report
  sb_ready :: "sandbox_report \<Rightarrow> string"
  sb_apply :: "sandbox_report \<Rightarrow> sandbox_policy \<Rightarrow> bool"

definition platformSandbox ::
  "string \<Rightarrow> sandbox_report \<Rightarrow> (sandbox_policy \<Rightarrow> bool) \<Rightarrow> sandbox_report \<Rightarrow> (int \<Rightarrow> sandbox_policy \<Rightarrow> bool) \<Rightarrow> config \<Rightarrow> sandbox_backend" where
  "platformSandbox goos seatbelt_check seatbelt_apply landlock_check landlock_apply cfg =
     (if goos = ''darwin'' then
        \<lparr>sb_name = ''seatbelt'', sb_mode = sc_Seatbelt_Mode (cf_Security cfg), sb_check = seatbelt_check, sb_ready = (\<lambda>_. []),
         sb_apply = (\<lambda>_. seatbelt_apply)\<rparr>
      else let l = sc_Landlock (cf_Security cfg) in
        \<lparr>sb_name = ''landlock'', sb_mode = ll_Mode l, sb_check = landlock_check,
         sb_ready = (\<lambda>r. if rpt_KernelABI r < ll_MinimumABI l then ''kernel Landlock ABI is below the configured minimum'' else []),
         sb_apply = (\<lambda>r. landlock_apply (min (rpt_KernelABI r) MaxABI))\<rparr>)"

datatype confinement = Confined sandbox_policy | Unconfined

definition failClosed :: "sandbox_backend \<Rightarrow> string \<Rightarrow> string + confinement" where
  "failClosed b reason = (if sb_mode b = ModeRequired then Inl reason else Inr Unconfined)"

definition enforceSandbox :: "(string \<Rightarrow> url option) \<Rightarrow> sandbox_backend \<Rightarrow> config \<Rightarrow> net_addr list \<Rightarrow> string + confinement" where
  "enforceSandbox urlParse b cfg listeners =
     (if sb_mode b = ModeDisabled then Inr Unconfined
      else bind_sum (sandboxPolicy urlParse cfg listeners) (\<lambda>pol.
        let report = sb_check b in
        if \<not> rpt_Supported report then failClosed b ''unsupported host''
        else if sb_ready b report \<noteq> [] then failClosed b (sb_ready b report)
        else if \<not> sb_apply b report pol then failClosed b ''sandbox application failed''
        else Inr (Confined pol)))"

subsection \<open>The ingress socket\<close>

text \<open>
  What is at the address of a Unix listener, and whether a dial to it is answered; then the calls made, in order.
\<close>

datatype path_entry = NoEntry | SymlinkEntry | SocketEntry bool | OtherEntry

datatype sock_call = RemoveStale | ListenUnix | ChmodSocket nat | CloseSocket

record sock_env =
  sk_entry :: path_entry
  sk_remove :: bool
  sk_listen :: bool
  sk_chmod :: bool

datatype listen_error = BadMode | RefuseSymlink | RefuseOther | RefuseLive | RemoveFailed | ListenFailed | ChmodRefused

definition bind_socket :: "sock_env \<Rightarrow> nat \<Rightarrow> sock_call list \<Rightarrow> sock_call list \<times> (listen_error + unit)" where
  "bind_socket env mode calls =
     (if \<not> sk_listen env then (calls @ [ListenUnix], Inl ListenFailed)
      else if \<not> sk_chmod env then (calls @ [ListenUnix, ChmodSocket mode, CloseSocket], Inl ChmodRefused)
      else (calls @ [ListenUnix, ChmodSocket mode], Inr ()))"

definition safeUnixListen :: "sock_env \<Rightarrow> listen_cfg \<Rightarrow> sock_call list \<times> (listen_error + unit)" where
  "safeUnixListen env l =
     (let modeStr = (if l_Mode l = [] then DefaultUnixSocketMode else l_Mode l) in
      case parse_octal16 modeStr of
        None \<Rightarrow> ([], Inl BadMode)
      | Some mode \<Rightarrow>
          if mode = 0 \<or> 511 < mode then ([], Inl BadMode)
          else case sk_entry env of
            SymlinkEntry \<Rightarrow> ([], Inl RefuseSymlink)
          | OtherEntry \<Rightarrow> ([], Inl RefuseOther)
          | SocketEntry live \<Rightarrow>
              if live then ([], Inl RefuseLive)
              else if \<not> sk_remove env then ([RemoveStale], Inl RemoveFailed)
              else bind_socket env mode [RemoveStale]
          | NoEntry \<Rightarrow> bind_socket env mode [])"

definition buildListener :: "sock_env \<Rightarrow> (string \<Rightarrow> bool) \<Rightarrow> listen_cfg \<Rightarrow> sock_call list \<times> (listen_error + unit)" where
  "buildListener env tcp_listen l =
     (if l_Network l = ''unix'' then safeUnixListen env l
      else ([], if tcp_listen (l_Address l) then Inr () else Inl ListenFailed))"

subsection \<open>Accepted connections\<close>

text \<open>
  The counter that \<^verbatim>\<open>newHTTPServer\<close> hooks into the life of connections. \<open>cs_open\<close> lists the connections that have not reached
  their last state; \<open>cs_doomed\<close> those of them that the hook closed on arrival.
\<close>

datatype conn_event = StateNew nat | StateClosed nat | StateHijacked nat

record conn_state =
  cs_active :: int
  cs_open :: "nat list"
  cs_doomed :: "nat list"

definition conn_start :: conn_state where
  "conn_start = \<lparr>cs_active = 0, cs_open = [], cs_doomed = []\<rparr>"

definition conn_end :: "nat \<Rightarrow> conn_state \<Rightarrow> conn_state" where
  "conn_end c s = s\<lparr>cs_active := cs_active s - 1, cs_open := remove1 c (cs_open s), cs_doomed := remove1 c (cs_doomed s)\<rparr>"

fun ConnState :: "int \<Rightarrow> conn_state \<Rightarrow> conn_event \<Rightarrow> conn_state" where
  "ConnState mx s (StateNew c) =
     (let a = cs_active s + 1 in
      s\<lparr>cs_active := a, cs_open := c # cs_open s, cs_doomed := (if mx < a then c # cs_doomed s else cs_doomed s)\<rparr>)"
| "ConnState mx s (StateClosed c) = conn_end c s"
| "ConnState mx s (StateHijacked c) = conn_end c s"

text \<open>What \<^verbatim>\<open>net/http\<close> guarantees of the order: a connection is new once, and ends at most once, after it was new.\<close>

fun conn_events_ok :: "nat list \<Rightarrow> conn_event list \<Rightarrow> bool" where
  "conn_events_ok live [] = True"
| "conn_events_ok live (StateNew c # es) = (c \<notin> set live \<and> conn_events_ok (c # live) es)"
| "conn_events_ok live (StateClosed c # es) = (c \<in> set live \<and> conn_events_ok (remove1 c live) es)"
| "conn_events_ok live (StateHijacked c # es) = (c \<in> set live \<and> conn_events_ok (remove1 c live) es)"

definition read_timeout :: "server_cfg \<Rightarrow> duration" where
  "read_timeout s = wrap64 (sv_ReadHeaderTimeout s + sv_ReadBodyTimeout s)"

subsection \<open>Certificates and the logger\<close>

definition tls_Files :: "(string \<Rightarrow> file_node option) \<Rightarrow> (string \<Rightarrow> bool) \<Rightarrow> (bytes \<Rightarrow> bytes \<Rightarrow> bool) \<Rightarrow> string \<Rightarrow> string \<Rightarrow> string + bytes \<times> bytes" where
  "tls_Files open_file readable x509KeyPair certFile keyFile =
     (case ReadPublic (open_file certFile) (readable certFile) (2 ^ 20) of
        Inl _ \<Rightarrow> Inl ''tls cert''
      | Inr cert \<Rightarrow>
          (case Read (open_file keyFile) (readable keyFile) (2 ^ 20) of
             Inl _ \<Rightarrow> Inl ''tls key''
           | Inr key \<Rightarrow> if x509KeyPair cert key then Inr (cert, key) else Inl ''tls key pair is invalid''))"

text \<open>\<^verbatim>\<open>strings.ToLower\<close> as far as it yields ASCII: besides the capitals, two other runes have an ASCII lower case.\<close>

definition lower_rune :: "nat \<Rightarrow> nat" where
  "lower_rune r = (if 65 \<le> r \<and> r \<le> 90 then r + 32 else if r = 0x130 then 0x69 else if r = 0x212A then 0x6B else r)"

definition lower_is :: "string \<Rightarrow> string \<Rightarrow> bool" where
  "lower_is s name \<longleftrightarrow> map lower_rune (runes (TrimSpace s)) = map byte_of name"

datatype log_level = LevelDebug | LevelInfo | LevelWarn | LevelError
datatype log_format = FormatJSON | FormatText

definition ParseLevel :: "string \<Rightarrow> log_level option" where
  "ParseLevel s =
     (if lower_is s ''debug'' then Some LevelDebug else if lower_is s ''info'' then Some LevelInfo
      else if lower_is s ''warn'' then Some LevelWarn else if lower_is s ''error'' then Some LevelError else None)"

definition ParseFormat :: "string \<Rightarrow> log_format option" where
  "ParseFormat s = (if lower_is s ''json'' then Some FormatJSON else if lower_is s ''text'' then Some FormatText else None)"

definition newDaemonLogger :: "logging_cfg \<Rightarrow> (log_level \<times> log_format) option" where
  "newDaemonLogger l =
     (case ParseLevel (lg_Level l) of None \<Rightarrow> None | Some lvl \<Rightarrow> map_option (Pair lvl) (ParseFormat (lg_Format l)))"

subsection \<open>The users file\<close>

text \<open>What \<^verbatim>\<open>Lstat\<close> tells of a file, with the identity \<^verbatim>\<open>os.SameFile\<close> compares.\<close>

record file_info =
  fi_id :: nat
  fi_ModTime :: time
  fi_Size :: int
  fi_Mode :: nat

record usersWatcher =
  uw_last :: "file_info option"
  uw_examined :: bool

definition sameUsersFile :: "file_info option \<Rightarrow> file_info option \<Rightarrow> bool" where
  "sameUsersFile a b \<longleftrightarrow>
     (case (a, b) of
        (Some x, Some y) \<Rightarrow> fi_id x = fi_id y \<and> fi_ModTime x = fi_ModTime y \<and> fi_Size x = fi_Size y \<and> fi_Mode x = fi_Mode y
      | _ \<Rightarrow> a = None \<and> b = None)"

record poll_in =
  pi_seen :: "file_info option"
  pi_open :: "file_node option"
  pi_readable :: bool
  pi_after :: "file_info option"

definition poll :: "usersWatcher \<Rightarrow> bool \<Rightarrow> poll_in \<Rightarrow> usersWatcher \<times> (string + bytes option)" where
  "poll w force i =
     (if \<not> force \<and> uw_examined w \<and> sameUsersFile (uw_last w) (pi_seen i) then (w, Inr None)
      else
        (let w' = w\<lparr>uw_last := pi_seen i, uw_examined := True\<rparr> in
         if pi_seen i = None then (w', Inl ''lstat'')
         else case Read (pi_open i) (pi_readable i) DefaultMaxSize of
           Inl _ \<Rightarrow> (w', Inl ''read'')
         | Inr data \<Rightarrow>
             if pi_after i = None then (w', Inl ''lstat'')
             else if \<not> sameUsersFile (pi_seen i) (pi_after i) then (w', Inr None)
             else (w', Inr (Some data))))"

text \<open>At most three polls, one for each answer of the list.\<close>

fun watcher_load :: "usersWatcher \<Rightarrow> poll_in list \<Rightarrow> usersWatcher \<times> (string + bytes)" where
  "watcher_load w [] = (w, Inl ''users file kept changing while reading'')"
| "watcher_load w (i # is) =
     (case poll w True i of
        (w', Inl e) \<Rightarrow> (w', Inl e)
      | (w', Inr (Some data)) \<Rightarrow> (w', Inr data)
      | (w', Inr None) \<Rightarrow> watcher_load w' is)"

subsection \<open>Wiring\<close>

text \<open>\<^verbatim>\<open>net.ParseIP\<close>: an address without a zone, in its 16-byte form.\<close>

definition net_ParseIP :: "net_syntax \<Rightarrow> string \<Rightarrow> ip option" where
  "net_ParseIP sx s =
     (case sx_Addr sx s of
        Some (Addr4 bs) \<Rightarrow> Some (replicate 10 0 @ [255, 255] @ bs)
      | Some (Addr6 bs z) \<Rightarrow> if z = [] then Some bs else None
      | None \<Rightarrow> None)"

datatype start_error =
    BadPepper | UsersUnread string | UsersRejected users_error | QuotaUnenforceable quota_refusal | StoreFailed
  | PolicyFailed string | NoTrustStore | TLSFailed string | ClientFailed string string | RoutingFailed routing_error
  | WriterFailed writer_error | ReplayFailed | ProxyFailed string | ApiPanic string

text \<open>
  What startup meets: files by path, the answers to the polls of the users file, the YAML decoder of users files, random bytes,
  the trust store, the key pair check, the accounting log, the clock.
\<close>

record start_env =
  ev_syntax :: net_syntax
  ev_open :: "string \<Rightarrow> file_node option"
  ev_readable :: "string \<Rightarrow> bool"
  ev_polls :: "poll_in list"
  ev_yamlCheck :: "bytes \<Rightarrow> bool"
  ev_yamlUsers :: "bytes \<Rightarrow> users_file option"
  ev_random :: "bytes option"
  ev_roots :: bool
  ev_keyPair :: "bytes \<Rightarrow> bytes \<Rightarrow> bool"
  ev_openLog :: bool
  ev_log :: log_file
  ev_parseTime :: "string \<Rightarrow> time option"
  ev_now :: time

definition secure_read :: "start_env \<Rightarrow> string \<Rightarrow> int \<Rightarrow> string + string" where
  "secure_read env path mx = (case Read (ev_open env path) (ev_readable env path) mx of Inl _ \<Rightarrow> Inl ''read'' | Inr d \<Rightarrow> Inr d)"

definition parseStore ::
  "(bytes \<Rightarrow> bool) \<Rightarrow> (bytes \<Rightarrow> users_file option) \<Rightarrow> config \<Rightarrow> bytes \<Rightarrow> bytes option \<Rightarrow> bytes \<Rightarrow> start_error + store \<times> users_file" where
  "parseStore check decode cfg pep rnd data =
     (case ParseUsers check decode data of
        Inl e \<Rightarrow> Inl (UsersRejected e)
      | Inr users \<Rightarrow>
          (case checkQuotaEnforceable cfg users of
             Inl e \<Rightarrow> Inl (QuotaUnenforceable e)
           | Inr _ \<Rightarrow> (case NewStore users pep rnd of None \<Rightarrow> Inl StoreFailed | Some st \<Rightarrow> Inr (st, users))))"

text \<open>
  The clients with the number of the admission pool each one is given, and the pools. \<open>pools\<close> finds the pool of a server
  that has one.
\<close>

definition pool_for :: "backend_cfg \<Rightarrow> (string \<times> nat) list \<Rightarrow> admission list \<Rightarrow> nat \<times> (string \<times> nat) list \<times> admission list" where
  "pool_for b pools adms =
     (case map_of pools (be_Server b) of
        Some i \<Rightarrow> (i, pools, adms)
      | None \<Rightarrow> (length adms, if be_Server b \<noteq> [] then (be_Server b, length adms) # pools else pools, adms @ [NewAdmission b]))"

definition build_client :: "start_env \<Rightarrow> policy \<Rightarrow> int \<Rightarrow> string \<Rightarrow> backend_cfg \<Rightarrow> admission \<Rightarrow> start_error + client" where
  "build_client env pol mx name b adm =
     (case client_New (sx_URL (ev_syntax env)) (net_ParseIP (ev_syntax env)) (secure_read env)
             \<lparr>op_Name = name, op_Cfg = b, op_Network = pol, op_MaxResponseBytes = mx, op_Admission = Some adm\<rparr> of
        Inl e \<Rightarrow> Inl (ClientFailed name e) | Inr c \<Rightarrow> Inr c)"

fun build_clients ::
  "start_env \<Rightarrow> policy \<Rightarrow> int \<Rightarrow> (string \<times> backend_cfg) list \<Rightarrow> (string \<times> nat) list \<Rightarrow> admission list \<Rightarrow>
   start_error + (string \<times> client \<times> nat) list \<times> admission list" where
  "build_clients env pol mx [] pools adms = Inr ([], adms)"
| "build_clients env pol mx ((name, b) # bs) pools adms =
     (case pool_for b pools adms of (i, pools', adms') \<Rightarrow>
        bind_sum (build_client env pol mx name b (adms' ! i)) (\<lambda>c.
        bind_sum (build_clients env pol mx bs pools' adms') (\<lambda>(cs, adms''). Inr ((name, c, i) # cs, adms''))))"

definition newBackendClients :: "start_env \<Rightarrow> config \<Rightarrow> policy \<Rightarrow> start_error + (string \<times> client \<times> nat) list \<times> admission list" where
  "newBackendClients env cfg pol = build_clients env pol (sv_MaxResponseBytes (cf_Server cfg)) (cf_Backends cfg) [] []"

record daemon =
  dm_users :: usersWatcher
  dm_cfg :: config
  dm_api :: httpserver
  dm_pools :: "(string \<times> nat) list"
  dm_live :: bool
  dm_pepper :: bytes
  dm_tls :: "(bytes \<times> bytes) option"

text \<open>The accounting part of \<^verbatim>\<open>buildDaemon\<close>: the quota table, restored from the log, and the writer.\<close>

definition start_accounting :: "start_env \<Rightarrow> accounting_cfg \<Rightarrow> start_error + quota \<times> writer option" where
  "start_accounting env a =
     (if \<not> ac_Enabled a then Inr (Map.empty, None)
      else case NewWriter (ac_QueueSize a) (ac_Overflow a) (ev_openLog env) of
        Inl e \<Rightarrow> Inl (WriterFailed e)
      | Inr w \<Rightarrow>
          if ac_ReplayOnStart a = Some True then
            (case Replay (ev_parseTime env) Map.empty (ev_log env) (ac_ReplayMaxBytes a) (ev_now env) of
               (_, Inl _) \<Rightarrow> Inl ReplayFailed
             | (q, Inr _) \<Rightarrow> Inr (q, Some w))
          else Inr (Map.empty, Some w))"

definition start_tls :: "start_env \<Rightarrow> tls_cfg \<Rightarrow> start_error + (bytes \<times> bytes) option" where
  "start_tls env t =
     (if \<not> TLSConfigured t then Inr None
      else case tls_Files (ev_open env) (ev_readable env) (ev_keyPair env) (t_CertFile t) (t_KeyFile t) of
        Inl e \<Rightarrow> Inl (TLSFailed e) | Inr p \<Rightarrow> Inr (Some p))"

definition start_users :: "start_env \<Rightarrow> config \<Rightarrow> start_error + bytes \<times> usersWatcher \<times> store" where
  "start_users env cfg =
     (case LoadPepper (case secure_read env (au_PepperFile (cf_Auth cfg)) 4096 of Inr d \<Rightarrow> Some d | Inl _ \<Rightarrow> None) of
        None \<Rightarrow> Inl BadPepper
      | Some pep \<Rightarrow>
          (case watcher_load \<lparr>uw_last = None, uw_examined = False\<rparr> (take 3 (ev_polls env)) of
             (_, Inl e) \<Rightarrow> Inl (UsersUnread e)
           | (w, Inr data) \<Rightarrow>
               bind_sum (parseStore (ev_yamlCheck env) (ev_yamlUsers env) cfg pep (ev_random env) data) (\<lambda>(st, _). Inr (pep, w, st))))"

text \<open>The egress side: policy, trust store, certificates and clients.\<close>

definition start_egress :: "start_env \<Rightarrow> config \<Rightarrow> start_error + (bytes \<times> bytes) option \<times> (string \<times> client \<times> nat) list" where
  "start_egress env cfg =
     (case PolicyFromConfig (sx_CIDR (ev_syntax env)) (sc_BackendNetwork (cf_Security cfg)) of
        Inl e \<Rightarrow> Inl (PolicyFailed e)
      | Inr pol \<Rightarrow>
          if \<not> ev_roots env then Inl NoTrustStore
          else bind_sum (start_tls env (sv_TLS (cf_Server cfg))) (\<lambda>tls.
               bind_sum (newBackendClients env cfg pol) (\<lambda>(cs, adms). Inr (tls, cs))))"

text \<open>Router, accounting, proxy and HTTP surface over them.\<close>

definition start_api :: "start_env \<Rightarrow> config \<Rightarrow> store \<Rightarrow> (string \<times> client \<times> nat) list \<Rightarrow> start_error + httpserver" where
  "start_api env cfg st cs =
     (case Routing.New (cf_Models cfg) (cf_Backends cfg) of
        Inl e \<Rightarrow> Inl (RoutingFailed e)
      | Inr r \<Rightarrow>
          bind_sum (start_accounting env (cf_Accounting cfg)) (\<lambda>(q, wr).
            case proxy_New (cf_Server cfg) (cf_Retry cfg) (cf_Accounting cfg) (cf_Responses cfg) (cf_Models cfg) (cf_Backends cfg)
                   (Some r) (map (\<lambda>(n, c, i). (n, c)) cs) (Some q) wr of
              Inl e \<Rightarrow> Inl (ProxyFailed e)
            | Inr p \<Rightarrow>
                (case http_New (sx_Prefix (ev_syntax env)) cfg st p (ev_now env) of Inl e \<Rightarrow> Inl (ApiPanic e) | Inr api \<Rightarrow> Inr api)))"

definition buildDaemon :: "start_env \<Rightarrow> config \<Rightarrow> start_error + daemon" where
  "buildDaemon env cfg =
     bind_sum (start_users env cfg) (\<lambda>(pep, w, st).
     bind_sum (start_egress env cfg) (\<lambda>(tls, cs).
     bind_sum (start_api env cfg st cs) (\<lambda>api.
       Inr \<lparr>dm_users = w, dm_cfg = cfg, dm_api = api, dm_pools = map (\<lambda>(n, c, i). (n, i)) cs,
            dm_live = (sv_AdminSocket (cf_Server cfg) \<noteq> []), dm_pepper = pep, dm_tls = tls\<rparr>)))"

subsection \<open>Reload\<close>

definition refreshUsers ::
  "(bytes \<Rightarrow> bool) \<Rightarrow> (bytes \<Rightarrow> users_file option) \<Rightarrow> bytes option \<Rightarrow> bool \<Rightarrow> poll_in \<Rightarrow> daemon \<Rightarrow> daemon" where
  "refreshUsers check decode rnd force i d =
     (case poll (dm_users d) force i of
        (w, Inl _) \<Rightarrow> d\<lparr>dm_users := w\<rparr>
      | (w, Inr None) \<Rightarrow> d\<lparr>dm_users := w\<rparr>
      | (w, Inr (Some data)) \<Rightarrow>
          (case parseStore check decode (dm_cfg d) (dm_pepper d) rnd data of
             Inl _ \<Rightarrow> d\<lparr>dm_users := w\<rparr>
           | Inr (st, _) \<Rightarrow> d\<lparr>dm_users := w, dm_api := ReloadStore (dm_api d) st\<rparr>))"

section \<open>Lemmas\<close>

lemma policy_ports:
  assumes "sandboxPolicy urlParse cfg listeners = Inr pol"
  shows "set (sp_ConnectTCP pol) = {n. \<exists>(name, b) \<in> set (cf_Backends cfg). backend_port urlParse (be_BaseURL b) = Inr n}"
proof -
  obtain qs where q: "collect_ports urlParse (backendBaseURLs cfg) [] = Inr qs" "sp_ConnectTCP pol = sort qs"
    using assms by (auto simp: sandboxPolicy_def BackendPorts_def bind_sum_Inr)
  then show ?thesis using collect_ports_set [OF q(1)] by (auto simp: backendBaseURLs_def split_beta)
qed

text \<open>The state of the connections when those that are live are known.\<close>

definition conn_inv :: "int \<Rightarrow> nat list \<Rightarrow> conn_state \<Rightarrow> bool" where
  "conn_inv mx live s \<longleftrightarrow>
     cs_open s = live \<and> distinct live \<and> cs_active s = int (length live) \<and> distinct (cs_doomed s) \<and> set (cs_doomed s) \<subseteq> set live \<and>
     int (length live) - int (length (cs_doomed s)) \<le> mx"

lemma conn_inv_end:
  assumes "conn_inv mx live s" "c \<in> set live"
  shows "conn_inv mx (remove1 c live) (conn_end c s)"
proof -
  have "int (length live - Suc 0) = int (length live) - 1" using assms(2) by (cases live) auto
  moreover have "length (remove1 c (cs_doomed s)) \<ge> length (cs_doomed s) - 1" by (simp add: length_remove1)
  moreover have "c \<notin> set (cs_doomed s) \<Longrightarrow> remove1 c (cs_doomed s) = cs_doomed s" by (rule remove1_idem)
  ultimately show ?thesis using assms
    by (cases "c \<in> set (cs_doomed s)") (auto simp: conn_inv_def conn_end_def length_remove1)
qed

lemma conn_inv_run: "conn_events_ok live es \<Longrightarrow> conn_inv mx live s \<Longrightarrow> \<exists>live'. conn_inv mx live' (foldl (ConnState mx) s es)"
proof (induction live es arbitrary: s rule: conn_events_ok.induct)
  case (2 live c es)
  have "conn_inv mx (c # live) (ConnState mx s (StateNew c))" using 2(2,3) by (auto simp: conn_inv_def Let_def)
  then show ?case using 2(1,2) by auto
qed (use conn_inv_end in auto)

section \<open>Properties\<close>


text \<open>
  Accepted connections are bounded. However connections come and go, the counter counts the ones that have not ended, and at
  most the configured number of them are served: the others were closed when they arrived. Closing one on arrival never lets the
  bound drift.
\<close>

theorem connections_bounded:
  assumes "conn_events_ok [] es" "0 \<le> mx"
  shows "cs_active (foldl (ConnState mx) conn_start es) = int (length (cs_open (foldl (ConnState mx) conn_start es))) \<and>
    int (card (set (cs_open (foldl (ConnState mx) conn_start es)) - set (cs_doomed (foldl (ConnState mx) conn_start es)))) \<le> mx"
proof -
  have "conn_inv mx [] conn_start" using assms(2) by (simp add: conn_inv_def conn_start_def)
  from conn_inv_run [OF assms(1) this] obtain live where i: "conn_inv mx live (foldl (ConnState mx) conn_start es)" by blast
  let ?s = "foldl (ConnState mx) conn_start es"
  have "card (set live - set (cs_doomed ?s)) = length live - length (cs_doomed ?s)"
    using i by (simp add: conn_inv_def card_Diff_subset distinct_card)
  moreover have "length (cs_doomed ?s) \<le> length live" using i by (metis conn_inv_def card_mono distinct_card finite_set)
  ultimately show ?thesis using i by (simp add: conn_inv_def)
qed

text \<open>
  The ingress socket is never taken from a live listener, and never left open to others. A path is unlinked only when it is a
  socket nobody answers on; and a listener that is returned was given the configured mode.
\<close>

theorem socket_never_stolen:
  assumes "safeUnixListen env l = (calls, res)"
  shows "(RemoveStale \<in> set calls \<longrightarrow> sk_entry env = SocketEntry False) \<and>
    (res = Inr () \<longrightarrow> sk_entry env \<in> {NoEntry, SocketEntry False} \<and>
       (\<exists>mode. parse_octal16 (if l_Mode l = [] then DefaultUnixSocketMode else l_Mode l) = Some mode \<and> 0 < mode \<and> mode \<le> 511 \<and>
          last calls = ChmodSocket mode \<and> ListenUnix \<in> set calls)) \<and>
    (res \<noteq> Inr () \<longrightarrow> ListenUnix \<in> set calls \<longrightarrow> \<not> sk_listen env \<or> last calls = CloseSocket)"
  using assms by (auto simp: safeUnixListen_def bind_socket_def Let_def split: option.splits if_splits path_entry.splits)

subsection \<open>Witnesses\<close>

definition ex_landlock :: sandbox_backend where
  "ex_landlock = \<lparr>sb_name = ''landlock'', sb_mode = ModeRequired, sb_check = \<lparr>rpt_Supported = True, rpt_KernelABI = 6, rpt_Reason = []\<rparr>,
     sb_ready = (\<lambda>_. []), sb_apply = (\<lambda>_ _. True)\<rparr>"


theorem connections_bounded_witness:
  "int (card (set (cs_open (foldl (ConnState 1) conn_start [StateNew 1, StateNew 2, StateClosed 1])) -
     set (cs_doomed (foldl (ConnState 1) conn_start [StateNew 1, StateNew 2, StateClosed 1])))) \<le> 1"
  using connections_bounded [of "[StateNew 1, StateNew 2, StateClosed 1]" 1] by simp

definition ex_stale :: sock_env where
  "ex_stale = \<lparr>sk_entry = SocketEntry False, sk_remove = True, sk_listen = True, sk_chmod = True\<rparr>"

theorem socket_never_stolen_witness:
  "\<exists>calls mode. safeUnixListen ex_stale \<lparr>l_Network = ''unix'', l_Address = ''/run/s'', l_Mode = ''0600''\<rparr> = (calls, Inr ()) \<and> last calls = ChmodSocket mode \<and> mode \<le> 511"
proof -
  have "snd (safeUnixListen ex_stale \<lparr>l_Network = ''unix'', l_Address = ''/run/s'', l_Mode = ''0600''\<rparr>) = Inr ()"
    by (simp add: safeUnixListen_def ex_stale_def bind_socket_def parse_octal16_def byte_of_def)
  then obtain calls where c: "safeUnixListen ex_stale \<lparr>l_Network = ''unix'', l_Address = ''/run/s'', l_Mode = ''0600''\<rparr> = (calls, Inr ())" by (metis prod.collapse)
  from socket_never_stolen [OF c] c show ?thesis by auto
qed

end
