(* ===== verification/Cidr.thy ===== *)
theory Cidr
  imports Peers
begin

text \<open>
  The two notions of a network in the standard library that the configuration and the dialer use side by side: the prefixes of
  \<^verbatim>\<open>net/netip\<close>, compared bit by bit, and the networks of \<^verbatim>\<open>net\<close>, an address and a mask of bytes, with \<^verbatim>\<open>net.CIDRMask\<close> and the
  network that \<^verbatim>\<open>net.ParseCIDR\<close> makes of a prefix. They agree, except on IPv4-mapped IPv6 addresses.
\<close>

unbundle bit_operations_syntax

section \<open>Definitions\<close>

fun cidr_mask :: "nat \<Rightarrow> nat \<Rightarrow> nat list" where
  "cidr_mask n 0 = []"
| "cidr_mask n (Suc k) = (if 8 \<le> n then 255 else 256 - 2 ^ (8 - n)) # cidr_mask (n - 8) k"

definition cidr_of :: "ip_prefix \<Rightarrow> ipnet" where
  "cidr_of p = (let bs = addr_bytes (pf_addr p) in \<lparr>in_IP = mask_bytes (pf_bits p) bs, in_Mask = cidr_mask (pf_bits p) (length bs)\<rparr>)"

fun wf_addr :: "ip_addr \<Rightarrow> bool" where
  "wf_addr (Addr4 bs) \<longleftrightarrow> length bs = 4 \<and> list_all (\<lambda>b. b < 256) bs"
| "wf_addr (Addr6 bs z) \<longleftrightarrow> length bs = 16 \<and> list_all (\<lambda>b. b < 256) bs"

fun is_mapped :: "ip_addr \<Rightarrow> bool" where
  "is_mapped (Addr4 bs) = False"
| "is_mapped (Addr6 bs z) = (take 12 bs = replicate 10 0 @ [255, 255])"

fun As16 :: "ip_addr \<Rightarrow> ip" where
  "As16 (Addr4 bs) = replicate 10 0 @ [255, 255] @ bs"
| "As16 (Addr6 bs z) = bs"

section \<open>Lemmas\<close>

subsection \<open>Bytes\<close>

lemma and_high_mask:
  fixes x :: nat
  assumes "x < 256" "k \<le> 8"
  shows "x AND (256 - 2 ^ k) = push_bit k (drop_bit k x)"
proof -
  have m: "(256 :: nat) - 2 ^ k = push_bit k (mask (8 - k))"
    using assms(2) power_add [of "2 :: nat" k "8 - k"] by (simp add: push_bit_eq_mult mask_eq_exp_minus_1 diff_mult_distrib2 mult.commute [of _ "2 ^ k"])
  have "drop_bit k x < 2 ^ (8 - k)"
    using assms power_add [of "2 :: nat" k "8 - k"] by (simp add: drop_bit_eq_div less_mult_imp_div_less mult.commute)
  then have "take_bit (8 - k) (drop_bit k x) = drop_bit k x" by (simp add: take_bit_nat_eq_self)
  moreover have "x AND push_bit k (mask (8 - k)) = push_bit k (take_bit (8 - k) (drop_bit k x))"
    by (rule bit_eqI) (auto simp: bit_simps)
  ultimately show ?thesis by (simp add: m)
qed

lemma byte_bits_length [simp]: "length (byte_bits b) = 8"
  by (simp add: byte_bits_def)

lemma byte_bits_nth: "i < 8 \<Longrightarrow> byte_bits b ! i \<longleftrightarrow> bit b (7 - i)"
proof -
  assume "i < 8"
  then consider "i = 0" | "i = 1" | "i = 2" | "i = 3" | "i = 4" | "i = 5" | "i = 6" | "i = 7" by linarith
  then show ?thesis by cases (simp_all add: byte_bits_def bit_iff_odd)
qed

lemma high_bits_equal:
  assumes "b < 256" "c < 256" "n \<le> 8" "take n (byte_bits b) = take n (byte_bits c)"
  shows "drop_bit (8 - n) b = drop_bit (8 - n) c"
proof (rule bit_eqI)
  fix j
  have big: "\<not> bit x (8 - n + j)" if "x < 256" "8 \<le> 8 - n + j" for x :: nat
  proof -
    have "take_bit 8 x = x" using that(1) by (simp add: take_bit_nat_eq_self)
    then show ?thesis using that(2) bit_take_bit_iff [of 8 x "8 - n + j"] by simp
  qed
  show "bit (drop_bit (8 - n) b) j = bit (drop_bit (8 - n) c) j"
  proof (cases "8 \<le> 8 - n + j")
    case True
    then show ?thesis using big assms(1,2) by (simp add: bit_drop_bit_eq)
  next
    case False
    then have "7 - (8 - n + j) < n" "7 - (8 - n + j) < 8" using assms(3) by auto
    then have "byte_bits b ! (7 - (8 - n + j)) = byte_bits c ! (7 - (8 - n + j))" using assms(4) by (metis nth_take)
    then show ?thesis using False byte_bits_nth [of "7 - (8 - n + j)"] by (simp add: bit_drop_bit_eq)
  qed
qed

lemma mask_bytes_length [simp]: "length (mask_bytes n bs) = length bs"
  by (induction n bs rule: mask_bytes.induct) auto

lemma cidr_mask_length [simp]: "length (cidr_mask n k) = k"
  by (induction n k rule: cidr_mask.induct) auto

lemma masked_head:
  assumes "b < 256" "c < 256" "take n (byte_bits b) = take n (byte_bits c)"
  shows "(if 8 \<le> n then b else b div 2 ^ (8 - n) * 2 ^ (8 - n)) AND (if 8 \<le> n then 255 else 256 - 2 ^ (8 - n)) =
    c AND (if 8 \<le> n then 255 else 256 - 2 ^ (8 - n))"
proof (cases "8 \<le> n")
  case True
  then have "drop_bit 0 b = drop_bit 0 c" using high_bits_equal [of b c 8] assms by simp
  then show ?thesis using True by simp
next
  case False
  then have e: "drop_bit (8 - n) b = drop_bit (8 - n) c" using high_bits_equal [of b c n] assms by simp
  have h: "b div 2 ^ (8 - n) * 2 ^ (8 - n) = push_bit (8 - n) (drop_bit (8 - n) b)" by (simp add: push_bit_eq_mult drop_bit_eq_div)
  then have "b div 2 ^ (8 - n) * 2 ^ (8 - n) < 256" using assms(1) by (metis div_times_less_eq_dividend le_less_trans)
  moreover have "drop_bit k (push_bit k x) = x" for k and x :: nat by (simp add: push_bit_eq_mult drop_bit_eq_div)
  ultimately show ?thesis using False assms(2) e h by (simp add: and_high_mask)
qed

lemma mask_agrees:
  assumes "length bs = length cs" "list_all (\<lambda>b. b < 256) bs" "list_all (\<lambda>b. b < 256) cs"
    and "take n (concat (map byte_bits bs)) = take n (concat (map byte_bits cs))"
  shows "list_all2 (\<lambda>(a, k) b. a AND k = b AND k) (zip (mask_bytes n bs) (cidr_mask n (length bs))) cs"
  using assms
proof (induction bs arbitrary: cs n)
  case Nil
  then show ?case by simp
next
  case (Cons b bs)
  then obtain c cs' where [simp]: "cs = c # cs'" by (cases cs) auto
  have t: "take n (byte_bits b) = take n (byte_bits c)" "take (n - 8) (concat (map byte_bits bs)) = take (n - 8) (concat (map byte_bits cs'))"
    using Cons.prems(4) by (auto simp: append_eq_append_conv)
  show ?case using Cons.IH [OF _ _ _ t(2)] Cons.prems masked_head [OF _ _ t(1)] by simp
qed

subsection \<open>Networks\<close>

lemma mask_bytes_take: "8 * m \<le> n \<Longrightarrow> take m (mask_bytes n bs) = take m bs"
proof (induction m arbitrary: n bs)
  case (Suc m)
  then show ?case by (cases bs) auto
qed simp

lemma mask_bytes_nth_odd: "i < length bs \<Longrightarrow> odd (mask_bytes n bs ! i) \<Longrightarrow> 8 * Suc i \<le> n"
proof (induction bs arbitrary: n i)
  case (Cons b bs)
  show ?case
  proof (cases i)
    case 0
    then show ?thesis using Cons.prems by (auto split: if_splits)
  next
    case (Suc j)
    then show ?thesis using Cons.IH [of j "n - 8"] Cons.prems by simp
  qed
qed simp

lemma byte_bits_inj:
  assumes "b < 256" "c < 256" "byte_bits b = byte_bits c"
  shows "b = c"
  using high_bits_equal [of b c 8] assms by simp

lemma bits_take_bytes:
  assumes "length bs = length cs" "list_all (\<lambda>b. b < 256) bs" "list_all (\<lambda>b. b < 256) cs"
    and "take n (concat (map byte_bits bs)) = take n (concat (map byte_bits cs))" "8 * m \<le> n"
  shows "take m bs = take m cs"
  using assms
proof (induction m arbitrary: n bs cs)
  case (Suc m)
  show ?case
  proof (cases bs)
    case (Cons b bs')
    then obtain c cs' where cs: "cs = c # cs'" using Suc.prems(1) by (cases cs) auto
    have "byte_bits b = byte_bits c" "take (n - 8) (concat (map byte_bits bs')) = take (n - 8) (concat (map byte_bits cs'))"
      using Suc.prems(4,5) by (auto simp: Cons cs)
    then show ?thesis using Suc.IH [of bs' cs' "n - 8"] Suc.prems byte_bits_inj [of b c] by (simp add: Cons cs)
  qed (use Suc.prems in simp)
qed simp

text \<open>A literal that lies in a prefix lies in the network of that prefix, unless it is an IPv4-mapped IPv6 address.\<close>

lemma prefix_in_network:
  assumes "prefix_Contains p a" "wf_addr (pf_addr p)" "wf_addr a" "\<not> is_mapped a"
  shows "Contains (cidr_of p) (As16 a)"
proof (cases "pf_addr p")
  case (Addr4 bs)
  then obtain cs where a: "a = Addr4 cs" and e: "take (pf_bits p) (concat (map byte_bits bs)) = take (pf_bits p) (concat (map byte_bits cs))"
    using assms(1) by (cases a) (auto simp: prefix_Contains_def addr_bits_def)
  have l: "length bs = 4" "length cs = 4" using assms(2,3) by (simp_all add: Addr4 a)
  have "list_all2 (\<lambda>(a, k) b. a AND k = b AND k) (zip (mask_bytes (pf_bits p) bs) (cidr_mask (pf_bits p) 4)) cs"
    using mask_agrees [OF _ _ _ e] assms(2,3) by (simp add: Addr4 a)
  then show ?thesis using l by (simp add: Contains_def network_and_mask_def cidr_of_def To4_def Addr4 a Let_def)
next
  case (Addr6 bs z)
  then obtain cs where a: "a = Addr6 cs []" and e: "take (pf_bits p) (concat (map byte_bits bs)) = take (pf_bits p) (concat (map byte_bits cs))"
    using assms(1) by (cases a) (auto simp: prefix_Contains_def addr_bits_def)
  have l: "length bs = 16" "length cs = 16" using assms(2,3) by (simp_all add: Addr6 a)
  have n: "take 12 cs \<noteq> replicate 10 0 @ [255, 255]" using assms(4) by (simp add: a)
  have "take 12 (mask_bytes (pf_bits p) bs) \<noteq> replicate 10 0 @ [255, 255]"
  proof
    assume m: "take 12 (mask_bytes (pf_bits p) bs) = replicate 10 0 @ [255, 255]"
    then have "take 12 (mask_bytes (pf_bits p) bs) ! 11 = (replicate 10 0 @ [255, 255 :: nat]) ! 11" by simp
    then have "mask_bytes (pf_bits p) bs ! 11 = 255" by (simp add: l nth_append)
    then have "96 \<le> pf_bits p" using mask_bytes_nth_odd [of 11 bs "pf_bits p"] l by simp
    then have "take 12 cs = take 12 bs" "take 12 (mask_bytes (pf_bits p) bs) = take 12 bs"
      using bits_take_bytes [OF _ _ _ e, of 12] assms(2,3) mask_bytes_take [of 12 "pf_bits p" bs] by (simp_all add: Addr6 a)
    with m n show False by simp
  qed
  moreover have "list_all2 (\<lambda>(a, k) b. a AND k = b AND k) (zip (mask_bytes (pf_bits p) bs) (cidr_mask (pf_bits p) 16)) cs"
    using mask_agrees [OF _ _ _ e] assms(2,3) by (simp add: Addr6 a)
  ultimately show ?thesis using l n by (simp add: Contains_def network_and_mask_def cidr_of_def To4_def Addr6 a Let_def)
qed

end
