(* ===== verification/Startup.thy ===== *)
theory Startup
  imports Serve Cidr
begin

text \<open>
  What startup guarantees: a configuration that validation accepts is one the daemon can be built from, the admission pools of
  servers, and the enforceability of token quotas.
\<close>

section \<open>Lemmas\<close>

subsection \<open>What validation leaves\<close>

lemma positive_Nil [simp]: "positive f x = [] \<longleftrightarrow> 0 < x"
  by (auto simp: positive_def)

lemma validate_parts:
  assumes "validate sx c = []"
  shows "validateServer sx (cf_Server c) = []" "validateSecurity sx (cf_Security c) = []" "validateAccounting (cf_Accounting c) = []"
    "validateLimits_cfg (cf_Limits c) = []" "validateRetry (cf_Retry c) = []" "validateLogging (cf_Logging c) = []"
    "validateBackends sx (cf_Backends c) (sc_BackendNetwork (cf_Security c)) = []" "validateModels (cf_Models c) (cf_Backends c) = []"
  using assms by (simp_all add: validate_def)

subsection \<open>The policy\<close>

lemma parse_cidrs_ok: "\<forall>c \<in> set cs. parseCIDR c \<noteq> None \<Longrightarrow> parse_cidrs parseCIDR cs = Inr (map (\<lambda>c. the (parseCIDR c)) cs)"
  by (induction cs) (auto split: option.splits)

lemma policy_ok:
  assumes "validateSecurity sx s = []"
  obtains pol where "PolicyFromConfig (sx_CIDR sx) (sc_BackendNetwork s) = Inr pol" "parsePolicy pol = Inr pol"
    "po_Mode pol = bn_Mode (sc_BackendNetwork s)" "po_CIDRs pol = map (\<lambda>c. the (sx_CIDR sx c)) (bn_CIDRs (sc_BackendNetwork s))"
proof -
  let ?bn = "sc_BackendNetwork s"
  let ?pol = "\<lparr>po_Mode = bn_Mode ?bn, po_CIDRs = map (\<lambda>c. the (sx_CIDR sx c)) (bn_CIDRs ?bn)\<rparr>"
  have m: "bn_Mode ?bn \<in> {''loopback-only'', ''any''} \<and> bn_CIDRs ?bn = [] \<or>
      bn_Mode ?bn = ''allowed-cidrs'' \<and> bn_CIDRs ?bn \<noteq> [] \<and> (\<forall>c \<in> set (bn_CIDRs ?bn). sx_CIDR sx c \<noteq> None)"
    using assms by (auto simp: validateSecurity_def Let_def split: if_splits)
  then have "parse_cidrs (sx_CIDR sx) (bn_CIDRs ?bn) = Inr (map (\<lambda>c. the (sx_CIDR sx c)) (bn_CIDRs ?bn))" by (auto intro!: parse_cidrs_ok)
  moreover have "parsePolicy ?pol = Inr ?pol" using m by (auto simp: parsePolicy_def)
  ultimately show ?thesis using that [of ?pol] by (simp add: PolicyFromConfig_def)
qed

subsection \<open>Routing\<close>

lemma ref_violations_ok:
  "ref_violations backends prefix seen refs = [] \<Longrightarrow> r \<in> set refs \<Longrightarrow> \<exists>b. map_of backends (br_Name r) = Some b"
  by (induction backends prefix seen refs rule: ref_violations.induct) (auto split: if_splits)

lemma build_replicas_ok:
  "\<forall>r \<in> set refs. \<exists>b. map_of backends (br_Name r) = Some b \<and> be_UpstreamModel b \<noteq> [] \<Longrightarrow> \<exists>reps. build_replicas backends name refs = Inr reps"
  by (induction refs) (force split: option.splits)+

lemma build_models_ok:
  assumes "\<forall>(n, m) \<in> set ms. mo_Backends m \<noteq> [] \<and> mo_Strategy m \<in> set SupportedStrategies \<and>
    (\<forall>r \<in> set (mo_Backends m). \<exists>b. map_of backends (br_Name r) = Some b \<and> be_UpstreamModel b \<noteq> [])"
  shows "\<exists>es. build_models backends ms = Inr es"
  using assms
proof (induction ms)
  case (Cons a ms)
  obtain n m where a: "a = (n, m)" by (cases a)
  from Cons obtain es where "build_models backends ms = Inr es" by auto
  moreover from Cons.prems obtain reps where "build_replicas backends n (mo_Backends m) = Inr reps"
    using build_replicas_ok [of "mo_Backends m" backends n] by (auto simp: a)
  ultimately show ?case using Cons.prems by (simp add: a)
qed simp

lemma backend_violations_upstream: "backend_violations sx bn al n b = [] \<Longrightarrow> be_UpstreamModel b \<noteq> []"
  by (auto simp: backend_violations_def Let_def split: option.splits if_splits)

lemma routing_ok:
  assumes "validateBackends sx bs bn = []" "validateModels ms bs = []"
  shows "\<exists>r. Routing.New ms bs = Inr r"
proof -
  have u: "be_UpstreamModel b \<noteq> []" if "(n, b) \<in> set bs" for n b
    using assms(1) that backend_violations_upstream by (force simp: validateBackends_def Let_def split: if_splits)
  have "\<forall>(n, m) \<in> set ms. mo_Backends m \<noteq> [] \<and> mo_Strategy m \<in> set SupportedStrategies \<and> (\<forall>r \<in> set (mo_Backends m). \<exists>b. map_of bs (br_Name r) = Some b)"
    using assms(2) ref_violations_ok by (fastforce simp: validateModels_def model_violations_def Let_def split: if_splits)
  then have "\<exists>es. build_models bs ms = Inr es" using u by (intro build_models_ok) (fastforce dest: map_of_SomeD)
  moreover have "ms \<noteq> []" using assms(2) by (auto simp: validateModels_def)
  ultimately show ?thesis by (auto simp: Routing.New_def)
qed

subsection \<open>Clients\<close>

lemma host_nonempty:
  assumes "net_SplitHostPort hp = Some (host, port)" "host \<noteq> []"
  shows "fst (url_split hp) \<noteq> []"
proof -
  obtain i where i: "last_index_byte (CHR '':'') hp = Some i" "i < length hp"
    using assms(1) last_index_Some [of "CHR '':''" hp] by (auto simp: net_SplitHostPort_def split: option.splits)
  define x where "x = (if validOptionalPort (drop i hp) then take i hp else hp)"
  have u: "fst (url_split hp) = (if has_prefix x ''['' \<and> has_suffix x '']'' then butlast (tl x) else x)"
    by (simp add: url_split_def i(1) x_def Let_def)
  show ?thesis
  proof (cases "hd hp = CHR ''[''")
    case True
    then obtain e where "e + 1 = i" "host = take (e - 1) (drop 1 hp)"
      using assms(1) i by (auto simp: net_SplitHostPort_def split: option.splits if_splits)
    then have "3 \<le> length x" using assms(2) i(2) by (cases e) (auto simp: x_def)
    then have "butlast (tl x) \<noteq> []" "x \<noteq> []" by (auto simp flip: length_greater_0_conv)
    then show ?thesis by (simp add: u)
  next
    case False
    then have h: "host = take i hp" "CHR ''['' \<notin> set hp"
      using assms(1) i by (auto simp: net_SplitHostPort_def split: option.splits if_splits)
    then have "x \<noteq> []" "CHR ''['' \<notin> set x" using assms(2) by (auto simp: x_def dest: in_set_takeD)
    then show ?thesis by (cases x) (auto simp: u has_prefix_def)
  qed
qed

text \<open>A backend that passes validation: its base URL, its host and, for a literal host, what its network mode asks.\<close>

lemma backend_ok:
  assumes "backend_violations sx bn al n b = []"
  obtains u host port where "parseBaseURL (sx_URL sx) (be_BaseURL b) = Inr u" "splitHostPort u = (host, port)"
    "bn_Mode bn = ''loopback-only'' \<longrightarrow> isLoopbackHost sx host"
    "bn_Mode bn = ''allowed-cidrs'' \<longrightarrow> (\<forall>a. sx_Addr sx host = Some a \<longrightarrow> inAnyPrefix a al)"
proof -
  obtain u where u: "sx_URL sx (be_BaseURL b) = Some u" "u_Scheme u = ''http'' \<or> u_Scheme u = ''https''" "\<not> u_User u" "u_RawQuery u = []" "u_Fragment u = []"
      "u_Path u = [] \<or> u_Path u = ''/''" and hv: "host_violations sx bn al (''backends.'' @ n) (u_Host u) = []"
    using assms by (auto simp: backend_violations_def Let_def split: option.splits if_splits)
  obtain host port where h: "net_SplitHostPort (u_Host u) = Some (host, port)" "host \<noteq> []" "port \<noteq> []"
    and l: "bn_Mode bn = ''loopback-only'' \<longrightarrow> isLoopbackHost sx host"
    and c: "bn_Mode bn = ''allowed-cidrs'' \<longrightarrow> (\<forall>a. sx_Addr sx host = Some a \<longrightarrow> inAnyPrefix a al)"
    using hv by (auto simp: host_violations_def split: option.splits if_splits)
  have "Hostname u \<noteq> []" using host_nonempty [OF h(1,2)] by (simp add: Hostname_def)
  then have "parseBaseURL (sx_URL sx) (be_BaseURL b) = Inr u" using u h by (auto simp: parseBaseURL_def)
  then show ?thesis using that [of u host port] l c h(1) by (simp add: splitHostPort_def)
qed

text \<open>The two readings of addresses and networks by the standard library.\<close>

definition syntax_agrees :: "net_syntax \<Rightarrow> bool" where
  "syntax_agrees sx \<longleftrightarrow>
     (\<forall>c p. sx_Prefix sx c = Some p \<longrightarrow> wf_addr (pf_addr p) \<and> sx_CIDR sx c = Some (cidr_of p)) \<and>
     (\<forall>h a. sx_Addr sx h = Some a \<longrightarrow> wf_addr a)"

definition mapped_host :: "net_syntax \<Rightarrow> backend_cfg \<Rightarrow> bool" where
  "mapped_host sx b \<longleftrightarrow>
     (case sx_URL sx (be_BaseURL b) of
        Some u \<Rightarrow> (case sx_Addr sx (fst (splitHostPort u)) of Some a \<Rightarrow> is_mapped a | None \<Rightarrow> False)
      | None \<Rightarrow> False)"

lemma loopback_agrees: "wf_addr a \<Longrightarrow> addr_IsLoopback a \<Longrightarrow> IsLoopback (As16 a)"
  by (cases a) (auto simp: IsLoopback_def To4_def split: if_splits)

lemma literal_allowed:
  assumes sx: "syntax_agrees sx" and s: "validateSecurity sx sec = []"
    and pol: "PolicyFromConfig (sx_CIDR sx) (sc_BackendNetwork sec) = Inr pol"
    and al: "al = concat (map (\<lambda>c. case sx_Prefix sx c of Some p \<Rightarrow> [p] | None \<Rightarrow> []) (bn_CIDRs (sc_BackendNetwork sec)))"
    and l: "bn_Mode (sc_BackendNetwork sec) = ''loopback-only'' \<longrightarrow> isLoopbackHost sx host"
    and c: "bn_Mode (sc_BackendNetwork sec) = ''allowed-cidrs'' \<longrightarrow> (\<forall>a. sx_Addr sx host = Some a \<longrightarrow> inAnyPrefix a al \<and> \<not> is_mapped a)"
    and ip: "net_ParseIP sx host = Some ip"
  shows "allow pol ip"
proof -
  obtain a where a: "sx_Addr sx host = Some a" "ip = As16 a"
    using ip by (auto simp: net_ParseIP_def split: option.splits ip_addr.splits if_splits)
  have wa: "wf_addr a" using sx a(1) by (simp add: syntax_agrees_def)
  have m: "po_Mode pol = bn_Mode (sc_BackendNetwork sec)" "po_CIDRs pol = map (\<lambda>c. the (sx_CIDR sx c)) (bn_CIDRs (sc_BackendNetwork sec))"
    using policy_ok [OF s] pol by (metis sum.inject(2))+
  consider "po_Mode pol = ''any''" | "po_Mode pol = ''loopback-only''" | "po_Mode pol = ''allowed-cidrs''"
    using s unfolding m(1) by (auto simp: validateSecurity_def Let_def split: if_splits)
  then show ?thesis
  proof cases
    case 1
    then show ?thesis by (simp add: allow_def)
  next
    case 2
    then show ?thesis using l a loopback_agrees [OF wa] by (simp add: allow_def isLoopbackHost_def m(1) split: option.splits)
  next
    case 3
    then have "inAnyPrefix a al" "\<not> is_mapped a" using c a(1) by (simp_all add: m(1))
    then obtain cidr p where p: "cidr \<in> set (bn_CIDRs (sc_BackendNetwork sec))" "sx_Prefix sx cidr = Some p" "prefix_Contains p a"
      by (auto simp: inAnyPrefix_def list_ex_iff al split: option.splits) metis
    then have "Contains (the (sx_CIDR sx cidr)) ip"
      using prefix_in_network [OF p(3) _ wa \<open>\<not> is_mapped a\<close>] sx a(2) by (auto simp: syntax_agrees_def)
    then show ?thesis using 3 p(1) by (auto simp: allow_def list_ex_iff m(2))
  qed
qed

text \<open>Why a client can still not be built: its credential, or a mapped literal under a list of networks.\<close>

definition client_excuse :: "start_env \<Rightarrow> config \<Rightarrow> backend_cfg \<Rightarrow> string \<Rightarrow> bool" where
  "client_excuse env cfg b e \<longleftrightarrow>
     be_APIKeyFile b \<noteq> [] \<and> read_api_key (secure_read env) (be_APIKeyFile b) = Inl e \<or>
     bn_Mode (sc_BackendNetwork (cf_Security cfg)) = ''allowed-cidrs'' \<and> mapped_host (ev_syntax env) b \<and> e = class_text ErrPolicy"

lemma client_ok:
  assumes sx: "syntax_agrees (ev_syntax env)" and v: "validate (ev_syntax env) cfg = []" and b: "(name, b) \<in> set (cf_Backends cfg)"
    and pol: "PolicyFromConfig (sx_CIDR (ev_syntax env)) (sc_BackendNetwork (cf_Security cfg)) = Inr pol"
    and new: "client_New (sx_URL (ev_syntax env)) (net_ParseIP (ev_syntax env)) (secure_read env)
      \<lparr>op_Name = name, op_Cfg = b, op_Network = pol, op_MaxResponseBytes = mx, op_Admission = adm\<rparr> = Inl e"
  shows "client_excuse env cfg b e"
proof -
  let ?sx = "ev_syntax env" and ?bn = "sc_BackendNetwork (cf_Security cfg)"
  define al where al: "al = concat (map (\<lambda>c. case sx_Prefix ?sx c of Some p \<Rightarrow> [p] | None \<Rightarrow> []) (bn_CIDRs ?bn))"
  have "backend_violations ?sx ?bn al name b = []"
    using validate_parts(7) [OF v] b by (force simp: validateBackends_def al Let_def split: if_splits)
  then obtain u host port where u: "parseBaseURL (sx_URL ?sx) (be_BaseURL b) = Inr u" "splitHostPort u = (host, port)"
      "bn_Mode ?bn = ''loopback-only'' \<longrightarrow> isLoopbackHost ?sx host"
      "bn_Mode ?bn = ''allowed-cidrs'' \<longrightarrow> (\<forall>a. sx_Addr ?sx host = Some a \<longrightarrow> inAnyPrefix a al)"
    by (rule backend_ok)
  have p: "parsePolicy pol = Inr pol" using policy_ok [OF validate_parts(2) [OF v]] pol by (metis sum.inject(2))
  have su: "sx_URL ?sx (be_BaseURL b) = Some u" using u(1) by (auto simp: parseBaseURL_def split: option.splits if_splits)
  show ?thesis
  proof (cases "\<exists>ip. net_ParseIP ?sx host = Some ip \<and> \<not> allow pol ip")
    case True
    then have "\<not> (bn_Mode ?bn = ''allowed-cidrs'' \<longrightarrow> (\<forall>a. sx_Addr ?sx host = Some a \<longrightarrow> inAnyPrefix a al \<and> \<not> is_mapped a))"
      using literal_allowed [OF sx validate_parts(2) [OF v] pol al u(3)] by blast
    then have "bn_Mode ?bn = ''allowed-cidrs''" "mapped_host ?sx b" using u(2,4) su by (auto simp: mapped_host_def)
    moreover have "e = class_text ErrPolicy" using new True by (auto simp: client_New_def p u(1,2) guard_sum_def)
    ultimately show ?thesis by (simp add: client_excuse_def)
  next
    case False
    then have g: "(case net_ParseIP ?sx host of Some ip \<Rightarrow> guard_sum (allow pol ip) (class_text ErrPolicy) | None \<Rightarrow> Inr ()) = Inr ()"
      by (auto simp: guard_sum_def split: option.splits)
    then have r: "read_api_key (secure_read env) (be_APIKeyFile b) = Inl e"
      using new by (cases "read_api_key (secure_read env) (be_APIKeyFile b)") (simp_all add: client_New_def p u(1,2) Let_def)
    then have "be_APIKeyFile b \<noteq> []" by (auto simp: read_api_key_def)
    then show ?thesis using r by (simp add: client_excuse_def)
  qed
qed

lemma bind_sum_InlD: "bind_sum m f = Inl e \<Longrightarrow> m = Inl e \<or> (\<exists>x. m = Inr x \<and> f x = Inl e)"
  by (cases m) auto

lemma bind_sum_InrD: "bind_sum m f = Inr y \<Longrightarrow> \<exists>x. m = Inr x \<and> f x = Inr y"
  by (cases m) auto

lemma build_clients_error:
  assumes "build_clients env pol mx bs pools adms = Inl e"
  shows "\<exists>n b adm. (n, b) \<in> set bs \<and> build_client env pol mx n b adm = Inl e"
  using assms
proof (induction bs arbitrary: pools adms)
  case (Cons a bs)
  obtain name b where [simp]: "a = (name, b)" by (cases a)
  obtain i pools' adms' where pf: "pool_for b pools adms = (i, pools', adms')" by (rule prod_cases3)
  from Cons.prems consider "build_client env pol mx name b (adms' ! i) = Inl e" | "build_clients env pol mx bs pools' adms' = Inl e"
    by (auto simp: pf dest!: bind_sum_InlD)
  then show ?case
  proof cases
    case 1
    then show ?thesis by auto
  next
    case 2
    then show ?thesis using Cons.IH by fastforce
  qed
qed simp

text \<open>One step of building clients, as the facts that follow read it.\<close>

lemma build_clients_ConsE:
  assumes "build_clients env pol mx ((name, b) # bs) pools adms = Inr (cs, adms'')"
  obtains i pools' adms' c cs' where "pool_for b pools adms = (i, pools', adms')" "build_client env pol mx name b (adms' ! i) = Inr c"
    "build_clients env pol mx bs pools' adms' = Inr (cs', adms'')" "cs = (name, c, i) # cs'"
proof -
  obtain i pools' adms' where pf: "pool_for b pools adms = (i, pools', adms')" by (rule prod_cases3)
  then show ?thesis using assms that by (auto dest!: bind_sum_InrD split: prod.splits)
qed

lemma build_clients_names: "build_clients env pol mx bs pools adms = Inr (cs, adms') \<Longrightarrow> map fst cs = map fst bs"
proof (induction bs arbitrary: pools adms cs)
  case (Cons a bs)
  obtain name b where [simp]: "a = (name, b)" by (cases a)
  from Cons.prems show ?case unfolding \<open>a = (name, b)\<close> by (rule build_clients_ConsE) (use Cons.IH in simp)
qed simp

text \<open>The table of pools: it names pools that exist, for named servers, and no pool twice.\<close>

definition pools_ok :: "(string \<times> nat) list \<Rightarrow> nat \<Rightarrow> bool" where
  "pools_ok pools len \<longleftrightarrow>
     (\<forall>s i. map_of pools s = Some i \<longrightarrow> i < len \<and> s \<noteq> []) \<and> (\<forall>s t i. map_of pools s = Some i \<longrightarrow> map_of pools t = Some i \<longrightarrow> s = t)"

lemma pool_for_ok:
  assumes "pool_for b pools adms = (i, pools', adms')" "pools_ok pools (length adms)"
  shows "pools_ok pools' (length adms')" "i < length adms'" "length adms \<le> length adms'"
    and "be_Server b \<noteq> [] \<Longrightarrow> map_of pools' (be_Server b) = Some i"
    and "be_Server b = [] \<Longrightarrow> map_of pools' s \<noteq> Some i"
    and "i < length adms \<Longrightarrow> map_of pools (be_Server b) = Some i"
    and "map_of pools (be_Server b) = Some j \<Longrightarrow> i = j"
    and "s \<noteq> be_Server b \<Longrightarrow> map_of pools' s = map_of pools s"
  using assms by (auto simp: pool_for_def pools_ok_def split: option.splits if_splits) (fastforce+)?

lemma build_clients_pools:
  assumes "build_clients env pol mx bs pools adms = Inr (cs, adms'')" "pools_ok pools (length adms)" "k < length bs"
  shows "(\<forall>i. map_of pools (be_Server (snd (bs ! k))) = Some i \<longrightarrow> snd (snd (cs ! k)) = i) \<and>
    (snd (snd (cs ! k)) < length adms \<longrightarrow> map_of pools (be_Server (snd (bs ! k))) = Some (snd (snd (cs ! k)))) \<and>
    (\<forall>j < k. snd (snd (cs ! j)) = snd (snd (cs ! k)) \<longleftrightarrow> be_Server (snd (bs ! j)) = be_Server (snd (bs ! k)) \<and> be_Server (snd (bs ! k)) \<noteq> [])"
  using assms
proof (induction bs arbitrary: pools adms cs k)
  case (Cons a bs)
  obtain name b where [simp]: "a = (name, b)" by (cases a)
  obtain i pools' adms' c cs' where st: "pool_for b pools adms = (i, pools', adms')" "build_clients env pol mx bs pools' adms' = Inr (cs', adms'')"
      and [simp]: "cs = (name, c, i) # cs'"
    using Cons.prems(1) unfolding \<open>a = (name, b)\<close> by (rule build_clients_ConsE)
  note pf = pool_for_ok [OF st(1) Cons.prems(2)]
  show ?case
  proof (cases k)
    case 0
    then show ?thesis by (auto intro: pf(6,7))
  next
    case (Suc k')
    then have k': "k' < length bs" using Cons.prems(3) by simp
    let ?s = "be_Server (snd (bs ! k'))" and ?x = "snd (snd (cs' ! k'))"
    note ih = Cons.IH [OF st(2) pf(1) k']
    have ih1: "map_of pools' ?s = Some j \<Longrightarrow> ?x = j" for j using ih by blast
    have ih2: "?x < length adms' \<Longrightarrow> map_of pools' ?s = Some ?x" using ih by blast
    have ne: "map_of pools t = Some j \<Longrightarrow> t \<noteq> []" for t j using Cons.prems(2) by (auto simp: pools_ok_def)
    have ne': "map_of pools' t = Some j \<Longrightarrow> t \<noteq> []" for t j using pf(1) by (auto simp: pools_ok_def)
    have inj': "map_of pools' t = Some j \<Longrightarrow> map_of pools' t' = Some j \<Longrightarrow> t = t'" for t t' j using pf(1) unfolding pools_ok_def by blast
    have a: "?x = j" if m: "map_of pools ?s = Some j" for j
    proof (cases "?s = be_Server b")
      case True
      then have "map_of pools' ?s = Some i" "i = j" using pf(4) ne [OF m] pf(7) [of j] m by simp_all
      then show ?thesis using ih1 by simp
    next
      case False
      then show ?thesis using ih1 pf(8) m by simp
    qed
    have b': "map_of pools ?s = Some ?x" if m: "?x < length adms"
    proof (cases "?s = be_Server b")
      case True
      have "map_of pools' ?s = Some ?x" using ih2 m pf(3) by simp
      moreover from this have "map_of pools' ?s = Some i" using pf(4) True ne' by simp
      ultimately have "?x = i" by simp
      then show ?thesis using pf(6) m True by simp
    next
      case False
      then show ?thesis using ih2 m pf(3,8) by simp
    qed
    have z: "i = ?x \<longleftrightarrow> be_Server b = ?s \<and> ?s \<noteq> []"
    proof
      assume x: "i = ?x"
      then have m: "map_of pools' ?s = Some i" using ih2 pf(2) by simp
      then have "be_Server b \<noteq> []" using pf(5) by blast
      then show "be_Server b = ?s \<and> ?s \<noteq> []" using inj' [OF pf(4) m] ne' [OF m] by simp
    next
      assume "be_Server b = ?s \<and> ?s \<noteq> []"
      then show "i = ?x" using pf(4) ih1 by simp
    qed
    have ih3: "snd (snd (cs' ! j)) = ?x \<longleftrightarrow> be_Server (snd (bs ! j)) = ?s \<and> ?s \<noteq> []" if "j < k'" for j using ih that by blast
    have c: "snd (snd (cs ! j)) = ?x \<longleftrightarrow> be_Server (snd ((a # bs) ! j)) = ?s \<and> ?s \<noteq> []" if "j < Suc k'" for j
    proof (cases j)
      case 0
      then show ?thesis using z by simp
    next
      case (Suc j')
      then show ?thesis using ih3 [of j'] that by simp
    qed
    have e: "snd (snd (cs ! Suc k')) = ?x" "be_Server (snd ((a # bs) ! Suc k')) = ?s" by simp_all
    show ?thesis unfolding Suc e using a b' c by blast
  qed
qed simp

subsection \<open>The other parts\<close>

lemma api_ok:
  assumes "validateLimits_cfg (cf_Limits cfg) = []"
  shows "\<exists>api. http_New parsePrefix cfg st p now = Inr api"
proof -
  let ?l = "cf_Limits cfg"
  have "\<not> f64_le (lm_GlobalRequestsPerSecond ?l) (Fin 0)" "\<not> f64_le (lm_PreauthRequestsPerSecond ?l) (Fin 0)" "\<not> f64_le (lm_AuthFailureLogRate ?l) (Fin 0)"
      "0 < lm_GlobalBurst ?l" "0 < lm_PreauthBurst ?l"
    using assms by (simp_all add: validateLimits_cfg_def positive_rate_def)
  then show ?thesis by (simp add: http_New_def NewBucket_def NewSourceRegistry_def Let_def)
qed

lemma accounting_ok:
  assumes "validateAccounting a = []" "start_accounting env a = Inl e"
  shows "e = WriterFailed OpenLogFailed \<or> e = ReplayFailed"
proof -
  have "ac_Enabled a \<Longrightarrow> ac_Overflow a = ''drop-and-alert''" using assms(1) by (simp add: validateAccounting_def Let_def)
  then show ?thesis
    using assms(2) by (auto simp: start_accounting_def NewWriter_def Let_def split: if_splits sum.splits prod.splits)
qed

text \<open>
  Why startup may fail for an accepted configuration: for what lies outside it. Not among the reasons are the network policy, the
  router, the proxy and the HTTP surface; a writer fails only to open its log, and a client for its credential.
\<close>

definition outside :: "start_env \<Rightarrow> config \<Rightarrow> start_error \<Rightarrow> bool" where
  "outside env cfg e \<longleftrightarrow>
     (case e of
        PolicyFailed _ \<Rightarrow> False | RoutingFailed _ \<Rightarrow> False | ProxyFailed _ \<Rightarrow> False | ApiPanic _ \<Rightarrow> False
      | WriterFailed we \<Rightarrow> we = OpenLogFailed
      | ClientFailed n m \<Rightarrow> \<exists>b. (n, b) \<in> set (cf_Backends cfg) \<and> client_excuse env cfg b m
      | _ \<Rightarrow> True)"

lemma start_users_outside: "start_users env cfg = Inl e \<Longrightarrow> outside env cfg e"
  by (auto simp: start_users_def parseStore_def outside_def split: option.splits sum.splits prod.splits dest!: bind_sum_InlD)

lemma start_tls_outside: "start_tls env t = Inl e \<Longrightarrow> outside env cfg e"
  by (auto simp: start_tls_def outside_def split: if_splits sum.splits)

lemma clients_outside:
  assumes "syntax_agrees (ev_syntax env)" "validate (ev_syntax env) cfg = []"
    and "PolicyFromConfig (sx_CIDR (ev_syntax env)) (sc_BackendNetwork (cf_Security cfg)) = Inr pol" "newBackendClients env cfg pol = Inl e"
  shows "outside env cfg e"
proof -
  obtain n b adm where b: "(n, b) \<in> set (cf_Backends cfg)" "build_client env pol (sv_MaxResponseBytes (cf_Server cfg)) n b adm = Inl e"
    using build_clients_error assms(4) unfolding newBackendClients_def by blast
  then obtain m where m: "e = ClientFailed n m" "client_New (sx_URL (ev_syntax env)) (net_ParseIP (ev_syntax env)) (secure_read env)
      \<lparr>op_Name = n, op_Cfg = b, op_Network = pol, op_MaxResponseBytes = sv_MaxResponseBytes (cf_Server cfg), op_Admission = Some adm\<rparr> = Inl m"
    by (auto simp: build_client_def split: sum.splits)
  show ?thesis using client_ok [OF assms(1,2) b(1) assms(3) m(2)] b(1) m(1) by (auto simp: outside_def)
qed

lemma egress_outside:
  assumes "syntax_agrees (ev_syntax env)" "validate (ev_syntax env) cfg = []" "start_egress env cfg = Inl e"
  shows "outside env cfg e"
proof -
  obtain pol where pol: "PolicyFromConfig (sx_CIDR (ev_syntax env)) (sc_BackendNetwork (cf_Security cfg)) = Inr pol"
    using policy_ok [OF validate_parts(2) [OF assms(2)]] by blast
  then consider "e = NoTrustStore" | "start_tls env (sv_TLS (cf_Server cfg)) = Inl e" | "newBackendClients env cfg pol = Inl e"
    using assms(3) by (auto simp: start_egress_def split: if_splits dest!: bind_sum_InlD)
  then show ?thesis using start_tls_outside clients_outside [OF assms(1,2) pol] by cases (auto simp: outside_def)
qed

lemma clients_nonempty:
  assumes "validate sx cfg = []" "start_egress env cfg = Inr (tls, cs)"
  shows "cs \<noteq> []"
proof -
  obtain pol adms where "newBackendClients env cfg pol = Inr (cs, adms)"
    using assms(2) by (auto simp: start_egress_def split: if_splits sum.splits dest!: bind_sum_InrD)
  then have "map fst cs = map fst (cf_Backends cfg)" using build_clients_names by (simp add: newBackendClients_def)
  then show ?thesis using validate_parts(7) [OF assms(1)] by (auto simp: validateBackends_def)
qed

lemma api_outside:
  assumes "validate sx cfg = []" "start_egress env cfg = Inr (tls, cs)" "start_api env cfg st cs = Inl e"
  shows "outside env cfg e"
proof -
  obtain r where r: "Routing.New (cf_Models cfg) (cf_Backends cfg) = Inr r" using routing_ok [OF validate_parts(7,8) [OF assms(1)]] by blast
  have p: "\<exists>p. proxy_New sv rt ac rs ms bs (Some r) (map (\<lambda>(n, c, i). (n, c)) cs) q wr = Inr p" for sv rt ac rs ms bs q wr
    using clients_nonempty [OF assms(1,2)] by (simp add: proxy_New_def)
  have "start_accounting env (cf_Accounting cfg) = Inl e"
  proof (cases "start_accounting env (cf_Accounting cfg)")
    case (Inr x)
    then show ?thesis using assms(3) r p api_ok [OF validate_parts(4) [OF assms(1)]]
      by (auto simp: start_api_def split: sum.splits prod.splits) (metis Inr_not_Inl)+
  qed (use assms(3) r in \<open>auto simp: start_api_def\<close>)
  from accounting_ok [OF validate_parts(3) [OF assms(1)] this] show ?thesis by (auto simp: outside_def)
qed

subsection \<open>The logger\<close>

lemma trim_literals:
  "TrimSpace ''json'' = ''json''" "TrimSpace ''text'' = ''text''" "TrimSpace ''debug'' = ''debug''" "TrimSpace ''info'' = ''info''"
  "TrimSpace ''warn'' = ''warn''" "TrimSpace ''error'' = ''error''"
  by (rule TrimSpace_visible; simp add: visible_def byte_of_def)+

lemma accepted_logger: "validateLogging l = [] \<Longrightarrow> newDaemonLogger l \<noteq> None"
  by (auto simp: validateLogging_def complain_def newDaemonLogger_def ParseLevel_def ParseFormat_def lower_is_def trim_literals lower_rune_def decode1 byte_of_def
      split: if_splits)

subsection \<open>A port out of range\<close>

text \<open>The example document with a backend at port 70000.\<close>

definition ex_wide_url :: string where "ex_wide_url = ''http://127.0.0.1:70000''"

definition ex_wide_syntax :: net_syntax where
  "ex_wide_syntax = ex_syntax\<lparr>sx_URL := (\<lambda>s. if s = ex_wide_url then Some (Validate.ex_url\<lparr>u_Host := ''127.0.0.1:70000''\<rparr>) else None)\<rparr>"

definition ex_wide_doc :: source_doc where
  "ex_wide_doc = ex_doc\<lparr>sd_Servers := [(''gpu'', ex_source\<lparr>ss_URL := ex_wide_url\<rparr>)]\<rparr>"

definition ex_wide_conf :: config where
  "ex_wide_conf = ex_conf\<lparr>cf_Backends := [(''auto-gpu-616161616161'', ex_upstream\<lparr>be_BaseURL := ex_wide_url\<rparr>)]\<rparr>"

section \<open>Properties\<close>


text \<open>
  A gap between the check and the start: \<^verbatim>\<open>config check\<close> accepts a backend port out of range, and \<^verbatim>\<open>serve\<close> refuses the same
  configuration on every host, when it derives the ports of the sandbox policy, although the sandbox is only best effort.
\<close>

theorem accepted_port_refused:
  "(\<exists>eff. parse_config ex_sha ex_wide_syntax ex_wide_doc = Inr (ex_wide_conf, eff)) \<and>
   (\<exists>e. enforceSandbox (sx_URL ex_wide_syntax) (platformSandbox goos sc sa lc la ex_wide_conf) ex_wide_conf listeners = Inl e)"
proof (rule conjI)
  have "map_sum id fst (parse_config ex_sha ex_wide_syntax ex_wide_doc) = Inr ex_wide_conf" by code_simp
  then show "\<exists>eff. parse_config ex_sha ex_wide_syntax ex_wide_doc = Inr (ex_wide_conf, eff)" by (cases "parse_config ex_sha ex_wide_syntax ex_wide_doc") auto
  have "sb_mode (platformSandbox goos sc sa lc la ex_wide_conf) = ModeBestEffort"
    by (simp add: platformSandbox_def Let_def ex_wide_conf_def ex_conf_def ModeBestEffort_def)
  moreover have "\<exists>e. sandboxPolicy (sx_URL ex_wide_syntax) ex_wide_conf listeners = Inl e"
    by (simp add: sandboxPolicy_def BackendPorts_def backendBaseURLs_def backend_port_def ex_wide_conf_def ex_wide_syntax_def Port_def url_split_def
        validOptionalPort_def parse_uint16_def is_digit_def byte_of_def)
  ultimately show "\<exists>e. enforceSandbox (sx_URL ex_wide_syntax) (platformSandbox goos sc sa lc la ex_wide_conf) ex_wide_conf listeners = Inl e"
    by (auto simp: enforceSandbox_def ModeBestEffort_def ModeDisabled_def)
qed

text \<open>
  C33: One server, one admission pool. Two backends are given the same pool exactly when they belong to the same named server,
  however many models it serves.
\<close>

theorem server_pools:
  assumes "newBackendClients env cfg pol = Inr (cs, adms)" "j < k" "k < length (cf_Backends cfg)"
  shows "snd (snd (cs ! j)) = snd (snd (cs ! k)) \<longleftrightarrow>
    be_Server (snd (cf_Backends cfg ! j)) = be_Server (snd (cf_Backends cfg ! k)) \<and> be_Server (snd (cf_Backends cfg ! k)) \<noteq> []"
  using build_clients_pools [OF assms(1) [unfolded newBackendClients_def] _ assms(3)] assms(2) by (simp add: pools_ok_def)

subsection \<open>Witnesses\<close>

text \<open>A host with a pepper and one key with a daily quota, and the daemon built there from the example document.\<close>

definition ex_quota_key :: key where
  "ex_quota_key = ex_key\<lparr>Limits := (Limits ex_key)\<lparr>TokensPerDay := 1000\<rparr>\<rparr>"

definition ex_quota_users :: users_file where
  "ex_quota_users = \<lparr>Version = 1, Keys = [ex_quota_key]\<rparr>"

definition ex_info :: file_info where "ex_info = \<lparr>fi_id = 1, fi_ModTime = 5, fi_Size = 3, fi_Mode = 416\<rparr>"

definition ex_poll :: poll_in where "ex_poll = \<lparr>pi_seen = Some ex_info, pi_open = Some ex_file, pi_readable = True, pi_after = Some ex_info\<rparr>"

definition ex_env :: start_env where
  "ex_env = \<lparr>ev_syntax = ex_syntax, ev_open = (\<lambda>p. Some (ex_file\<lparr>fn_data := replicate 16 (CHR ''p'')\<rparr>)), ev_readable = (\<lambda>_. True), ev_polls = [ex_poll],
     ev_yamlCheck = (\<lambda>_. True), ev_yamlUsers = (\<lambda>_. Some ex_quota_users), ev_random = Some [], ev_roots = True, ev_keyPair = (\<lambda>_ _. False),
     ev_openLog = True, ev_log = NotExist, ev_parseTime = (\<lambda>_. None), ev_now = 0\<rparr>"

lemma ex_quota_valid: "validateUsers ex_quota_users = Inr ()"
proof -
  have "validateKey [] 0 ex_key = Inr ()" using ex_users_valid by (simp add: validateUsers_def ex_users_def split: sum.splits)
  then have "validateKey [] 0 ex_quota_key = Inr ()"
    by (auto simp: validateKey_Inr ex_key_def ex_quota_key_def validateLimits_def)
  then show ?thesis by (simp add: validateUsers_def ex_quota_users_def)
qed

lemma ex_quota_check: "checkQuotaEnforceable ex_conf ex_quota_users = Inr ()" 
  by (simp add: checkQuotaEnforceable_def ex_conf_def quotaKeysConfigured_def ex_quota_users_def ex_quota_key_def)

definition ex_quota_store :: store where
  "ex_quota_store = \<lparr>byID = [ID ex_quota_key \<mapsto> normalizeKey ex_quota_key], pepper = replicate 16 (CHR ''p''), dummyHash = []\<rparr>"

lemma read_small: "fn_kind f = RegularFile \<Longrightarrow> \<not> WorldAccessible (fn_perm f) \<Longrightarrow> 0 < mx \<Longrightarrow> int (length (fn_data f)) \<le> mx \<Longrightarrow> Read (Some f) True mx = Inr (fn_data f)"
  by (simp add: Read_def read_file_def Let_def)

lemma ex_start_users: "start_users ex_env ex_conf = Inr (replicate 16 (CHR ''p''), \<lparr>uw_last = Some ex_info, uw_examined = True\<rparr>, ex_quota_store)"
proof -
  have w: "\<not> WorldAccessible 416" by (simp add: WorldAccessible_def)
  have p: "secure_read ex_env path 4096 = Inr (replicate 16 (CHR ''p''))" for path
    using w by (simp add: secure_read_def ex_env_def read_small ex_file_def)
  have "poll \<lparr>uw_last = None, uw_examined = False\<rparr> True ex_poll = (\<lparr>uw_last = Some ex_info, uw_examined = True\<rparr>, Inr (Some ''old''))"
    using w by (simp add: poll_def ex_poll_def read_small ex_file_def DefaultMaxSize_def sameUsersFile_def)
  moreover have "parseStore (ev_yamlCheck ex_env) (ev_yamlUsers ex_env) ex_conf (replicate 16 (CHR ''p'')) (ev_random ex_env) ''old'' = Inr (ex_quota_store, ex_quota_users)"
    using ex_quota_valid ex_quota_check by (simp add: parseStore_def ParseUsers_def ex_env_def NewStore_def) (simp add: ex_quota_users_def ex_quota_store_def)
  moreover have "LoadPepper (Some (replicate 16 (CHR ''p''))) = Some (replicate 16 (CHR ''p''))" by (simp add: LoadPepper_def ValidatePepper_def)
  ultimately show ?thesis by (simp add: start_users_def p) (simp add: ex_env_def)
qed


definition ex_router0 :: router where "ex_router0 = projr (Routing.New (cf_Models ex_conf) (cf_Backends ex_conf))"

definition ex_gpu :: client where
  "ex_gpu = \<lparr>cl_name = ''auto-gpu-616161616161'', cl_upstream = ''up'', cl_base = Validate.ex_url, cl_apiKey = [],
     cl_policy = \<lparr>po_Mode = ''loopback-only'', po_CIDRs = []\<rparr>, cl_requestTimeout = 1800000000000, cl_streamIdle = 120000000000,
     cl_maxResponseBytes = 64, cl_streamHeaderTimeout = 300000000000, cl_plainHeaderTimeout = 1800000000000, cl_maxConns = 8,
     cl_adm = NewAdmission ex_upstream\<rparr>"

lemma ex_router_New: "Routing.New (cf_Models ex_conf) (cf_Backends ex_conf) = Inr ex_router0"
proof -
  have "\<not> isl (Routing.New (cf_Models ex_conf) (cf_Backends ex_conf))" by code_simp
  then show ?thesis by (cases "Routing.New (cf_Models ex_conf) (cf_Backends ex_conf)") (simp_all add: ex_router0_def)
qed

lemma ex_client_New:
  "client_New (sx_URL ex_syntax) (net_ParseIP ex_syntax) rd
     \<lparr>op_Name = n, op_Cfg = ex_upstream\<lparr>be_Server := s\<rparr>, op_Network = \<lparr>po_Mode = ''loopback-only'', po_CIDRs = []\<rparr>, op_MaxResponseBytes = 64, op_Admission = Some adm\<rparr> =
   Inr (ex_gpu\<lparr>cl_name := n, cl_maxConns := ad_conc_cap adm, cl_adm := adm\<rparr>)"
  by code_simp

lemma ex_build_client:
  "build_client ex_env \<lparr>po_Mode = ''loopback-only'', po_CIDRs = []\<rparr> 64 n (ex_upstream\<lparr>be_Server := s\<rparr>) adm =
   Inr (ex_gpu\<lparr>cl_name := n, cl_maxConns := ad_conc_cap adm, cl_adm := adm\<rparr>)"
proof -
  have "ev_syntax ex_env = ex_syntax" by (simp add: ex_env_def)
  then show ?thesis unfolding build_client_def by (simp only: ex_client_New sum.case)
qed

lemma ex_upstream_server: "ex_upstream\<lparr>be_Server := ''gpu''\<rparr> = ex_upstream" by (simp add: ex_upstream_def)

lemma ex_start_egress: "start_egress ex_env ex_conf = Inr (None, [(''auto-gpu-616161616161'', ex_gpu, 0)])"
proof -
  have "PolicyFromConfig (sx_CIDR (ev_syntax ex_env)) (sc_BackendNetwork (cf_Security ex_conf)) = Inr \<lparr>po_Mode = ''loopback-only'', po_CIDRs = []\<rparr>"
    by (simp add: PolicyFromConfig_def parsePolicy_def ex_conf_def ex_env_def)
  moreover have "start_tls ex_env (sv_TLS (cf_Server ex_conf)) = Inr None" by (simp add: start_tls_def TLSConfigured_def ex_conf_def)
  moreover have "newBackendClients ex_env ex_conf \<lparr>po_Mode = ''loopback-only'', po_CIDRs = []\<rparr> =
      Inr ([(''auto-gpu-616161616161'', ex_gpu, 0)], [NewAdmission ex_upstream])"
    using ex_build_client [of _ "''gpu''", unfolded ex_upstream_server]
    by (simp add: newBackendClients_def ex_conf_def pool_for_def) (simp add: ex_gpu_def NewAdmission_def ex_upstream_def)
  moreover have "ev_roots ex_env" by (simp add: ex_env_def)
  ultimately show ?thesis by (simp add: start_egress_def)
qed

definition ex_proxy0 :: proxy where
  "ex_proxy0 = \<lparr>px_router = ex_router0, px_clients = [''auto-gpu-616161616161'' \<mapsto> ex_gpu], px_models = map_of (cf_Models ex_conf),
     px_backends = map_of (cf_Backends ex_conf), px_server = cf_Server ex_conf, px_retry = cf_Retry ex_conf, px_accounting = cf_Accounting ex_conf,
     px_affinity = newAffinity 7200000000000 10000, px_budget = newBudget (budget_total (cf_Server ex_conf)), px_quota = Some Map.empty, px_acc = None,
     px_usageOptIn = True, px_draining = False\<rparr>"

lemma ex_build: "\<exists>d. buildDaemon ex_env ex_conf = Inr d \<and> hs_proxy (dm_api d) = ex_proxy0 \<and> sn_store (hs_snap (dm_api d)) = ex_quota_store"
proof -
  have a: "start_accounting ex_env (cf_Accounting ex_conf) = Inr (Map.empty, None)" by (simp add: start_accounting_def ex_conf_def)
  have p: "proxy_New (cf_Server ex_conf) (cf_Retry ex_conf) (cf_Accounting ex_conf) (cf_Responses ex_conf) (cf_Models ex_conf) (cf_Backends ex_conf)
      (Some ex_router0) [(''auto-gpu-616161616161'', ex_gpu)] (Some Map.empty) None = Inr ex_proxy0"
    by (simp add: proxy_New_def ex_proxy0_def) (simp add: ex_conf_def)
  have "validateLimits_cfg (cf_Limits ex_conf) = []" by code_simp
  then obtain api where h: "http_New (sx_Prefix (ev_syntax ex_env)) ex_conf ex_quota_store ex_proxy0 (ev_now ex_env) = Inr api" using api_ok by blast
  then have "hs_proxy api = ex_proxy0 \<and> sn_store (hs_snap api) = ex_quota_store" by (auto simp: http_New_def Let_def split: option.splits prod.splits)
  then obtain api where "start_api ex_env ex_conf ex_quota_store [(''auto-gpu-616161616161'', ex_gpu, 0)] = Inr api"
      "hs_proxy api = ex_proxy0" "sn_store (hs_snap api) = ex_quota_store"
    using a p h by (auto simp: start_api_def ex_router_New)
  then show ?thesis by (simp add: buildDaemon_def ex_start_users ex_start_egress)
qed


text \<open>Two models of one server share a pool, and a backend without a server has one of its own.\<close>

definition ex_shared :: config where
  "ex_shared = ex_conf\<lparr>cf_Backends := [(''a'', ex_upstream), (''b'', ex_upstream), (''c'', ex_upstream\<lparr>be_Server := []\<rparr>)]\<rparr>"

theorem server_pools_witness:
  "\<exists>cs adms. newBackendClients ex_env ex_shared \<lparr>po_Mode = ''loopback-only'', po_CIDRs = []\<rparr> = Inr (cs, adms) \<and>
     snd (snd (cs ! 0)) = snd (snd (cs ! 1)) \<and> snd (snd (cs ! 1)) \<noteq> snd (snd (cs ! 2))"
proof -
  let ?pol = "\<lparr>po_Mode = ''loopback-only'', po_CIDRs = []\<rparr> :: policy"
  have "sv_MaxResponseBytes (cf_Server ex_shared) = 64" "be_Server ex_upstream = ''gpu''" by (simp_all add: ex_shared_def ex_conf_def ex_upstream_def)
  then obtain cs adms where n: "newBackendClients ex_env ex_shared ?pol = Inr (cs, adms)"
    using ex_build_client [of _ "''gpu''", unfolded ex_upstream_server] ex_build_client [of _ "[]"]
    by (auto simp: newBackendClients_def pool_for_def ex_shared_def)
  show ?thesis using n server_pools [OF n, of 0 1] server_pools [OF n, of 1 2] by (simp add: ex_shared_def ex_upstream_def)
qed

end
