(* ===== verification/Daemon.thy ===== *)
theory Daemon
  imports Startup
begin

text \<open>
  The daemon as a state machine: built from a configuration, it serves requests, reloads its users file, becomes ready and drains
  (the signal loop of \<^verbatim>\<open>src/cmd/mellomting/serve.go\<close>). What holds of the configuration and of the key store it serves from, in
  every state it can reach.
\<close>

section \<open>Definitions\<close>

text \<open>One step, in the order the events arrive; requests are taken one at a time.\<close>

inductive daemon_step :: "config \<Rightarrow> daemon \<Rightarrow> daemon \<Rightarrow> bool" for cfg where
  request: "route parseAddr show_addr env (dm_api d) r = (api', ans, sent) \<Longrightarrow> daemon_step cfg d (d\<lparr>dm_api := api'\<rparr>)"
| refresh: "daemon_step cfg d (refreshUsers check decode rnd force i d)"
| ready: "daemon_step cfg d (d\<lparr>dm_api := SetReady (dm_api d) v\<rparr>)"
| drain: "daemon_step cfg d (d\<lparr>dm_api := (dm_api d)\<lparr>hs_proxy := BeginDraining (hs_proxy (dm_api d))\<rparr>\<rparr>)"

inductive daemon_run :: "start_env \<Rightarrow> config \<Rightarrow> daemon \<Rightarrow> bool" for env cfg where
  start: "buildDaemon env cfg = Inr d \<Longrightarrow> daemon_run env cfg d"
| step: "daemon_run env cfg d \<Longrightarrow> daemon_step cfg d d' \<Longrightarrow> daemon_run env cfg d'"

text \<open>
  The signal loop: a tick polls the users file, \<^verbatim>\<open>SIGHUP\<close> forces a reload, any other signal begins the drain, and the end of the
  HTTP server ends the process.
\<close>

datatype loop_event = PollTick poll_in "bytes option" | Hangup poll_in "bytes option" | Terminate | ServerEnded bool

datatype loop_end = Waiting | ExitCode int | ShuttingDown

fun signal_loop :: "(bytes \<Rightarrow> bool) \<Rightarrow> (bytes \<Rightarrow> users_file option) \<Rightarrow> daemon \<Rightarrow> loop_event list \<Rightarrow> daemon \<times> loop_end" where
  "signal_loop check decode d [] = (d, Waiting)"
| "signal_loop check decode d (PollTick i rnd # es) = signal_loop check decode (refreshUsers check decode rnd False i d) es"
| "signal_loop check decode d (Hangup i rnd # es) = signal_loop check decode (refreshUsers check decode rnd True i d) es"
| "signal_loop check decode d (ServerEnded failed # es) = (d, ExitCode (if failed then 1 else 0))"
| "signal_loop check decode d (Terminate # es) =
     (d\<lparr>dm_api := (dm_api d)\<lparr>hs_proxy := BeginDraining (hs_proxy (dm_api d))\<rparr>\<rparr>, ShuttingDown)"

section \<open>Lemmas\<close>

subsection \<open>Requests leave the settings alone\<close>

definition same_settings :: "proxy \<Rightarrow> proxy \<Rightarrow> bool" where
  "same_settings p p' \<longleftrightarrow>
     px_models p' = px_models p \<and> px_accounting p' = px_accounting p \<and> px_retry p' = px_retry p \<and> px_server p' = px_server p \<and>
     models (px_router p') = models (px_router p) \<and> px_quota p = None = (px_quota p' = None) \<and> px_draining p' = px_draining p"

lemma same_settings_refl [simp]: "same_settings p p"
  by (simp add: same_settings_def)

lemma same_settings_trans: "same_settings p p1 \<Longrightarrow> same_settings p1 p2 \<Longrightarrow> same_settings p p2"
  by (simp add: same_settings_def)

lemma attempts_models:
  assumes "loop_inv r o1 t ob hdrs k st" "attempts p o1 t ob hdrs env n k st = (st', out)"
  shows "models (lo_router st') = models r"
  using assms
proof (induction n arbitrary: k st)
  case 0
  then show ?case by (auto simp: loop_inv_def)
next
  case (Suc n)
  have m: "models (lo_router st0) = models r" if "loop_inv r o1 t ob hdrs j st0" for st0 j using that by (simp add: loop_inv_def)
  obtain st1 res where pk: "pick_backend t (env k) k st = (st1, res)" by fastforce
  note pi = pick_backend_inv [OF pk Suc.prems(1)]
  show ?case
  proof (cases res)
    case (Inl v)
    then show ?thesis using Suc.prems pk m pi(1) by (cases v) (auto split: if_splits)
  next
    case (Inr name)
    obtain st2 v where sa: "send_attempt p o1 t ob hdrs (env k) k name st1 = (st2, v)" by fastforce
    note si = send_attempt_inv [OF sa pi(1) pi(3) [OF Inr]]
    show ?thesis using Suc.prems Suc.IH [OF si(1)] pk Inr sa m si(1) by (cases v) (auto split: if_splits)
  qed
qed

lemma resolveTarget_settings:
  assumes "resolveTarget p q o1 body now = (p1, t, e)"
  shows "same_settings p p1"
  using assms
  by (auto simp: same_settings_def resolveTarget_def target_by_model_def target_by_response_def Let_def
      split: if_splits sum.splits prod.splits option.splits)

lemma prepare_settings:
  assumes "prepare p q o1 t now = (p2, ob, e)"
  shows "same_settings p p2"
  using assms
  by (auto simp: same_settings_def prepare_def Let_def split: if_splits sum.splits prod.splits option.splits body_error.splits)

lemma finish_loop_settings:
  assumes "finish_loop p q o1 t ob env (st, lo) out = (p', out', ans)" "models (lo_router st) = models (px_router p)"
  shows "same_settings p p'"
  using assms
  by (auto simp: same_settings_def finish_loop_def finish_result_def put_affinity_def Let_def
      split: loop_out.splits option.splits prod.splits if_splits)

lemma dispatch_settings:
  assumes "dispatch p q o1 env = (p', out, ans, sent)"
  shows "same_settings p p'"
proof -
  obtain p1 out0 reserve where d: "dispatch_core p q o1 env = ((p1, out0, ans), sent, reserve)"
      "p' = account (p1\<lparr>px_budget := release_body (px_budget p1) reserve\<rparr>) q o1 (dn_start env) (dn_now env) out"
    using assms by (rule dispatch_parts)
  have "same_settings p p1"
    using d(1)
  proof (cases rule: dispatch_core_cases)
    case (body b body n)
    have s0: "same_settings p (p\<lparr>px_budget := b\<rparr>)" by (simp add: same_settings_def)
    from body(2) show ?thesis
    proof (cases rule: dispatch_body_cases)
      case (target p2 t e)
      then show ?thesis using same_settings_trans [OF s0 resolveTarget_settings [OF target(1)]] by simp
    next
      case (prep p2 t ob e)
      show ?thesis using same_settings_trans [OF s0 same_settings_trans [OF resolveTarget_settings [OF prep(1)] prepare_settings [OF prep(2)]]] .
    next
      case (loop p2 t p3 ob st lo)
      note m = finish_loop_settings [OF loop(5) attempts_models [OF loop_start_inv loop(3)]]
      show ?thesis using same_settings_trans [OF s0 same_settings_trans [OF resolveTarget_settings [OF loop(1)] same_settings_trans [OF prepare_settings [OF loop(2)] m]]] .
    qed
  qed (auto simp: same_settings_def)
  then show ?thesis unfolding d(2) by (auto simp: account_def same_settings_def Let_def split: option.splits)
qed

lemma route_settings:
  assumes "route parseAddr show_addr env s r = (s', ans, sent)"
  shows "same_settings (hs_proxy s) (hs_proxy s') \<and> sn_store (hs_snap s') = sn_store (hs_snap s)"
  using assms [unfolded route_def]
proof (cases rule: routeBody_cases)
  case (plain w)
  then show ?thesis by simp
next
  case (gates s1)
  from gates(2) show ?thesis
  proof (cases rule: admitted_cases)
    case (limited sl g ra)
    then show ?thesis using gates(3) by simp
  next
    case (unauthorized sl g)
    then show ?thesis using gates(3) authorize_frame by fastforce
  next
    case (authorized sl g s2 key)
    have a: "hs_proxy s2 = hs_proxy s" "hs_snap s2 = hs_snap s" using authorize_frame [OF authorized(1)] by simp_all
    from authorized(2) show ?thesis
    proof (cases rule: key_gate_cases)
      case (limited h1 reg ks h2 ok ra h3)
      then show ?thesis using gates(3) a by simp
    next
      case (served h1 reg ks h2 ra h3 s3)
      have "same_settings (hs_proxy s2) (hs_proxy s3)"
        using served(4) dispatch_settings by (fastforce simp: serve_def Let_def split: if_splits option.splits prod.splits)
      moreover have "sn_store (hs_snap s3) = sn_store (hs_snap s2)" using serve_frame [OF served(4)] by simp
      ultimately show ?thesis using gates(3) served(5) a by simp
    qed
  qed
qed

subsection \<open>A success is settled with its reservation\<close>

lemma classify_status: "400 \<le> ae_status (bf_resp (classifyBackendError err))"
  using classify_in_table [of err] by (auto simp: backend_answers_def error_defs)

lemma terminal_fail: "terminal p st = LoFail e ra \<Longrightarrow> 400 \<le> ae_status e"
  using classify_status by (auto simp: terminal_def Let_def relayUpstreamDetail_def split: option.splits)

lemma attempts_fail:
  assumes "attempts p o1 t ob hdrs env n k st = (st', LoFail e ra)"
  shows "400 \<le> ae_status e"
  using assms
proof (induction n arbitrary: k st)
  case 0
  then show ?case by (auto dest: terminal_fail)
next
  case (Suc n)
  note t = terminal_fail
  obtain st1 res where pk: "pick_backend t (env k) k st = (st1, res)" by fastforce
  show ?case
  proof (cases res)
    case (Inl v)
    then show ?thesis using Suc.prems pk t
      by (cases v) (auto simp: pick_backend_def errNoBackend_def mk_error_def Let_def split: if_splits option.splits prod.splits sum.splits)
  next
    case (Inr name)
    obtain st2 v where sa: "send_attempt p o1 t ob hdrs (env k) k name st1 = (st2, v)" by fastforce
    have "v = Stop (LoFail e ra) \<Longrightarrow> 400 \<le> ae_status e"
      using sa by (auto simp: send_attempt_def on_failure_def errInternal_def errNotNormal_def mk_error_def Let_def
          split: if_splits option.splits prod.splits sum.splits forward_result.splits)
    then show ?thesis using Suc pk Inr sa t by (cases v) (auto split: if_splits)
  qed
qed

lemma target_error: "resolveTarget p q o1 body now = (p1, t, Some e) \<Longrightarrow> 400 \<le> ae_status e"
  by (auto simp: resolveTarget_def target_by_model_def target_by_response_def Let_def parse_failure_def mk_error_def
      errBadJSON_def errNoModel_def errModelType_def errNoStream_def errModelDenied_def errNotGenerate_def errNotEmbed_def errPrevNotFound_def
      errRespNotFound_def errRespBadID_def split: if_splits sum.splits prod.splits option.splits body_error.splits)

lemma prepare_error: "prepare p q o1 t now = (p2, ob, Some e) \<Longrightarrow> 400 \<le> ae_status e"
  by (auto simp: prepare_def Let_def mk_error_def errOutputCapExceeded_def errOutputLimitInvalid_def errNotNormal_def errQuota_def
      split: if_splits sum.splits prod.splits option.splits body_error.splits)

lemma body_error_status: "readBody p q o1 = (b, reserve, Inl e) \<Longrightarrow> 400 \<le> ae_status e"
  by (auto simp: readBody_def Let_def mk_error_def errUnsupported_def errOverloaded_def errBodyTooBig_def errBodyUnread_def
      split: if_splits sum.splits prod.splits read_error.splits)

lemma fail_status: "(out', ans) = fail_out out ra e \<Longrightarrow> do_status out' = ae_status e"
  by (simp add: fail_out_def)

lemma finish_success:
  assumes "finish_loop p q o1 t ob env (st, lo) out = (p', out', ans)" "\<And>e ra. lo = LoFail e ra \<Longrightarrow> 400 \<le> ae_status e"
    and "consumesUsage o1" "do_status out' < 300" "do_status out \<ge> 300"
  shows "do_reservation out' = ob_reservation ob"
  using assms
  by (auto simp: finish_loop_def finish_result_def fail_out_def Let_def split: loop_out.splits option.splits prod.splits if_splits)

lemma success_settled:
  assumes "dispatch p q o1 env = (p', out, ans, sent)" "consumesUsage o1" "do_status out < 300"
  obtains b body p1 t p2 ob where "resolveTarget (p\<lparr>px_budget := b\<rparr>) q o1 body (dn_now env) = (p1, t, None)" "prepare p1 q o1 t (dn_now env) = (p2, ob, None)"
    "do_reservation out = ob_reservation ob"
proof -
  obtain p0 out0 reserve where d: "dispatch_core p q o1 env = ((p0, out0, ans), sent, reserve)" and o: "out = final_out out0"
    using assms(1) by (rule dispatch_parts)
  then have s0: "do_status out0 < 300" "do_status out0 \<noteq> 0" "out = out0" using assms(3) by (auto simp: final_out_def split: if_splits)
  have nd: "\<not> px_draining p" using d s0(1) by (auto simp: dispatch_core_def fail_out_def errDraining_def mk_error_def)
  obtain b res body where rb: "readBody p q o1 = (b, res, body)" by (rule prod_cases3)
  show ?thesis
  proof (cases body)
    case (Inl e)
    then show ?thesis using d nd rb fail_status [of out0 ans init_out "[]" e] body_error_status [of p q o1 b res e] s0(1) by (simp add: dispatch_core_def)
  next
    case (Inr bd)
    define o0 where "o0 = (if op_method o1 = ''POST'' then init_out\<lparr>do_bytesIn := int (length bd)\<rparr> else init_out)"
    have "dispatch_body (p\<lparr>px_budget := b\<rparr>) q o1 env bd o0 = ((p0, out0, ans), sent)"
      using d nd rb Inr by (auto simp: dispatch_core_def o0_def split: prod.splits if_splits)
    then show ?thesis
    proof (cases rule: dispatch_body_cases)
      case (target p1 t e)
      then show ?thesis using fail_status target_error s0(1) by fastforce
    next
      case (prep p1 t ob e)
      then show ?thesis using fail_status prepare_error s0(1) by fastforce
    next
      case (loop p1 t p2 ob st lo)
      have "400 \<le> ae_status e" if "lo = LoFail e ra" for e ra using attempts_fail loop(3) that by blast
      moreover have "300 \<le> do_status (o0\<lparr>do_model := pt_model t\<rparr>)" by (simp add: init_out_def o0_def)
      ultimately have "do_reservation out = ob_reservation ob" using finish_success [OF loop(5) _ assms(2)] s0 by simp
      then show ?thesis using that [OF loop(1,2)] by simp
    qed
  qed
qed

subsection \<open>What a run keeps\<close>

text \<open>A store made of a users file that passed validation and the check of its quotas.\<close>

definition accepted_store :: "config \<Rightarrow> store \<Rightarrow> bool" where
  "accepted_store cfg st \<longleftrightarrow>
     (\<exists>users pep rnd. validateUsers users = Inr () \<and> checkQuotaEnforceable cfg users = Inr () \<and> NewStore users pep rnd = Some st)"

lemma parseStore_accepted: "parseStore check decode cfg pep rnd data = Inr (st, users) \<Longrightarrow> accepted_store cfg st"
  by (auto simp: parseStore_def ParseUsers_def accepted_store_def split: sum.splits option.splits if_splits)

definition daemon_inv :: "config \<Rightarrow> daemon \<Rightarrow> bool" where
  "daemon_inv cfg d \<longleftrightarrow>
     dm_cfg d = cfg \<and> accepted_store cfg (sn_store (hs_snap (dm_api d))) \<and>
     (let p = hs_proxy (dm_api d) in
      px_models p = map_of (cf_Models cfg) \<and> px_accounting p = cf_Accounting cfg \<and> px_retry p = cf_Retry cfg \<and> px_server p = cf_Server cfg \<and>
      (\<forall>n e. models (px_router p) n = Some e \<longrightarrow> (\<exists>m. map_of (cf_Models cfg) n = Some m \<and> me_typ e = mo_Type m)) \<and> px_quota p \<noteq> None)"

lemma build_models_types:
  "build_models backends ms = Inr es \<Longrightarrow> map_of es n = Some e \<Longrightarrow> \<exists>m. map_of ms n = Some m \<and> me_typ e = mo_Type m"
proof (induction ms arbitrary: es)
  case (Cons a ms)
  obtain n' m' where [simp]: "a = (n', m')" by (cases a)
  obtain reps es' where "build_models backends ms = Inr es'" "es = (n', \<lparr>me_typ = mo_Type m', me_strategy = mo_Strategy m', me_replicas = reps\<rparr>) # es'"
    using Cons.prems(1) by (auto split: if_splits dest!: bind_sum_InrD)
  then show ?case using Cons by (auto split: if_splits)
qed simp

lemma router_types:
  "Routing.New ms bs = Inr r \<Longrightarrow> models r n = Some e \<Longrightarrow> \<exists>m. map_of ms n = Some m \<and> me_typ e = mo_Type m"
  using build_models_types by (auto simp: Routing.New_def split: if_splits dest!: bind_sum_InrD)

lemma build_inv: "buildDaemon env cfg = Inr d \<Longrightarrow> daemon_inv cfg d"
proof -
  assume "buildDaemon env cfg = Inr d"
  then obtain pep w st cs api where u: "start_users env cfg = Inr (pep, w, st)" and sa: "start_api env cfg st cs = Inr api"
      and d: "dm_cfg d = cfg" "dm_api d = api"
    by (auto simp: buildDaemon_def dest!: bind_sum_InrD)
  obtain r q wr p where r: "Routing.New (cf_Models cfg) (cf_Backends cfg) = Inr r"
      and p: "proxy_New (cf_Server cfg) (cf_Retry cfg) (cf_Accounting cfg) (cf_Responses cfg) (cf_Models cfg) (cf_Backends cfg) (Some r)
        (map (\<lambda>(n, c, i). (n, c)) cs) (Some q) wr = Inr p"
      and a: "http_New (sx_Prefix (ev_syntax env)) cfg st p (ev_now env) = Inr api"
    using sa by (auto simp: start_api_def split: sum.splits dest!: bind_sum_InrD)
  have "accepted_store cfg st" using u parseStore_accepted
    by (auto simp: start_users_def split: option.splits prod.splits sum.splits dest!: bind_sum_InrD)
  moreover have "hs_proxy api = p" "sn_store (hs_snap api) = st" using a by (auto simp: http_New_def Let_def split: option.splits prod.splits)
  moreover have "px_models p = map_of (cf_Models cfg)" "px_accounting p = cf_Accounting cfg" "px_retry p = cf_Retry cfg" "px_server p = cf_Server cfg"
      "px_router p = r" "px_quota p = Some q"
    using p by (auto simp: proxy_New_def split: if_splits)
  ultimately show ?thesis using d router_types [OF r] by (simp add: daemon_inv_def)
qed

lemma same_settings_inv:
  assumes "daemon_inv cfg d" "same_settings (hs_proxy (dm_api d)) (hs_proxy (dm_api d'))" "dm_cfg d' = dm_cfg d"
    and "accepted_store cfg (sn_store (hs_snap (dm_api d')))"
  shows "daemon_inv cfg d'"
  using assms by (auto simp: daemon_inv_def same_settings_def Let_def)

lemma refresh_cases:
  obtains (kept) w where "refreshUsers check decode rnd force i d = d\<lparr>dm_users := w\<rparr>"
  | (swapped) w data st users where "poll (dm_users d) force i = (w, Inr (Some data))" "parseStore check decode (dm_cfg d) (dm_pepper d) rnd data = Inr (st, users)"
      "refreshUsers check decode rnd force i d = d\<lparr>dm_users := w, dm_api := ReloadStore (dm_api d) st\<rparr>"
proof -
  obtain w res where pl: "poll (dm_users d) force i = (w, res)" by fastforce
  show ?thesis
  proof (cases res)
    case (Inl e)
    then show ?thesis using pl kept by (simp add: refreshUsers_def)
  next
    case (Inr o1)
    show ?thesis
    proof (cases o1)
      case None
      then show ?thesis using pl Inr kept by (simp add: refreshUsers_def)
    next
      case (Some data)
      show ?thesis
      proof (cases "parseStore check decode (dm_cfg d) (dm_pepper d) rnd data")
        case (Inl e)
        then show ?thesis using pl Inr Some kept by (simp add: refreshUsers_def)
      next
        case (Inr su)
        obtain st users where su: "su = (st, users)" by (cases su)
        show ?thesis by (rule swapped [of w data st users]) (use pl Some Inr su \<open>res = Inr o1\<close> in \<open>simp_all add: refreshUsers_def\<close>)
      qed
    qed
  qed
qed

lemma step_inv: "daemon_step cfg d d' \<Longrightarrow> daemon_inv cfg d \<Longrightarrow> daemon_inv cfg d'"
proof (induction rule: daemon_step.induct)
  case (request parseAddr show_addr env d r api' ans sent)
  then show ?case using route_settings [OF request(1)] by (intro same_settings_inv [OF request(2)]) (auto simp: daemon_inv_def)
next
  case (refresh d check decode rnd force i)
  show ?case
  proof (cases rule: refresh_cases [of check decode rnd force i d])
    case (kept w)
    then show ?thesis using refresh by (simp add: daemon_inv_def)
  next
    case (swapped w data st users)
    have "dm_cfg d = cfg" using refresh by (simp add: daemon_inv_def)
    then show ?thesis using refresh swapped(3) parseStore_accepted [OF swapped(2)]
      by (intro same_settings_inv [OF refresh]) (simp_all add: ReloadStore_def)
  qed
next
  case (ready d v)
  then show ?case by (intro same_settings_inv [OF ready]) (auto simp: SetReady_def daemon_inv_def)
next
  case (drain d)
  then show ?case by (auto simp: daemon_inv_def BeginDraining_def Let_def)
qed

lemma run_inv: "daemon_run env cfg d \<Longrightarrow> daemon_inv cfg d"
  by (induction rule: daemon_run.induct) (auto intro: build_inv step_inv)

subsection \<open>The fallback charge\<close>

lemma store_quota:
  assumes "NewStore users pep rnd = Some st" "byID st i = Some k" "0 < TokensPerHour (Limits k) \<or> 0 < TokensPerDay (Limits k)"
  shows "quotaKeysConfigured (Keys users)"
proof -
  have "fill_store Map.empty (Keys users) i = Some k" using assms(1,2) by (auto simp: NewStore_def split: if_splits option.splits)
  then obtain k' where "k' \<in> set (Keys users)" "k = normalizeKey k'" using fill_store_Some [of Map.empty "Keys users" i k] by auto
  then show ?thesis using assms(3) by (auto simp: quotaKeysConfigured_def list_ex_iff normalizeKey_def split: if_splits)
qed

text \<open>Where a quota is configured and accepted, a reservation is configured or every model generates with a cap.\<close>

lemma quota_fallback:
  assumes "checkQuotaEnforceable cfg users = Inr ()" "quotaKeysConfigured (Keys users)" "validate sx cfg = []" "map_of (cf_Models cfg) n = Some m"
  shows "0 < ac_UnknownUsageReservation (cf_Accounting cfg) \<or> mo_Type m = ''generation'' \<and> 0 < mo_MaxOutputTokens m"
proof -
  have mv: "model_violations (cf_Backends cfg) n m = []"
    using validate_parts(8) [OF assms(3)] map_of_SomeD [OF assms(4)] by (force simp: validateModels_def split: if_splits)
  then have m: "mo_Type m \<in> {''generation'', ''embedding''}" "0 \<le> mo_MaxOutputTokens m" by (simp_all add: model_violations_def Let_def)
  have r: "0 \<le> ac_UnknownUsageReservation (cf_Accounting cfg)"
    using validate_parts(3) [OF assms(3)] by (auto simp: validateAccounting_def Let_def split: if_splits)
  show ?thesis
  proof (cases "ac_UnknownUsageReservation (cf_Accounting cfg) = 0")
    case True
    then have "filter (\<lambda>(n, m). mo_Type m = ''embedding'' \<or> mo_MaxOutputTokens m = 0) (cf_Models cfg) = []"
      using assms(1,2) by (auto simp: checkQuotaEnforceable_def Let_def split: if_splits)
    then have "\<not> (mo_Type m = ''embedding'' \<or> mo_MaxOutputTokens m = 0)" using map_of_SomeD [OF assms(4)] by (auto simp: filter_empty_conv)
    then show ?thesis using m by auto
  qed (use r in auto)
qed

lemma target_type:
  assumes "resolveTarget p q o1 body now = (p1, t, None)" "op_route o1 = routeByModel"
  shows "Has (px_router p) (pt_model t)" "TypeOf (px_router p) (pt_model t) = ''generation'' \<Longrightarrow> op_endpoint o1 \<noteq> ''embeddings''"
  using assms by (auto simp: resolveTarget_def target_by_model_def Let_def split: if_splits sum.splits prod.splits option.splits)

lemma prepare_reservation:
  assumes "prepare p q o1 t now = (p2, ob, None)" "op_route o1 = routeByModel" "px_models p (pt_model t) = Some m" "op_capField o1 \<noteq> []"
  shows "ob_reservation ob = (if 0 < ac_UnknownUsageReservation (px_accounting p) then ac_UnknownUsageReservation (px_accounting p) else mo_MaxOutputTokens m)"
  using assms
  by (auto simp: prepare_def prepareOutbound_def Let_def bind_sum_Inr split: if_splits sum.splits prod.splits option.splits body_error.splits)

lemma prepare_reservation_set:
  assumes "prepare p q o1 t now = (p2, ob, None)" "op_route o1 = routeByModel" "0 < ac_UnknownUsageReservation (px_accounting p)"
  shows "ob_reservation ob = ac_UnknownUsageReservation (px_accounting p)"
  using assms
  by (auto simp: prepare_def prepareOutbound_def Let_def bind_sum_Inr split: if_splits sum.splits prod.splits option.splits body_error.splits)

lemma operation_fields: "o1 \<in> set operations \<Longrightarrow> op_route o1 = routeByModel \<Longrightarrow> op_endpoint o1 \<noteq> ''embeddings'' \<Longrightarrow> op_capField o1 \<noteq> []"
  by (auto simp: operations_def opChat_def opLegacy_def opEmbed_def opResp_def opRespGet_def opRespCancel_def)

section \<open>Properties\<close>

text \<open>
  C21: A token quota cannot be escaped by withholding usage. While a key with a token quota is served, in every state a daemon
  started on an accepted configuration can reach, a request that succeeds without reported usage is charged at least one token.
\<close>

theorem quota_counted:
  assumes "parse_config sha256 (ev_syntax env) doc = Inr (cfg, eff)" "daemon_run env cfg d"
    and "byID (sn_store (hs_snap (dm_api d))) i = Some k" "0 < TokensPerHour (Limits k) \<or> 0 < TokensPerDay (Limits k)"
    and "dispatch (hs_proxy (dm_api d)) q o1 denv = (p', out, ans, sent)" "o1 \<in> set operations" "consumesUsage o1"
    and "200 \<le> do_status out" "do_status out < 300" "do_usageStatus out = UsageUnknown"
  shows "0 < charged_total out"
proof -
  let ?p = "hs_proxy (dm_api d)"
  have v: "validate (ev_syntax env) cfg = []"
    using assms(1) by (auto simp: parse_config_def Let_def split: if_splits dest!: bind_sum_InrD)
  note inv = run_inv [OF assms(2)]
  obtain users pep rnd where us: "checkQuotaEnforceable cfg users = Inr ()" "NewStore users pep rnd = Some (sn_store (hs_snap (dm_api d)))"
    using inv by (auto simp: daemon_inv_def accepted_store_def)
  note q = store_quota [OF us(2) assms(3,4)]
  have rt: "op_route o1 = routeByModel" using assms(7) by (simp add: consumesUsage_def)
  obtain b body p1 t p2 ob where r: "resolveTarget (?p\<lparr>px_budget := b\<rparr>) q o1 body (dn_now denv) = (p1, t, None)"
      "prepare p1 q o1 t (dn_now denv) = (p2, ob, None)" "do_reservation out = ob_reservation ob"
    using success_settled [OF assms(5,7,9)] by blast
  have p1: "px_models p1 = map_of (cf_Models cfg)" "px_accounting p1 = cf_Accounting cfg"
    using resolveTarget_settings [OF r(1)] inv by (simp_all add: same_settings_def daemon_inv_def Let_def)
  obtain e where e: "models (px_router ?p) (pt_model t) = Some e" using target_type(1) [OF r(1) rt] by (auto simp: Has_def)
  then obtain m where m: "map_of (cf_Models cfg) (pt_model t) = Some m" "me_typ e = mo_Type m" using inv by (auto simp: daemon_inv_def Let_def)
  have ty: "TypeOf (px_router (?p\<lparr>px_budget := b\<rparr>)) (pt_model t) = mo_Type m" using e m(2) by (simp add: TypeOf_def)
  have "0 < ob_reservation ob"
  proof (cases "0 < ac_UnknownUsageReservation (cf_Accounting cfg)")
    case True
    then show ?thesis using prepare_reservation_set [OF r(2) rt] p1(2) by simp
  next
    case False
    then have g: "mo_Type m = ''generation''" "0 < mo_MaxOutputTokens m" using quota_fallback [OF us(1) q v m(1)] by auto
    have "op_endpoint o1 \<noteq> ''embeddings''" using target_type(2) [OF r(1) rt] ty g(1) by simp
    then have "op_capField o1 \<noteq> []" using operation_fields assms(6) rt by blast
    then show ?thesis using prepare_reservation [OF r(2) rt] p1 m(1) False g(2) by simp
  qed
  then show ?thesis using assms(8-10) r(3) by (simp add: charged_total_def)
qed

text \<open>
  C22: Reload fails closed. In every state of a daemon the store it serves from was made of a users file that validation and the
  check of its quotas accepted. A reload leaves the server as it is, or swaps in the store of the file that was read, whole and
  through the guarded read, while the file did not change.
\<close>

theorem reload_fails_closed:
  assumes "daemon_run env cfg d"
  shows "accepted_store cfg (sn_store (hs_snap (dm_api d))) \<and>
    (dm_api (refreshUsers check decode rnd force i d) = dm_api d \<or>
      (\<exists>data st users. Read (pi_open i) (pi_readable i) DefaultMaxSize = Inr data \<and> sameUsersFile (pi_seen i) (pi_after i) \<and> pi_seen i \<noteq> None \<and>
         parseStore check decode cfg (dm_pepper d) rnd data = Inr (st, users) \<and> dm_api (refreshUsers check decode rnd force i d) = ReloadStore (dm_api d) st))"
proof (rule conjI)
  have inv: "daemon_inv cfg d" using run_inv [OF assms] .
  then show "accepted_store cfg (sn_store (hs_snap (dm_api d)))" by (simp add: daemon_inv_def)
  show "dm_api (refreshUsers check decode rnd force i d) = dm_api d \<or>
      (\<exists>data st users. Read (pi_open i) (pi_readable i) DefaultMaxSize = Inr data \<and> sameUsersFile (pi_seen i) (pi_after i) \<and> pi_seen i \<noteq> None \<and>
         parseStore check decode cfg (dm_pepper d) rnd data = Inr (st, users) \<and> dm_api (refreshUsers check decode rnd force i d) = ReloadStore (dm_api d) st)"
  proof (cases rule: refresh_cases [of check decode rnd force i d])
    case (kept w)
    then show ?thesis by simp
  next
    case (swapped w data st users)
    have "dm_cfg d = cfg" using inv by (simp add: daemon_inv_def)
    moreover have "Read (pi_open i) (pi_readable i) DefaultMaxSize = Inr data \<and> sameUsersFile (pi_seen i) (pi_after i) \<and> pi_seen i \<noteq> None"
      using swapped(1) by (auto simp: poll_def Let_def split: if_splits sum.splits)
    ultimately show ?thesis using swapped(2,3) by auto
  qed
qed

subsection \<open>Witnesses\<close>

text \<open>The daemon of the example serves an embedding request that is answered without usage.\<close>

definition ex_embed_body :: bytes where
  "ex_embed_body = ''{'' @ [quote_char] @ ''model'' @ [quote_char] @ '':'' @ [quote_char] @ ''m'' @ [quote_char] @ ''}''"

definition ex_embed :: preq where
  "ex_embed = \<lparr>pq_Key = normalizeKey ex_quota_key, pq_RequestID = ''r'', pq_ResponseID = [], pq_Header = [], pq_ContentLength = 0,
     pq_Body = ex_embed_body, pq_BodyEnd = None\<rparr>"

lemma ex_router_facts:
  "Has ex_router0 ''m''" "TypeOf ex_router0 ''m'' = ''embedding''" "UpstreamFor ex_router0 ''auto-gpu-616161616161'' = Some ''up''"
  "\<exists>tgt. snd (Select ex_router0 (\<lambda>_. 0) 10 ''m'' []) = Inr tgt \<and> Backend tgt = ''auto-gpu-616161616161''"
proof -
  show "Has ex_router0 ''m''" "TypeOf ex_router0 ''m'' = ''embedding''" "UpstreamFor ex_router0 ''auto-gpu-616161616161'' = Some ''up''" by code_simp+
  have "map_sum id Backend (snd (Select ex_router0 (\<lambda>_. 0) 10 ''m'' [])) = Inr ''auto-gpu-616161616161''" by code_simp
  then show "\<exists>tgt. snd (Select ex_router0 (\<lambda>_. 0) 10 ''m'' []) = Inr tgt \<and> Backend tgt = ''auto-gpu-616161616161''"
    by (cases "snd (Select ex_router0 (\<lambda>_. 0) 10 ''m'' [])") auto
qed

definition ex_target :: ptarget where
  "ex_target = \<lparr>pt_model = ''m'', pt_stream = False, pt_backend = [], pt_path = ''/v1/embeddings'', pt_fields = Some [(''model'', JStr ''m'')], pt_body = pq_Body ex_embed\<rparr>"

definition ex_outbound :: outbound where
  "ex_outbound = \<lparr>ob_fields = Some [(''model'', JStr ''m'')], ob_body = [], ob_reservation = 7, ob_injectedUsage = False\<rparr>"

lemma ex_embed_prepared:
  "readBody ex_proxy0 ex_embed opEmbed = (px_budget ex_proxy0, 0, Inr (pq_Body ex_embed))"
  "resolveTarget ex_proxy0 ex_embed opEmbed (pq_Body ex_embed) 10 = (ex_proxy0, ex_target, None)"
  "\<exists>qt. prepare ex_proxy0 ex_embed opEmbed ex_target 10 = (ex_proxy0\<lparr>px_quota := Some qt\<rparr>, ex_outbound, None)"
proof -
  have b: "pq_Body ex_embed = ex_embed_body" by (simp add: ex_embed_def)
  have rl: "readBodyLimited 0 ex_embed_body None 64 = Inr ex_embed_body" by (simp add: readBodyLimited_def read_limited_def ex_embed_body_def)
  have f: "pq_ContentLength ex_embed = 0" "pq_BodyEnd ex_embed = None" "hdr_get (pq_Header ex_embed) k = []" "pq_Key ex_embed = normalizeKey ex_quota_key"
      "sv_MaxBodyBytes (px_server ex_proxy0) = 64" for k by (simp_all add: ex_embed_def hdr_get_def hdr_values_def ex_proxy0_def ex_conf_def)
  show "readBody ex_proxy0 ex_embed opEmbed = (px_budget ex_proxy0, 0, Inr (pq_Body ex_embed))"
    unfolding readBody_def Let_def f b by (simp add: rl opEmbed_def)
  have sp: "shallowParse ex_embed_body = Inr ([(''model'', JStr ''m'')], ''m'', False)" unfolding ex_embed_body_def by code_simp
  have al: "Allows (normalizeKey ex_quota_key) ''m''" by (simp add: Allows_def normalizeKey_def ex_quota_key_def ex_key_def ModelWildcard_def)
  have "px_router ex_proxy0 = ex_router0" by (simp add: ex_proxy0_def)
  then show "resolveTarget ex_proxy0 ex_embed opEmbed (pq_Body ex_embed) 10 = (ex_proxy0, ex_target, None)"
    using sp al ex_router_facts(1,2) by (simp add: resolveTarget_def target_by_model_def f b ex_target_def) (simp add: opEmbed_def generative_def)
  have po: "prepareOutbound [(''model'', JStr ''m'')] opEmbed 0 False e 7 = Inr (7, False, [(''model'', JStr ''m'')])" for e by (simp add: prepareOutbound_def opEmbed_def)
  have m: "px_models ex_proxy0 ''m'' = Some (snd (cf_Models ex_conf ! 0))" "mo_MaxOutputTokens (snd (cf_Models ex_conf ! 0)) = 0"
      "ac_UnknownUsageReservation (px_accounting ex_proxy0) = 7" "px_quota ex_proxy0 = Some Map.empty" by (simp_all add: ex_proxy0_def ex_conf_def)
  have rt: "op_route opEmbed = routeByModel" by (simp add: opEmbed_def)
  have l: "windowLimits (Limits (normalizeKey ex_quota_key)) = \<lparr>wl_TokensPerHour = 0, wl_TokensPerDay = 1000\<rparr>"
    by (simp add: windowLimits_def normalizeKey_def ex_quota_key_def ex_key_def)
  have "snd (Accounting.Admit Map.empty i \<lparr>wl_TokensPerHour = 0, wl_TokensPerDay = 1000\<rparr> 7 10) = None" for i by code_simp
  then have "snd (Accounting.Admit Map.empty (ID (normalizeKey ex_quota_key)) (windowLimits (Limits (normalizeKey ex_quota_key))) 7 10) = None"
    unfolding l .
  then obtain qt where "Accounting.Admit Map.empty (ID (normalizeKey ex_quota_key)) (windowLimits (Limits (normalizeKey ex_quota_key))) 7 10 = (qt, None)"
    by (metis prod.collapse)
  then show "\<exists>qt. prepare ex_proxy0 ex_embed opEmbed ex_target 10 = (ex_proxy0\<lparr>px_quota := Some qt\<rparr>, ex_outbound, None)"
    unfolding prepare_def Let_def f m by (simp add: po ex_target_def ex_outbound_def m rt) blast
qed

lemma ex_embed_attempt:
  assumes "px_router p = ex_router0" "px_clients p = px_clients ex_proxy0"
  shows "\<exists>st r. attempts p opEmbed ex_target ex_outbound h (\<lambda>_. ex_attempt 200) (Suc 0) 0 (loop_start p ex_outbound) =
    (st, LoGot ''auto-gpu-616161616161'' r) \<and> re_Body r = None \<and> re_Status r = 200 \<and> re_BodyBytes r = ''{}''"
proof -
  let ?n = "''auto-gpu-616161616161''"
  obtain tgt where tgt: "snd (Select ex_router0 (\<lambda>_. 0) 10 ''m'' []) = Inr tgt" "Backend tgt = ?n" using ex_router_facts(4) by blast
  then obtain r' where sel: "Select ex_router0 (\<lambda>_. 0) 10 ''m'' [] = (r', Inr tgt)" by (metis prod.collapse)
  have up: "UpstreamFor r' ?n = Some ''up''" using ex_router_facts(3) Select_frame [of ex_router0 "\<lambda>_. 0" 10 "''m''" "[]"] sel by (simp add: UpstreamFor_def)
  have pk: "pick_backend ex_target (ex_attempt 200) 0 (loop_start p ex_outbound) = ((loop_start p ex_outbound)\<lparr>lo_router := r'\<rparr>, Inr ?n)"
    using sel tgt(2) assms(1) by (simp add: pick_backend_def ex_target_def loop_start_def ex_attempt_def)
  obtain bd fs' where eo: "encodeOutbound [(''model'', JStr ''m'')] ''up'' = Inr (bd, fs')" by (simp add: encodeOutbound_def Let_def)
  define r where "r = \<lparr>re_Status = 200, re_Header = [], re_Body = None, re_BodyBytes = ''{}'', re_hold = False\<rparr>"
  have fw: "fst (Forward ex_gpu req (en_acquired (ex_attempt 200)) (en_valid (ex_attempt 200)) (en_transport (ex_attempt 200)) (en_timeoutFired (ex_attempt 200))) = FwdOk r"
    if "\<not> bq_Stream req" for req using that
    by (simp add: Forward_def buffered_def read_limited_def ex_gpu_def ex_attempt_def r_def Let_def)
  have "px_clients p ?n = Some ex_gpu" using assms(2) by (simp add: ex_proxy0_def)
  then have "\<exists>st. send_attempt p opEmbed ex_target ex_outbound h (ex_attempt 200) 0 ?n ((loop_start p ex_outbound)\<lparr>lo_router := r'\<rparr>) = (st, Stop (LoGot ?n r))"
    using up eo fw by (simp add: send_attempt_def attempt_body_def loop_start_def ex_outbound_def ex_target_def Let_def)
  then show ?thesis using pk by (auto simp: ex_attempt_def r_def)
qed

lemma ex_embed_dispatch:
  "\<exists>p' out ans sent. dispatch ex_proxy0 ex_embed opEmbed (ex_disp_env 200) = (p', out, ans, sent) \<and> do_status out = 200 \<and> do_usageStatus out = UsageUnknown"
proof -
  obtain qt where pr: "prepare ex_proxy0 ex_embed opEmbed ex_target 10 = (ex_proxy0\<lparr>px_quota := Some qt\<rparr>, ex_outbound, None)" using ex_embed_prepared(3) by blast
  let ?p = "ex_proxy0\<lparr>px_quota := Some qt\<rparr>"
  have rt: "px_router ?p = ex_router0" "px_clients ?p = px_clients ex_proxy0" by (simp_all add: ex_proxy0_def)
  obtain st r where at: "attempts ?p opEmbed ex_target ex_outbound (out_headers ex_embed ex_outbound) (\<lambda>_. ex_attempt 200) (Suc 0) 0 (loop_start ?p ex_outbound) =
      (st, LoGot ''auto-gpu-616161616161'' r)" "re_Body r = None" "re_Status r = 200" "re_BodyBytes r = ''{}''"
    using ex_embed_attempt [of ?p "out_headers ex_embed ex_outbound"] rt by (auto simp del: attempts.simps)
  have u: "StatusOf (ParseUsage ''{}'') = UsageUnknown" by code_simp
  have c: "consumesUsage opEmbed" "op_method opEmbed = ''POST''" by (simp_all add: consumesUsage_def opEmbed_def)
  have fl: "\<exists>p1 out1 w. finish_loop ?p ex_embed opEmbed ex_target ex_outbound (ex_disp_env 200) (st, LoGot ''auto-gpu-616161616161'' r) out = (p1, out1, w) \<and>
      do_status out1 = 200 \<and> do_usageStatus out1 = UsageUnknown" for out
    using at u c by (simp add: finish_loop_def finish_result_def Let_def)
  have dn: "dn_now (ex_disp_env 200) = 10" "dn_attempt (ex_disp_env 200) = (\<lambda>_. ex_attempt 200)" "\<not> px_draining ex_proxy0" "max_attempts ?p = Suc 0"
    by (simp_all add: ex_disp_env_def ex_proxy0_def max_attempts_def ex_conf_def)
  have "\<exists>p1 out1 w sent. dispatch_core ex_proxy0 ex_embed opEmbed (ex_disp_env 200) = ((p1, out1, w), sent, 0) \<and> do_status out1 = 200 \<and> do_usageStatus out1 = UsageUnknown"
    using fl at(1) by (simp add: dispatch_core_def dn ex_embed_prepared(1) dispatch_body_def ex_embed_prepared(2) pr Let_def del: attempts.simps)
  then show ?thesis by (auto simp: dispatch_def final_out_def Let_def)
qed

theorem quota_counted_witness:
  "\<exists>d p' out ans sent. daemon_run ex_env ex_conf d \<and>
     dispatch (hs_proxy (dm_api d)) ex_embed opEmbed (ex_disp_env 200) = (p', out, ans, sent) \<and> 0 < charged_total out"
proof -
  obtain eff where e: "parse_config ex_sha (ev_syntax ex_env) ex_doc = Inr (ex_conf, eff)" using ex_conf_parsed by (auto simp: ex_env_def)
  obtain d where d: "buildDaemon ex_env ex_conf = Inr d" "hs_proxy (dm_api d) = ex_proxy0" "sn_store (hs_snap (dm_api d)) = ex_quota_store" using ex_build by blast
  have r: "daemon_run ex_env ex_conf d" using d(1) by (rule daemon_run.start)
  obtain p' out ans sent where dp: "dispatch (hs_proxy (dm_api d)) ex_embed opEmbed (ex_disp_env 200) = (p', out, ans, sent)"
      "do_status out = 200" "do_usageStatus out = UsageUnknown" using ex_embed_dispatch unfolding d(2) by blast
  have k: "byID (sn_store (hs_snap (dm_api d))) (ID ex_quota_key) = Some (normalizeKey ex_quota_key)" "0 < TokensPerDay (Limits (normalizeKey ex_quota_key))"
    unfolding d(3) by (simp_all add: ex_quota_store_def normalizeKey_def ex_quota_key_def)
  have "opEmbed \<in> set operations" "consumesUsage opEmbed" by (simp_all add: operations_def consumesUsage_def opEmbed_def)
  from quota_counted [OF e r k(1) disjI2 [OF k(2)] dp(1) this] dp show ?thesis using r by auto
qed

theorem reload_fails_closed_witness:
  "\<exists>d. daemon_run ex_env ex_conf d \<and> accepted_store ex_conf (sn_store (hs_snap (dm_api d))) \<and>
     dm_api (refreshUsers (\<lambda>_. True) (\<lambda>_. None) None True ex_poll d) = dm_api d"
proof -
  obtain d where "buildDaemon ex_env ex_conf = Inr d" using ex_build by blast
  then have r: "daemon_run ex_env ex_conf d" by (rule daemon_run.start)
  have "parseStore (\<lambda>_. True) (\<lambda>_. None) ex_conf (dm_pepper d) None data = Inl (UsersRejected BadYAML)" for data
    by (simp add: parseStore_def ParseUsers_def)
  then show ?thesis using r reload_fails_closed [OF r, of "\<lambda>_. True" "\<lambda>_. None" None True ex_poll] by auto
qed

end
