(* ===== verification/Command.thy ===== *)
theory Command
  imports Daemon
begin

text \<open>
  The command \<^verbatim>\<open>serve\<close> from its first step to its last (\<^verbatim>\<open>serveCmd\<close> of \<^verbatim>\<open>src/cmd/mellomting/serve.go\<close>): the order in which it
  builds the daemon, binds its listeners, confines itself and begins to serve, and how it stops. Flags and the reading of the
  configuration file are left out: the input is what \<^verbatim>\<open>config.Load\<close> yields.
\<close>

section \<open>Definitions\<close>

definition adminSocketMode :: string where "adminSocketMode = ''0600''"

text \<open>
  What the command meets: the configuration if it could be loaded, the host at startup, the answers for the two sockets with the
  addresses they are bound to, and the sandbox of the platform.
\<close>

record serve_env =
  se_config :: "config option"
  se_start :: start_env
  se_ingress :: sock_env
  se_tcp :: "string \<Rightarrow> bool"
  se_admin :: sock_env
  se_addr :: net_addr
  se_adminAddr :: net_addr
  se_sandbox :: "config \<Rightarrow> sandbox_backend"

datatype serve_call =
    IngressBound | AdminBound | IngressClosed | AdminClosed | SandboxEntered confinement | ServeIngress | ServeAdmin | MarkReady

definition admin_listen :: "config \<Rightarrow> listen_cfg" where
  "admin_listen cfg = \<lparr>l_Network = ''unix'', l_Address = sv_AdminSocket (cf_Server cfg), l_Mode = adminSocketMode\<rparr>"

text \<open>\<^verbatim>\<open>applySandbox\<close>, then the servers; \<open>admin\<close> says whether there is an admin socket.\<close>

definition serve_bound :: "serve_env \<Rightarrow> config \<Rightarrow> daemon \<Rightarrow> serve_call list \<times> (int + daemon)" where
  "serve_bound e cfg d =
     (let admin = (sv_AdminSocket (cf_Server cfg) \<noteq> []) in
      case enforceSandbox (sx_URL (ev_syntax (se_start e))) (se_sandbox e cfg) cfg (se_addr e # (if admin then [se_adminAddr e] else [])) of
        Inl _ \<Rightarrow> (IngressClosed # (if admin then [AdminClosed] else []), Inl 1)
      | Inr c \<Rightarrow> ([SandboxEntered c, ServeIngress] @ (if admin then [ServeAdmin] else []) @ [MarkReady], Inr (d\<lparr>dm_api := SetReady (dm_api d) True\<rparr>)))"

definition serve_listen :: "serve_env \<Rightarrow> config \<Rightarrow> daemon \<Rightarrow> serve_call list \<times> (int + daemon)" where
  "serve_listen e cfg d =
     (case buildListener (se_ingress e) (se_tcp e) (sv_Listen (cf_Server cfg)) of
        (_, Inl _) \<Rightarrow> ([], Inl 1)
      | (_, Inr _) \<Rightarrow>
          if sv_AdminSocket (cf_Server cfg) = [] then (case serve_bound e cfg d of (cs, r) \<Rightarrow> (IngressBound # cs, r))
          else case buildListener (se_admin e) (se_tcp e) (admin_listen cfg) of
            (_, Inl _) \<Rightarrow> ([IngressBound, IngressClosed], Inl 1)
          | (_, Inr _) \<Rightarrow> (case serve_bound e cfg d of (cs, r) \<Rightarrow> (IngressBound # AdminBound # cs, r)))"

text \<open>Up to the signal loop: an exit code, or the daemon that is ready.\<close>

definition serve_start :: "serve_env \<Rightarrow> serve_call list \<times> (int + daemon)" where
  "serve_start e =
     (case se_config e of
        None \<Rightarrow> ([], Inl 1)
      | Some cfg \<Rightarrow>
          if newDaemonLogger (cf_Logging cfg) = None then ([], Inl 1)
          else case buildDaemon (se_start e) cfg of Inl _ \<Rightarrow> ([], Inl 1) | Inr d \<Rightarrow> serve_listen e cfg d)"

text \<open>The shutdown after the drain began; \<open>second\<close> says whether another signal arrives before the server is down.\<close>

datatype stop_call = HttpShutdown | HttpClose | ListenerClose | AccountingClose

definition serve_stop :: "daemon \<Rightarrow> bool \<Rightarrow> stop_call list" where
  "serve_stop d second =
     [HttpShutdown] @ (if second then [HttpClose] else []) @ [ListenerClose] @ (if px_acc (hs_proxy (dm_api d)) \<noteq> None then [AccountingClose] else [])"

text \<open>The exit code, \<open>None\<close> while the process still waits for an event.\<close>

definition serveCmd ::
  "(bytes \<Rightarrow> bool) \<Rightarrow> (bytes \<Rightarrow> users_file option) \<Rightarrow> serve_env \<Rightarrow> loop_event list \<Rightarrow> bool \<Rightarrow> serve_call list \<times> stop_call list \<times> int option" where
  "serveCmd check decode e events second =
     (case serve_start e of
        (cs, Inl code) \<Rightarrow> (cs, [], Some code)
      | (cs, Inr d) \<Rightarrow>
          (case signal_loop check decode d events of
             (_, Waiting) \<Rightarrow> (cs, [], None)
           | (_, ExitCode code) \<Rightarrow> (cs, [], Some code)
           | (d', ShuttingDown) \<Rightarrow> (cs, serve_stop d' second, Some 0)))"

section \<open>Lemmas\<close>

lemma drained_sends_nothing: "dispatch p q o1 env = (p', out, ans, sent) \<Longrightarrow> px_draining p \<Longrightarrow> sent = []"
  by (auto simp: dispatch_def dispatch_core_def Let_def split: prod.splits)

lemma drained_route:
  assumes "route parseAddr show_addr env s r = (s', ans, sent)" "px_draining (hs_proxy s)"
  shows "sent = []"
  using assms(1) [unfolded route_def]
proof (cases rule: routeBody_cases)
  case (gates s1)
  from gates(2) show ?thesis
  proof (cases rule: admitted_cases)
    case (authorized sl g s2 key)
    have a: "px_draining (hs_proxy s2)" using authorize_frame [OF authorized(1)] assms(2) by simp
    from authorized(2) show ?thesis
    proof (cases rule: key_gate_cases)
      case (served h1 reg ks h2 ra h3 s3)
      then show ?thesis using a drained_sends_nothing by (fastforce simp: serve_def Let_def split: if_splits option.splits prod.splits)
    qed
  qed
qed

lemma draining_step: "daemon_step cfg d d' \<Longrightarrow> px_draining (hs_proxy (dm_api d)) \<Longrightarrow> px_draining (hs_proxy (dm_api d'))"
proof (induction rule: daemon_step.induct)
  case (request parseAddr show_addr env d r api' ans sent)
  then show ?case using route_settings [OF request(1)] by (simp add: same_settings_def)
next
  case (refresh d check decode rnd force i)
  then show ?case by (cases rule: refresh_cases [of check decode rnd force i d]) (auto simp: ReloadStore_def)
qed (auto simp: SetReady_def BeginDraining_def)

lemma draining_steps: "(daemon_step cfg)\<^sup>*\<^sup>* d d' \<Longrightarrow> px_draining (hs_proxy (dm_api d)) \<Longrightarrow> px_draining (hs_proxy (dm_api d'))"
  by (induction rule: rtranclp_induct) (auto intro: draining_step)

lemma loop_drains: "signal_loop check decode d es = (d', ShuttingDown) \<Longrightarrow> px_draining (hs_proxy (dm_api d'))"
  by (induction check decode d es rule: signal_loop.induct) (auto simp: BeginDraining_def)

lemma serve_bound_calls:
  assumes "serve_bound e cfg d = (cs, r)"
  shows "case r of Inl code \<Rightarrow> code = 1 \<and> cs = IngressClosed # (if sv_AdminSocket (cf_Server cfg) \<noteq> [] then [AdminClosed] else [])
    | Inr d' \<Rightarrow> \<exists>c. cs = [SandboxEntered c, ServeIngress] @ (if sv_AdminSocket (cf_Server cfg) \<noteq> [] then [ServeAdmin] else []) @ [MarkReady] \<and>
        (sb_mode (se_sandbox e cfg) = ModeRequired \<longrightarrow> (\<exists>pol. c = Confined pol)) \<and> d' = d\<lparr>dm_api := SetReady (dm_api d) True\<rparr>"
  using assms
  by (auto simp: serve_bound_def enforceSandbox_def failClosed_def ModeRequired_def ModeDisabled_def Let_def bind_sum_Inr split: sum.splits if_splits)

section \<open>Properties\<close>



subsection \<open>Witnesses\<close>

definition ex_serve :: serve_env where
  "ex_serve = \<lparr>se_config = Some ex_conf, se_start = ex_env, se_ingress = ex_stale, se_tcp = (\<lambda>_. True), se_admin = ex_stale,
     se_addr = TCPAddr 80, se_adminAddr = OtherAddr, se_sandbox = (\<lambda>_. ex_landlock)\<rparr>"

lemma ex_enforced: "\<exists>pol. enforceSandbox (sx_URL ex_syntax) ex_landlock ex_conf [TCPAddr 80] = Inr (Confined pol)"
proof -
  have "backend_port (sx_URL ex_syntax) ''http://127.0.0.1:8000'' = Inr 8000"
    by (simp add: backend_port_def ex_syntax_def Validate.ex_url_def Port_def url_split_def validOptionalPort_def parse_uint16_def is_digit_def byte_of_def)
  then show ?thesis
    by (simp add: enforceSandbox_def ex_landlock_def ModeRequired_def ModeDisabled_def sandboxPolicy_def BackendPorts_def backendBaseURLs_def ex_conf_def ex_upstream_def)
qed



end
