(* ===== verification/Discovery.thy ===== *)
theory Discovery
  imports HttpApi Validate
begin

text \<open>
  Model discovery (\<^verbatim>\<open>src/internal/discovery/discovery.go\<close>): reading the model list of an inference server that is not trusted yet,
  token by token as the \<^verbatim>\<open>json.Decoder\<close> does, the strict decoding of its names, the egress policy for the servers, and the merge of
  their lists into one routing table.

  A \<^verbatim>\<open>json.Decoder\<close> is the text that is left. A \<^verbatim>\<open>json.RawMessage\<close> is a tree, as in \<^verbatim>\<open>Json\<close>.
\<close>

section \<open>Definitions\<close>

definition MaxModelIDBytes :: nat where "MaxModelIDBytes = 256"
definition MaxResponseBytes :: int where "MaxResponseBytes = 2 ^ 20"
definition MaxModels :: int where "MaxModels = 256"
definition MaxServers :: nat where "MaxServers = 16"
definition MaxUniqueModels :: nat where "MaxUniqueModels = 1024"

subsection \<open>Names\<close>

fun jsonHex16 :: "nat \<Rightarrow> string \<Rightarrow> nat option" where
  "jsonHex16 v [] = Some v"
| "jsonHex16 v (c # cs) = (case hex_val c of None \<Rightarrow> None | Some d \<Rightarrow> jsonHex16 (v * 16 + d) cs)"

text \<open>The body of a literal; unlike \<^verbatim>\<open>encoding/json\<close> it refuses a lone surrogate and copies other bytes as they are.\<close>

function decode_literal :: "string \<Rightarrow> string option" where
  "decode_literal [] = Some []"
| "decode_literal (c # cs) =
     (if c \<noteq> backslash then (if byte_of c < 0x20 then None else map_option ((#) c) (decode_literal cs))
      else case cs of
        [] \<Rightarrow> None
      | e # rest \<Rightarrow>
          if e \<in> {quote_char, backslash, CHR ''/''} then map_option ((#) e) (decode_literal rest)
          else if e = CHR ''b'' then map_option ((#) (CHR 0x08)) (decode_literal rest)
          else if e = CHR ''f'' then map_option ((#) (CHR 0x0C)) (decode_literal rest)
          else if e = CHR ''n'' then map_option ((#) (CHR 0x0A)) (decode_literal rest)
          else if e = CHR ''r'' then map_option ((#) (CHR 0x0D)) (decode_literal rest)
          else if e = CHR ''t'' then map_option ((#) (CHR 0x09)) (decode_literal rest)
          else if e = CHR ''u'' then
            (if length rest < 4 then None
             else case jsonHex16 0 (take 4 rest) of
               None \<Rightarrow> None
             | Some code \<Rightarrow>
                 (let more = drop 4 rest in
                  if 0xD800 \<le> code \<and> code \<le> 0xDBFF then
                    (if length more < 6 \<or> more ! 0 \<noteq> backslash \<or> more ! 1 \<noteq> CHR ''u'' then None
                     else case jsonHex16 0 (take 4 (drop 2 more)) of
                       None \<Rightarrow> None
                     | Some low \<Rightarrow>
                         if low < 0xDC00 \<or> 0xDFFF < low then None
                         else map_option ((@) (encode_rune (0x10000 + (code - 0xD800) * 1024 + (low - 0xDC00)))) (decode_literal (drop 6 more)))
                  else if 0xDC00 \<le> code \<and> code \<le> 0xDFFF then None
                  else map_option ((@) (encode_rune code)) (decode_literal more)))
          else None)"
  by pat_completeness auto
termination by (relation "measure length") auto

declare decode_literal.simps [simp del]

definition decodeJSONString :: "json option \<Rightarrow> string option" where
  "decodeJSONString raw = (case raw of Some (JStr body) \<Rightarrow> decode_literal body | _ \<Rightarrow> None)"

definition validModelID :: "string \<Rightarrow> bool" where
  "validModelID s \<longleftrightarrow>
     s \<noteq> [] \<and> length s \<le> MaxModelIDBytes \<and> valid_utf8 s \<and> ValidateModelName s = None \<and>
     list_all (\<lambda>r. \<not> is_control r \<and> \<not> is_Cf r \<and> r \<noteq> 0x2028 \<and> r \<noteq> 0x2029) (runes s) \<and>
     \<not> is_space (fst (decode_rune s)) \<and> \<not> is_space (last (runes s))"

subsection \<open>The list\<close>

datatype discovery_error =
    DBadMaxBytes | DBadMaxModels | DReadFailed | DTooManyBytes | DInvalidJSON | DNotAnObject | DDuplicateObject | DDuplicateData
  | DDuplicateModel | DNotList | DNoData | DTrailingData | DDataNotArray | DTooManyModels | DBadEntry | DEntryNotModel | DBadModelID

record disc_entry =
  de_Object :: string
  de_ID :: "json option"

definition dec_entry :: "json \<Rightarrow> disc_entry \<times> bool" where
  "dec_entry v =
     dec_struct [''object'', ''id'']
       (\<lambda>t x r. if t = ''object'' then set_field (dec_string x (de_Object r)) (\<lambda>a. r\<lparr>de_Object := a\<rparr>)
                else set_field (dec_raw x (de_ID r)) (\<lambda>a. r\<lparr>de_ID := a\<rparr>))
       v \<lparr>de_Object = [], de_ID = None\<rparr>"

text \<open>One whole value at the head of the text, as \<^verbatim>\<open>Decode\<close> reads it.\<close>

definition value_at :: "string \<Rightarrow> (json \<times> string) option" where
  "value_at s = pval (2 * length s + 1) 0 s"

definition entry_id :: "json \<Rightarrow> discovery_error + string" where
  "entry_id v =
     (let (entry, err) = dec_entry v in
      if err then Inl DBadEntry
      else if de_Object entry \<noteq> ''model'' then Inl DEntryNotModel
      else case decodeJSONString (de_ID entry) of
        None \<Rightarrow> Inl DBadModelID
      | Some i \<Rightarrow> if validModelID i then Inr i else Inl DBadModelID)"

lemma value_at_shorter: "value_at s = Some (v, rest) \<Longrightarrow> length rest < length s"
  unfolding value_at_def by (rule parse_shorter(1))

text \<open>
  The loop over the array; \<open>first\<close> says that no element was read yet, so that no comma is due. The text ends or closes
  something else: the next token is an error.
\<close>

definition after_comma :: "bool \<Rightarrow> string \<Rightarrow> string option" where
  "after_comma first s =
     (if first then Some s else case skip_ws s of c # rest \<Rightarrow> if c = CHR '','' then Some rest else None | [] \<Rightarrow> None)"

lemma after_comma_length: "after_comma first s = Some s1 \<Longrightarrow> length s1 \<le> length s"
  by (auto simp: after_comma_def split: if_splits list.splits dest!: skip_ws_Cons)

function parse_entries :: "int \<Rightarrow> string list \<Rightarrow> bool \<Rightarrow> string \<Rightarrow> discovery_error + string list \<times> string" where
  "parse_entries maxModels ids first s =
     (case skip_ws s of
        [] \<Rightarrow> Inl DInvalidJSON
      | c # rest \<Rightarrow>
          if c = CHR '']'' then Inr (ids, rest)
          else if c = CHR ''}'' then Inl DInvalidJSON
          else if maxModels \<le> int (length ids) then Inl DTooManyModels
          else case after_comma first s of
            None \<Rightarrow> Inl DBadEntry
          | Some s1 \<Rightarrow>
              (case value_at s1 of
                 None \<Rightarrow> Inl DBadEntry
               | Some (v, s2) \<Rightarrow> (case entry_id v of Inl e \<Rightarrow> Inl e | Inr i \<Rightarrow> parse_entries maxModels (ids @ [i]) False s2)))"
  by pat_completeness auto
termination
  by (relation "measure (\<lambda>(_, _, _, s). length s)") (auto dest!: value_at_shorter after_comma_length)

declare parse_entries.simps [simp del]

definition after_colon :: "string \<Rightarrow> string option" where
  "after_colon s = (case skip_ws s of c # rest \<Rightarrow> if c = CHR '':'' then Some rest else None | [] \<Rightarrow> None)"

definition parseData :: "int \<Rightarrow> string \<Rightarrow> discovery_error + string list \<times> string" where
  "parseData maxModels s =
     (case after_colon s of
        None \<Rightarrow> Inl DInvalidJSON
      | Some s1 \<Rightarrow>
          (case skip_ws s1 of
             [] \<Rightarrow> Inl DInvalidJSON
           | c # rest \<Rightarrow>
               if c = CHR ''['' then parse_entries maxModels [] True rest
               else if c = CHR ''{'' \<or> value_at s1 \<noteq> None then Inl DDataNotArray
               else Inl DInvalidJSON))"

record list_state =
  ls_object :: string
  ls_objectSeen :: bool
  ls_dataSeen :: bool
  ls_ids :: "string list"

definition member_value :: "string \<Rightarrow> (json \<times> string) option" where
  "member_value s = Option.bind (after_colon s) value_at"

text \<open>One member: its key was read, the text goes on behind it.\<close>

definition list_member :: "int \<Rightarrow> string \<Rightarrow> list_state \<Rightarrow> string \<Rightarrow> discovery_error + list_state \<times> string" where
  "list_member maxModels key st s =
     (if key = ''object'' then
        if ls_objectSeen st then Inl DDuplicateObject
        else case member_value s of
          None \<Rightarrow> Inl DInvalidJSON
        | Some (v, rest) \<Rightarrow>
            (case dec_string v (ls_object st) of
               (a, err) \<Rightarrow> if err then Inl DInvalidJSON else Inr (st\<lparr>ls_object := a, ls_objectSeen := True\<rparr>, rest))
      else if key = ''data'' then
        if ls_dataSeen st then Inl DDuplicateData
        else case parseData maxModels s of
          Inl e \<Rightarrow> Inl e
        | Inr (ids, rest) \<Rightarrow>
            if distinct (ls_ids st @ ids) then Inr (st\<lparr>ls_dataSeen := True, ls_ids := ls_ids st @ ids\<rparr>, rest) else Inl DDuplicateModel
      else case member_value s of None \<Rightarrow> Inl DInvalidJSON | Some (v, rest) \<Rightarrow> Inr (st, rest))"

definition member_key :: "string \<Rightarrow> (string \<times> string) option" where
  "member_key s =
     (case skip_ws s of
        q # rest \<Rightarrow> if q = quote_char then map_option (\<lambda>(k, r). (unquote k, r)) (scan_str rest) else None
      | [] \<Rightarrow> None)"

lemma entries_shorter: "parse_entries mx ids first s = Inr (ids', rest) \<Longrightarrow> length rest < length s"
proof (induction mx ids first s rule: parse_entries.induct)
  case (1 mx ids first s)
  show ?case
  proof (cases "\<exists>rest0. skip_ws s = CHR '']'' # rest0")
    case True
    then show ?thesis using 1(2) skip_ws_Cons by (force simp: parse_entries.simps)
  next
    case False
    obtain c cs s1 v s2 i where p: "skip_ws s = c # cs" "c \<noteq> CHR '']''" "c \<noteq> CHR ''}''" "\<not> mx \<le> int (length ids)"
        "after_comma first s = Some s1" "value_at s1 = Some (v, s2)" "entry_id v = Inr i" "parse_entries mx (ids @ [i]) False s2 = Inr (ids', rest)"
      using 1(2) False by (subst (asm) parse_entries.simps) (auto split: list.splits if_splits option.splits sum.splits)
    have "length rest < length s2" using 1(1) [OF p(1,2,3,4,5,6) _ p(7,8)] by simp
    then show ?thesis using value_at_shorter [OF p(6)] after_comma_length [OF p(5)] by simp
  qed
qed

lemma after_colon_shorter: "after_colon s = Some s1 \<Longrightarrow> length s1 < length s"
  by (auto simp: after_colon_def split: list.splits if_splits dest!: skip_ws_Cons)

lemma list_member_shorter: "list_member mx key st s = Inr (st', rest) \<Longrightarrow> length rest < length s"
  by (fastforce simp: list_member_def member_value_def parseData_def Option.bind_eq_Some_conv
      dest!: entries_shorter value_at_shorter after_colon_shorter skip_ws_Cons split: if_splits option.splits sum.splits list.splits prod.splits)

lemma member_key_shorter: "member_key s = Some (k, rest) \<Longrightarrow> length rest < length s"
  by (auto simp: member_key_def split: list.splits if_splits dest!: skip_ws_Cons scan_lengths(1))

function parse_members :: "int \<Rightarrow> list_state \<Rightarrow> bool \<Rightarrow> string \<Rightarrow> discovery_error + list_state \<times> string" where
  "parse_members maxModels st first s =
     (case skip_ws s of
        [] \<Rightarrow> Inl DInvalidJSON
      | c # rest \<Rightarrow>
          if c = CHR ''}'' then Inr (st, rest)
          else if c = CHR '']'' then Inl DInvalidJSON
          else case Option.bind (after_comma first s) member_key of
            None \<Rightarrow> Inl DInvalidJSON
          | Some (key, s1) \<Rightarrow>
              (case list_member maxModels key st s1 of Inl e \<Rightarrow> Inl e | Inr (st', s2) \<Rightarrow> parse_members maxModels st' False s2))"
  by pat_completeness auto
termination
  by (relation "measure (\<lambda>(_, _, _, s). length s)")
    (auto simp: Option.bind_eq_Some_conv dest!: list_member_shorter member_key_shorter after_comma_length)

declare parse_members.simps [simp del]

definition parseModelList :: "int \<Rightarrow> string \<Rightarrow> discovery_error + string list" where
  "parseModelList maxModels s =
     (case skip_ws s of
        [] \<Rightarrow> Inl DInvalidJSON
      | c # rest \<Rightarrow>
          if c = CHR ''{'' then
            (case parse_members maxModels \<lparr>ls_object = [], ls_objectSeen = False, ls_dataSeen = False, ls_ids = []\<rparr> True rest of
               Inl e \<Rightarrow> Inl e
             | Inr (st, rest') \<Rightarrow>
                 if \<not> ls_objectSeen st \<or> ls_object st \<noteq> ''list'' then Inl DNotList
                 else if \<not> ls_dataSeen st then Inl DNoData
                 else if skip_ws rest' \<noteq> [] then Inl DTrailingData
                 else Inr (ls_ids st))
          else if c = CHR ''['' \<or> value_at s \<noteq> None then Inl DNotAnObject
          else Inl DInvalidJSON)"

text \<open>\<open>ending\<close> is the error behind the bytes of the reader, if it has one.\<close>

definition ParseModels :: "bytes \<Rightarrow> go_error option \<Rightarrow> int \<Rightarrow> int \<Rightarrow> discovery_error + string list" where
  "ParseModels body ending maxBytes maxModels =
     (if maxBytes \<le> 0 then Inl DBadMaxBytes
      else if maxModels \<le> 0 then Inl DBadMaxModels
      else case read_limited (maxBytes + 1) body ending of
        (data, Some _) \<Rightarrow> Inl DReadFailed
      | (data, None) \<Rightarrow>
          if maxBytes < int (length data) then Inl DTooManyBytes
          else (case parseModelList maxModels data of Inl e \<Rightarrow> Inl e | Inr ids \<Rightarrow> Inr (sort ids)))"

subsection \<open>Fetching\<close>

record disc_server =
  ds_Name :: string
  ds_BaseURL :: string

datatype fetch_error =
    FConnect | FDialTimeout | FHeaderTimeout | FTimeout | FContext go_error | FPolicy string | FBadURL string | FStatus int
  | FContentType | FTooLarge discovery_error | FParse discovery_error

definition classifyContextError :: "go_error \<Rightarrow> fetch_error" where
  "classifyContextError err = (if is_deadline err then FTimeout else FContext err)"

text \<open>\<open>headers_late\<close> says whether the text of an error has the phrase of the transport for late headers.\<close>

definition classifyRequestError :: "(go_error \<Rightarrow> bool) \<Rightarrow> go_error option \<Rightarrow> go_error \<Rightarrow> fetch_error" where
  "classifyRequestError headers_late ctxErr err =
     (case ctxErr of
        Some c \<Rightarrow> classifyContextError c
      | None \<Rightarrow>
          if is_sentinel ErrDialTimeout err then FDialTimeout
          else if is_sentinel ErrConnect err then FConnect
          else if is_sentinel ErrPolicy err then FPolicy []
          else if headers_late err then FHeaderTimeout
          else FConnect)"

text \<open>
  The request goes through \<open>do\<close>, whose dialer has the policy. The context is asked for its error after a failed request and
  after a failed parse.
\<close>

record fetch_env =
  fe_parseCIDR :: "string \<Rightarrow> ipnet option"
  fe_urlParse :: "string \<Rightarrow> url option"
  fe_do :: "policy \<Rightarrow> http_request \<Rightarrow> go_error + http_response"
  fe_ctxRequest :: "go_error option"
  fe_ctxParse :: "go_error option"
  fe_headersLate :: "go_error \<Rightarrow> bool"
  fe_mediaType :: "string \<Rightarrow> string option"

definition endpoint :: "url \<Rightarrow> string" where
  "endpoint base = u_Scheme base @ ''://'' @ u_Host base @ ''/v1/models''"

definition fetch_request :: "url \<Rightarrow> http_request" where
  "fetch_request u =
     \<lparr>hq_Method = ''GET'', hq_Scheme = u_Scheme u, hq_Host = u_Host u, hq_Path = u_Path u,
      hq_Header = [(''Accept'', [''application/json''])], hq_Body = []\<rparr>"

definition fetch_answer :: "fetch_env \<Rightarrow> http_response \<Rightarrow> fetch_error + string list" where
  "fetch_answer env resp =
     (let ct = hdr_get (hr_Header resp) ''Content-Type'' in
      if hr_Status resp \<noteq> 200 then Inl (FStatus (hr_Status resp))
      else if ct \<noteq> [] \<and> fe_mediaType env ct \<noteq> Some ''application/json'' then Inl FContentType
      else case ParseModels (hr_Body resp) (hr_End resp) MaxResponseBytes MaxModels of
        Inr ids \<Rightarrow> Inr ids
      | Inl e \<Rightarrow>
          (case fe_ctxParse env of
             Some c \<Rightarrow> Inl (classifyContextError c)
           | None \<Rightarrow> Inl (if e \<in> {DTooManyBytes, DTooManyModels} then FTooLarge e else FParse e)))"

definition Fetch :: "fetch_env \<Rightarrow> network_cfg \<Rightarrow> disc_server \<Rightarrow> fetch_error + string list" where
  "Fetch env network server =
     (case PolicyFromConfig (fe_parseCIDR env) network of
        Inl e \<Rightarrow> Inl (FPolicy e)
      | Inr pol \<Rightarrow>
          (case parseBaseURL (fe_urlParse env) (ds_BaseURL server) of
             Inl e \<Rightarrow> Inl (FBadURL e)
           | Inr base \<Rightarrow>
               (case fe_urlParse env (endpoint base) of
                  None \<Rightarrow> Inl FConnect
                | Some u \<Rightarrow>
                    (case fe_do env pol (fetch_request u) of
                       Inl err \<Rightarrow> Inl (classifyRequestError (fe_headersLate env) (fe_ctxRequest env) err)
                     | Inr resp \<Rightarrow> fetch_answer env resp))))"

subsection \<open>The egress policy\<close>

datatype derive_error = NoServers | ServerURL string | NotLiteral

fun server_ips :: "(string \<Rightarrow> url option) \<Rightarrow> (string \<Rightarrow> ip option) \<Rightarrow> disc_server list \<Rightarrow> derive_error + ip list" where
  "server_ips urlParse parseIP [] = Inr []"
| "server_ips urlParse parseIP (s # ss) =
     (case parseBaseURL urlParse (ds_BaseURL s) of
        Inl e \<Rightarrow> Inl (ServerURL e)
      | Inr u \<Rightarrow>
          (case parseIP (Hostname u) of
             None \<Rightarrow> Inl NotLiteral
           | Some ip \<Rightarrow> (case server_ips urlParse parseIP ss of Inl e \<Rightarrow> Inl e | Inr ips \<Rightarrow> Inr (ip # ips))))"

definition cidr_text :: "(ip \<Rightarrow> string) \<Rightarrow> ip \<Rightarrow> string" where
  "cidr_text showIP ip = (case To4 ip of Some v4 \<Rightarrow> showIP v4 @ ''/32'' | None \<Rightarrow> showIP ip @ ''/128'')"

fun first_seen :: "string list \<Rightarrow> string list \<Rightarrow> string list" where
  "first_seen seen [] = []"
| "first_seen seen (c # cs) = (if c \<in> set seen then first_seen seen cs else c # first_seen (c # seen) cs)"

definition DerivePolicy ::
  "(string \<Rightarrow> url option) \<Rightarrow> (string \<Rightarrow> ip option) \<Rightarrow> (ip \<Rightarrow> string) \<Rightarrow> disc_server list \<Rightarrow> derive_error + network_cfg" where
  "DerivePolicy urlParse parseIP showIP servers =
     (if servers = [] then Inl NoServers
      else case server_ips urlParse parseIP servers of
        Inl e \<Rightarrow> Inl e
      | Inr ips \<Rightarrow>
          if list_all IsLoopback ips then Inr \<lparr>bn_Mode = ''loopback-only'', bn_CIDRs = []\<rparr>
          else Inr \<lparr>bn_Mode = ''allowed-cidrs'', bn_CIDRs = sort (first_seen [] (map (cidr_text showIP) ips))\<rparr>)"

subsection \<open>The merge\<close>

datatype aggregate_error =
    ANoServers | ATooManyServers | ANoName | ADuplicateServer string | AMissing string | AUnexpected | ATooManyModels string
  | AEmptyID string | ADuplicateModel string string | ATooManyUnique

fun check_servers :: "(string \<times> string list) list \<Rightarrow> string list \<Rightarrow> disc_server list \<Rightarrow> aggregate_error + unit" where
  "check_servers discovered seen [] = Inr ()"
| "check_servers discovered seen (s # ss) =
     (if ds_Name s = [] then Inl ANoName
      else if ds_Name s \<in> set seen then Inl (ADuplicateServer (ds_Name s))
      else if map_of discovered (ds_Name s) = None then Inl (AMissing (ds_Name s))
      else check_servers discovered (ds_Name s # seen) ss)"

definition add_replica :: "string \<Rightarrow> string \<Rightarrow> (string \<times> string list) list \<Rightarrow> (string \<times> string list) list" where
  "add_replica i name table = (case map_of table i of None \<Rightarrow> table @ [(i, [name])] | Some ns \<Rightarrow> AList.update i (ns @ [name]) table)"

fun add_models ::
  "string \<Rightarrow> string list \<Rightarrow> string list \<Rightarrow> (string \<times> string list) list \<Rightarrow> aggregate_error + (string \<times> string list) list" where
  "add_models name seen [] table = Inr table"
| "add_models name seen (i # ids) table =
     (if i = [] then Inl (AEmptyID name)
      else if i \<in> set seen then Inl (ADuplicateModel name i)
      else add_models name (i # seen) ids (add_replica i name table))"

fun merge_servers ::
  "(string \<times> string list) list \<Rightarrow> string list \<Rightarrow> (string \<times> string list) list \<Rightarrow> aggregate_error + (string \<times> string list) list" where
  "merge_servers discovered [] table = Inr table"
| "merge_servers discovered (name # names) table =
     (let ids = the (map_of discovered name) in
      if MaxModels < int (length ids) then Inl (ATooManyModels name)
      else case add_models name [] ids table of Inl e \<Rightarrow> Inl e | Inr table' \<Rightarrow> merge_servers discovered names table')"

definition Aggregate :: "disc_server list \<Rightarrow> (string \<times> string list) list \<Rightarrow> aggregate_error + (string \<times> string list) list" where
  "Aggregate ordered discovered =
     (if ordered = [] then Inl ANoServers
      else if MaxServers < length ordered then Inl ATooManyServers
      else case check_servers discovered [] ordered of
        Inl e \<Rightarrow> Inl e
      | Inr _ \<Rightarrow>
          if \<not> set (map fst discovered) \<subseteq> set (map ds_Name ordered) then Inl AUnexpected
          else case merge_servers discovered (map ds_Name ordered) [] of
            Inl e \<Rightarrow> Inl e
          | Inr table \<Rightarrow> if MaxUniqueModels < length table then Inl ATooManyUnique else Inr table)"

definition SortedModels :: "(string \<times> string list) list \<Rightarrow> string list" where
  "SortedModels table = sort (map fst table)"

section \<open>Lemmas\<close>

subsection \<open>What a list can hold\<close>

lemma entry_id_valid: "entry_id v = Inr i \<Longrightarrow> validModelID i"
  by (auto simp: entry_id_def Let_def split: prod.splits if_splits option.splits)

lemma parse_entries_sound:
  "parse_entries mx ids first s = Inr (ids', rest) \<Longrightarrow>
     \<exists>new. ids' = ids @ new \<and> list_all validModelID new \<and> int (length ids') \<le> max mx (int (length ids))"
proof (induction mx ids first s rule: parse_entries.induct)
  case (1 mx ids first s)
  show ?case
  proof (cases "\<exists>rest0. skip_ws s = CHR '']'' # rest0")
    case True
    then show ?thesis using 1(2) by (auto simp: parse_entries.simps)
  next
    case False
    obtain c cs s1 v s2 i where p: "skip_ws s = c # cs" "c \<noteq> CHR '']''" "c \<noteq> CHR ''}''" "\<not> mx \<le> int (length ids)"
        "after_comma first s = Some s1" "value_at s1 = Some (v, s2)" "entry_id v = Inr i" "parse_entries mx (ids @ [i]) False s2 = Inr (ids', rest)"
      using 1(2) False by (subst (asm) parse_entries.simps) (auto split: list.splits if_splits option.splits sum.splits)
    from 1(1) [OF p(1,2,3,4,5,6) _ p(7,8)] obtain new where "ids' = (ids @ [i]) @ new" "list_all validModelID new"
        "int (length ids') \<le> max mx (int (length (ids @ [i])))" by auto
    then show ?thesis using entry_id_valid [OF p(7)] p(4) by (intro exI [of _ "i # new"]) auto
  qed
qed

lemma parseData_sound:
  "parseData mx s = Inr (ids, rest) \<Longrightarrow> 0 < mx \<Longrightarrow> list_all validModelID ids \<and> int (length ids) \<le> mx"
  by (auto simp: parseData_def split: option.splits list.splits if_splits dest!: parse_entries_sound)

definition list_ok :: "int \<Rightarrow> list_state \<Rightarrow> bool" where
  "list_ok mx st \<longleftrightarrow>
     list_all validModelID (ls_ids st) \<and> distinct (ls_ids st) \<and> int (length (ls_ids st)) \<le> mx \<and> (ls_dataSeen st \<or> ls_ids st = [])"

lemma list_member_ok: "list_member mx key st s = Inr (st', rest) \<Longrightarrow> 0 < mx \<Longrightarrow> list_ok mx st \<Longrightarrow> list_ok mx st'"
  by (auto simp: list_member_def list_ok_def split: if_splits option.splits sum.splits prod.splits dest!: parseData_sound)

lemma parse_members_ok:
  "parse_members mx st first s = Inr (st', rest) \<Longrightarrow> 0 < mx \<Longrightarrow> list_ok mx st \<Longrightarrow> list_ok mx st'"
proof (induction mx st first s rule: parse_members.induct)
  case (1 mx st first s)
  show ?case
  proof (cases "\<exists>rest0. skip_ws s = CHR ''}'' # rest0")
    case True
    then show ?thesis using 1(2,4) by (auto simp: parse_members.simps)
  next
    case False
    obtain c cs key s1 st1 s2 where p: "skip_ws s = c # cs" "c \<noteq> CHR ''}''" "c \<noteq> CHR '']''"
        "Option.bind (after_comma first s) member_key = Some (key, s1)" "list_member mx key st s1 = Inr (st1, s2)"
        "parse_members mx st1 False s2 = Inr (st', rest)"
      using 1(2) False by (subst (asm) parse_members.simps) (auto split: list.splits if_splits option.splits sum.splits)
    show ?thesis using 1(1) [OF p(1,2,3,4) refl p(5) refl p(6) 1(3) list_member_ok [OF p(5) 1(3,4)]] .
  qed
qed

lemma parseModelList_sound:
  assumes "parseModelList mx s = Inr ids" "0 < mx"
  shows "list_all validModelID ids \<and> distinct ids \<and> int (length ids) \<le> mx"
proof -
  have "list_ok mx \<lparr>ls_object = [], ls_objectSeen = False, ls_dataSeen = False, ls_ids = []\<rparr>" using assms(2) by (simp add: list_ok_def)
  then show ?thesis using assms
    by (auto simp: parseModelList_def list_ok_def split: list.splits if_splits sum.splits prod.splits dest!: parse_members_ok)
qed

lemma ParseModels_sound:
  "ParseModels body ending mb mx = Inr ids \<Longrightarrow>
     sorted ids \<and> distinct ids \<and> list_all validModelID ids \<and> int (length ids) \<le> mx \<and> int (length body) \<le> mb"
  by (auto simp: ParseModels_def read_limited_def list_all_iff split: if_splits option.splits sum.splits prod.splits dest!: parseModelList_sound)

subsection \<open>A printed list is read back\<close>

lemma decode_literal_plain: "c \<noteq> backslash \<Longrightarrow> \<not> byte_of c < 0x20 \<Longrightarrow> decode_literal (c # cs) = map_option ((#) c) (decode_literal cs)"
  by (simp add: decode_literal.simps)

lemma decode_literal_high:
  "\<forall>c \<in> set u. 0x80 \<le> byte_of c \<Longrightarrow> decode_literal (u @ t) = map_option ((@) u) (decode_literal t)"
proof (induction u)
  case Nil
  then show ?case by (simp add: option.map_ident_strong)
next
  case (Cons c u)
  then have "c \<noteq> backslash" by (auto simp: byte_of_def)
  then show ?case using Cons by (simp add: decode_literal_plain option.map_comp comp_def)
qed

lemma decode_literal_u:
  assumes "a < 16" "b < 16" "hex_val cx = Some x" "hex_val cy = Some y" "x * 4096 + y * 256 + a * 16 + b < 0xD800"
  shows "decode_literal (backslash # CHR ''u'' # cx # cy # hex_digit a # hex_digit b # t) =
    map_option ((@) (encode_rune (x * 4096 + y * 256 + a * 16 + b))) (decode_literal t)"
proof -
  have "jsonHex16 0 [cx, cy, hex_digit a, hex_digit b] = Some (x * 4096 + y * 256 + a * 16 + b)"
    using assms by (simp add: algebra_simps)
  then show ?thesis using assms(5) by (simp add: decode_literal.simps(2) [of backslash])
qed

lemma decode_literal_ascii:
  assumes c: "byte_of c < 0x80"
  shows "decode_literal (quote_ascii html c @ t) = map_option ((#) c) (decode_literal t)"
proof -
  let ?b = "byte_of c"
  consider (safe) "safe_byte html ?b" | (esc) "?b \<in> {8, 9, 10, 12, 13, 0x5C, 0x22}" "\<not> safe_byte html ?b"
    | (u) "?b \<notin> {8, 9, 10, 12, 13, 0x5C, 0x22}" "\<not> safe_byte html ?b" by blast
  then show ?thesis
  proof cases
    case safe
    then have "c \<noteq> backslash" "\<not> ?b < 0x20" by (auto simp: safe_byte_def)
    with safe show ?thesis by (simp add: quote_ascii_def decode_literal_plain)
  next
    case esc
    then have "c \<in> {CHR 0x08, CHR 0x09, CHR 0x0A, CHR 0x0C, CHR 0x0D, backslash, quote_char}"
      by (simp add: char_eq_byte [of c]) (simp add: byte_of_def)
    then show ?thesis by (elim insertE) (simp_all add: quote_ascii_def byte_of_def safe_byte_def decode_literal.simps(2) [of backslash])
  next
    case u
    have "?b div 16 < 16" "?b mod 16 < 16" using c by auto
    from decode_literal_u [OF this, of "CHR ''0''" 0 "CHR ''0''" 0 t] c u show ?thesis
      by (cases "decode_literal t") (simp_all add: quote_ascii_def encode_rune_def Let_def)
  qed
qed

lemma decode_literal_quote: "valid_utf8 s \<Longrightarrow> decode_literal (quote_body html s) = Some s"
proof (induction html s rule: quote_body.induct)
  case (2 html c cs)
  obtain r n where d: "decode_rune (c # cs) = (r, n)" by fastforce
  with "2.prems" have ok: "(r, n) \<noteq> (RuneError, 1)" and v: "valid_utf8 (drop (n - 1) cs)" by auto
  note ed = encode_decode [OF d _ ok]
  show ?case
  proof (cases "byte_of c < 0x80")
    case True
    with d have "n = 1" by (simp add: decode1)
    with v 2(1) True show ?thesis by (simp add: decode_literal_ascii)
  next
    case big: False
    have IH: "decode_literal (quote_body html (drop (n - 1) cs)) = Some (drop (n - 1) cs)"
      using 2(3,4) [OF big d [symmetric] refl] ok v by (cases "r = 0x2028 \<or> r = 0x2029") (auto simp: RuneError_def)
    have split: "take n (c # cs) @ drop (n - 1) cs = c # cs" using ed by (cases n) auto
    show ?thesis
    proof (cases "r = 0x2028 \<or> r = 0x2029")
      case True
      then have rm: "0x2000 + 0x20 + r mod 16 = r" "r mod 16 < 16" by auto
      have hex2: "hex_digit 2 = CHR ''2''" by code_simp
      have "decode_literal (backslash # CHR ''u'' # CHR ''2'' # CHR ''0'' # CHR ''2'' # hex_digit (r mod 16) # t) =
          map_option ((@) (encode_rune r)) (decode_literal t)" for t
        using decode_literal_u [of 2 "r mod 16" "CHR ''2''" 2 "CHR ''0''" 0 t] rm hex2 by simp
      then show ?thesis using big d ok True IH ed split by (auto simp: RuneError_def)
    next
      case False
      then show ?thesis using big d ok IH split decode_literal_high [OF rune_high [OF d ok big]] by auto
    qed
  qed
qed (simp add: decode_literal.simps)

lemma value_at_compact: "wf_json 0 v \<Longrightarrow> delimited rest \<Longrightarrow> value_at (compact v @ rest) = Some (v, rest)"
  unfolding value_at_def by (rule pval_compact) auto

lemma join_tail: "join_with c (p # ps) = p @ concat (map ((#) c) ps)"
  by (induction ps arbitrary: p) auto

lemma unquote_field:
  "unquote (quote_body True ''created'') = ''created''" "unquote (quote_body True ''id'') = ''id''"
  "unquote (quote_body True ''object'') = ''object''" "unquote (quote_body True ''owned_by'') = ''owned_by''"
  "unquote (quote_body True ''data'') = ''data''" "unquote (quote_body True ''list'') = ''list''"
  "unquote (quote_body True ''model'') = ''model''"
  by (rule unquote_quote, simp add: decode1 byte_of_def RuneError_def)+

lemma entry_tag:
  "find_tag [''object'', ''id''] ''created'' = None" "find_tag [''object'', ''id''] ''owned_by'' = None"
  "find_tag [''object'', ''id''] ''id'' = Some ''id''" "find_tag [''object'', ''id''] ''object'' = Some ''object''"
  by code_simp+

lemma entry_id_model_json: "validModelID n \<Longrightarrow> entry_id (model_json st n) = Inr n"
proof -
  assume n: "validModelID n"
  have d: "decode_literal (quote_body True n) = Some n" using n by (simp add: decode_literal_quote validModelID_def)
  have e: "dec_entry (model_json st n) = (\<lparr>de_Object = ''model'', de_ID = Some (encode_string n)\<rparr>, False)"
    by (simp add: dec_entry_def model_json_def encode_string_def unquote_field set_field_def entry_tag del: quote_body.simps)
  show ?thesis unfolding entry_id_def e by (simp add: decodeJSONString_def encode_string_def d n del: quote_body.simps)
qed

abbreviation entry_text :: "int \<Rightarrow> string \<Rightarrow> string" where
  "entry_text st n \<equiv> compact (model_json st n)"

lemma wf_model_json: "0 < st \<Longrightarrow> wf_json d (model_json st n) \<longleftrightarrow> d < maxNestingDepth"
  by (auto simp: model_json_def encode_string_def ok_str_quote ok_num_literal simp del: quote_body.simps)

lemma entry_text_start: "\<exists>cs. entry_text st n = CHR ''{'' # cs"
  by (simp add: model_json_def)

lemma skip_ws_plain: "\<not> is_ws c \<Longrightarrow> skip_ws (c # cs) = c # cs"
  by (simp add: skip_ws_def)

lemma entries_step:
  assumes "0 < st" "validModelID n" "int (length ids) < mx" "delimited rest"
    and "s = (if first then [] else [CHR '','']) @ entry_text st n @ rest"
  shows "parse_entries mx ids first s = parse_entries mx (ids @ [n]) False rest"
proof -
  obtain cs where cs: "entry_text st n = CHR ''{'' # cs" using entry_text_start by blast
  have v: "value_at (entry_text st n @ rest) = Some (model_json st n, rest)"
    by (rule value_at_compact) (use assms(1,4) wf_model_json in \<open>auto simp: maxNestingDepth_def\<close>)
  have a: "after_comma first s = Some (entry_text st n @ rest)" using assms(5) by (simp add: after_comma_def skip_ws_plain is_ws_def byte_of_def)
  obtain c cs' where k: "skip_ws s = c # cs'" "c \<noteq> CHR '']''" "c \<noteq> CHR ''}''"
    using assms(5) cs by (cases first) (auto simp: skip_ws_plain is_ws_def byte_of_def)
  show ?thesis by (subst parse_entries.simps) (use k a v entry_id_model_json [OF assms(2)] assms(3) in auto)
qed

lemma entries_tail:
  assumes "0 < st" "list_all validModelID names" "int (length (ids @ names)) \<le> mx"
  shows "parse_entries mx ids False (concat (map (\<lambda>n. CHR '','' # entry_text st n) names) @ CHR '']'' # rest) = Inr (ids @ names, rest)"
  using assms(2,3)
proof (induction names arbitrary: ids)
  case Nil
  then show ?case by (subst parse_entries.simps) (simp add: skip_ws_plain is_ws_def byte_of_def)
next
  case (Cons n names)
  have "delimited (concat (map (\<lambda>n. CHR '','' # entry_text st n) names) @ CHR '']'' # rest)" by (cases names) auto
  with entries_step [OF assms(1), of n ids mx _ _ False] Cons show ?case by simp
qed

lemma entries_compact:
  assumes "0 < st" "list_all validModelID names" "int (length names) \<le> mx"
  shows "parse_entries mx [] True (join_with (CHR '','') (map (entry_text st) names) @ CHR '']'' # rest) = Inr (names, rest)"
proof (cases names)
  case Nil
  then show ?thesis by (subst parse_entries.simps) (simp add: skip_ws_plain is_ws_def byte_of_def)
next
  case (Cons n ns)
  let ?t = "concat (map (\<lambda>n. CHR '','' # entry_text st n) ns) @ CHR '']'' # rest"
  have "delimited ?t" by (cases ns) auto
  moreover have "join_with (CHR '','') (map (entry_text st) names) @ CHR '']'' # rest = entry_text st n @ ?t"
    using Cons by (simp add: join_tail comp_def)
  ultimately show ?thesis using entries_step [OF assms(1), of n "[]" mx ?t _ True] entries_tail [OF assms(1), of ns "[n]" mx rest] assms(2,3) Cons by simp
qed

lemma member_key_plain: "ok_str k \<Longrightarrow> member_key (quote_char # k @ quote_char # rest) = Some (unquote k, rest)"
  by (simp add: member_key_def skip_ws_plain is_ws_def byte_of_def ok_str_def)

lemma members_step:
  assumes "ok_str k" "list_member mx (unquote k) st tail1 = Inr (st', tail2)"
    and "s = (if first then [] else [CHR '','']) @ quote_char # k @ quote_char # tail1"
  shows "parse_members mx st first s = parse_members mx st' False tail2"
proof -
  have a: "Option.bind (after_comma first s) member_key = Some (unquote k, tail1)"
    using assms(3) member_key_plain [OF assms(1)] by (simp add: after_comma_def skip_ws_plain is_ws_def byte_of_def)
  obtain c cs where k: "skip_ws s = c # cs" "c \<noteq> CHR ''}''" "c \<noteq> CHR '']''"
    using assms(3) by (cases first) (auto simp: skip_ws_plain is_ws_def byte_of_def)
  show ?thesis by (subst parse_members.simps) (use k a assms(2) in auto)
qed

lemma parseModelList_compact:
  assumes "0 < st" "list_all validModelID names" "distinct names" "int (length names) \<le> mx"
  shows "parseModelList mx (compact (models_json st names)) = Inr names"
proof -
  let ?list = "CHR '':'' # compact (encode_string ''list'') @ ''}''"
  let ?tail = "CHR '','' # quote_char # quote_body True ''object'' @ quote_char # ?list"
  let ?data = "CHR '':'' # CHR ''['' # join_with (CHR '','') (map (entry_text st) names) @ CHR '']'' # ?tail"
  define s0 where "s0 = \<lparr>ls_object = [], ls_objectSeen = False, ls_dataSeen = False, ls_ids = []\<rparr>"
  define s1 where "s1 = s0\<lparr>ls_dataSeen := True, ls_ids := names\<rparr>"
  define s2 where "s2 = s1\<lparr>ls_object := ''list'', ls_objectSeen := True\<rparr>"
  note ws = skip_ws_plain is_ws_def byte_of_def
  have body: "compact (models_json st names) = CHR ''{'' # quote_char # quote_body True ''data'' @ quote_char # ?data"
    by (simp add: models_json_def comp_def del: quote_body.simps)
  have "parseData mx ?data = Inr (names, ?tail)"
    using entries_compact [OF assms(1,2,4)] by (simp add: parseData_def after_colon_def ws del: quote_body.simps)
  then have m1: "list_member mx ''data'' s0 ?data = Inr (s1, ?tail)" using assms(3) by (simp add: list_member_def s0_def s1_def)
  have "value_at (compact (encode_string ''list'') @ ''}'') = Some (encode_string ''list'', ''}'')"
    by (rule value_at_compact) (simp_all add: encode_string_def ok_str_quote del: quote_body.simps)
  then have m2: "list_member mx ''object'' s1 ?list = Inr (s2, ''}'')"
    by (simp add: list_member_def member_value_def after_colon_def ws s1_def s0_def s2_def encode_string_def unquote_field del: quote_body.simps)
  have "parse_members mx s0 True (quote_char # quote_body True ''data'' @ quote_char # ?data) = parse_members mx s1 False ?tail"
    by (rule members_step [OF ok_str_quote]) (simp_all only: unquote_field m1 if_True append_Nil)
  also have "\<dots> = parse_members mx s2 False ''}''"
    by (rule members_step [OF ok_str_quote]) (simp_all add: unquote_field m2 del: quote_body.simps)
  also have "\<dots> = Inr (s2, [])" by (subst parse_members.simps) (simp add: ws)
  finally show ?thesis unfolding body by (simp add: parseModelList_def ws s0_def [symmetric] s1_def s2_def) (simp add: s0_def skip_ws_def)
qed

subsection \<open>The merge\<close>

definition replicas_of :: "(string \<times> string list) list \<Rightarrow> string \<Rightarrow> string list" where
  "replicas_of table i = (case map_of table i of None \<Rightarrow> [] | Some ns \<Rightarrow> ns)"

definition table_ok :: "(string \<times> string list) list \<Rightarrow> bool" where
  "table_ok table \<longleftrightarrow> distinct (map fst table) \<and> (\<forall>i. map_of table i \<noteq> Some [])"

lemma add_replica_map: "map_of (add_replica i n table) = (map_of table)(i \<mapsto> replicas_of table i @ [n])"
  by (auto simp: add_replica_def replicas_of_def update_conv' map_of_append fun_eq_iff map_add_def split: option.splits)

lemma add_replica_keys: "distinct (map fst table) \<Longrightarrow> distinct (map fst (add_replica i n table))"
  by (auto simp: add_replica_def distinct_update map_of_eq_None_iff split: option.splits)

lemma add_replica_ok:
  "table_ok table \<Longrightarrow> table_ok (add_replica i n table)"
  "replicas_of (add_replica i n table) j = replicas_of table j @ (if j = i then [n] else [])"
proof -
  show "table_ok table \<Longrightarrow> table_ok (add_replica i n table)" unfolding table_ok_def add_replica_map using add_replica_keys by auto
  show "replicas_of (add_replica i n table) j = replicas_of table j @ (if j = i then [n] else [])"
    unfolding replicas_of_def add_replica_map by auto
qed

lemma add_models_accepts:
  "(\<exists>t. add_models n seen ids table = Inr t) \<longleftrightarrow> [] \<notin> set ids \<and> distinct ids \<and> set ids \<inter> set seen = {}"
  by (induction n seen ids table rule: add_models.induct) auto

lemma add_models_spec:
  "add_models n seen ids table = Inr t \<Longrightarrow> table_ok table \<Longrightarrow>
     table_ok t \<and> (\<forall>j. replicas_of t j = replicas_of table j @ (if j \<in> set ids then [n] else []))"
proof (induction n seen ids table rule: add_models.induct)
  case (2 n seen i ids table)
  then have p: "i \<noteq> []" "i \<notin> set seen" "add_models n (i # seen) ids (add_replica i n table) = Inr t" by (auto split: if_splits)
  have "i \<notin> set ids" using add_models_accepts [of n "i # seen" ids "add_replica i n table"] p(3) by auto
  with 2(1) [OF p add_replica_ok(1) [OF 2(3)]] add_replica_ok(2) show ?case by auto
qed auto

abbreviation exposes :: "(string \<times> string list) list \<Rightarrow> string \<Rightarrow> string \<Rightarrow> bool" where
  "exposes discovered i \<equiv> \<lambda>n. i \<in> set (the (map_of discovered n))"

lemma merge_accepts:
  "(\<exists>t. merge_servers discovered names table = Inr t) \<longleftrightarrow>
     (\<forall>n \<in> set names. let ids = the (map_of discovered n) in int (length ids) \<le> MaxModels \<and> [] \<notin> set ids \<and> distinct ids)"
proof (induction names arbitrary: table)
  case (Cons n names)
  then show ?case using add_models_accepts [of n "[]" "the (map_of discovered n)" table]
    by (auto simp: Let_def not_less split: sum.splits)
qed simp

lemma merge_spec:
  "merge_servers discovered names table = Inr t \<Longrightarrow> table_ok table \<Longrightarrow>
     table_ok t \<and> (\<forall>j. replicas_of t j = replicas_of table j @ filter (exposes discovered j) names)"
proof (induction names arbitrary: table)
  case (Cons n names)
  then obtain t1 where t1: "add_models n [] (the (map_of discovered n)) table = Inr t1" "merge_servers discovered names t1 = Inr t"
    by (auto simp: Let_def split: if_splits sum.splits)
  show ?case using Cons.IH [OF t1(2)] add_models_spec [OF t1(1) Cons.prems(2)] by auto
qed simp

lemma check_servers_spec:
  "check_servers discovered seen ss = Inr () \<longleftrightarrow>
     [] \<notin> ds_Name ` set ss \<and> distinct (map ds_Name ss) \<and> ds_Name ` set ss \<inter> set seen = {} \<and> ds_Name ` set ss \<subseteq> fst ` set discovered"
  by (induction ss arbitrary: seen) (auto simp: map_of_eq_None_iff)

lemma table_keys: "table_ok t \<Longrightarrow> set (map fst t) = {i. replicas_of t i \<noteq> []}"
proof -
  assume t: "table_ok t"
  have "i \<in> set (map fst t) \<longleftrightarrow> map_of t i \<noteq> None" for i by (simp add: map_of_eq_None_iff)
  then show ?thesis using t by (auto simp: replicas_of_def table_ok_def split: option.splits)
qed

lemma table_ok_Nil: "table_ok []"
  by (simp add: table_ok_def)

definition exposed :: "(string \<times> string list) list \<Rightarrow> string list \<Rightarrow> string set" where
  "exposed discovered names = (\<Union>n \<in> set names. set (the (map_of discovered n)))"

definition results_ok :: "string list \<Rightarrow> (string \<times> string list) list \<Rightarrow> bool" where
  "results_ok names discovered \<longleftrightarrow>
     0 < length names \<and> length names \<le> 16 \<and> distinct names \<and> [] \<notin> set names \<and> set names = fst ` set discovered \<and>
     list_all (\<lambda>n. let ids = the (map_of discovered n) in length ids \<le> 256 \<and> distinct ids \<and> [] \<notin> set ids) names \<and>
     card (exposed discovered names) \<le> 1024"

lemma merge_content:
  assumes "merge_servers discovered names [] = Inr table"
  shows "SortedModels table = sorted_list_of_set (exposed discovered names)" "length table = card (exposed discovered names)"
    and "map_of table i = (if i \<in> exposed discovered names then Some (filter (exposes discovered i) names) else None)"
proof -
  from merge_spec [OF assms table_ok_Nil] have t: "table_ok table" "\<And>j. replicas_of table j = filter (exposes discovered j) names"
    by (auto simp: replicas_of_def)
  have k: "set (map fst table) = exposed discovered names" unfolding table_keys [OF t(1)] t(2) by (auto simp: exposed_def filter_empty_conv)
  have d: "distinct (map fst table)" using t(1) by (simp add: table_ok_def)
  show "SortedModels table = sorted_list_of_set (exposed discovered names)"
    using sorted_list_of_set_sort_remdups [of "map fst table"] k d by (simp add: distinct_remdups_id SortedModels_def)
  show "length table = card (exposed discovered names)" using k d distinct_card [of "map fst table"] by simp
  show "map_of table i = (if i \<in> exposed discovered names then Some (filter (exposes discovered i) names) else None)"
  proof (cases "map_of table i")
    case None
    then have "i \<notin> exposed discovered names" using k by (auto simp: map_of_eq_None_iff)
    with None show ?thesis by simp
  next
    case (Some ns)
    then have "i \<in> exposed discovered names" using k by (metis map_of_eq_None_iff option.distinct(1) set_map)
    with Some t(2) [of i] show ?thesis by (simp add: replicas_of_def)
  qed
qed

lemma Aggregate_accepts: "(\<exists>table. Aggregate ordered discovered = Inr table) \<longleftrightarrow> results_ok (map ds_Name ordered) discovered"
proof -
  let ?names = "map ds_Name ordered"
  have ok: "results_ok ?names discovered \<longleftrightarrow>
      ordered \<noteq> [] \<and> \<not> MaxServers < length ordered \<and> check_servers discovered [] ordered = Inr () \<and> fst ` set discovered \<subseteq> set ?names \<and>
      (\<exists>table. merge_servers discovered ?names [] = Inr table) \<and> card (exposed discovered ?names) \<le> MaxUniqueModels"
    unfolding merge_accepts check_servers_spec results_ok_def list_all_iff Let_def MaxModels_def MaxServers_def MaxUniqueModels_def by auto
  show ?thesis
  proof (cases "merge_servers discovered ?names []")
    case (Inl e)
    then show ?thesis unfolding ok by (cases "check_servers discovered [] ordered") (auto simp: Aggregate_def)
  next
    case (Inr t)
    then show ?thesis unfolding ok using merge_content(2) [OF Inr] by (cases "check_servers discovered [] ordered") (auto simp: Aggregate_def)
  qed
qed

subsection \<open>The derived policy\<close>

definition canonical :: "ip \<Rightarrow> ip" where
  "canonical ip = (case To4 ip of Some v4 \<Rightarrow> v4 | None \<Rightarrow> ip)"

definition is_ip :: "ip \<Rightarrow> bool" where
  "is_ip ip \<longleftrightarrow> length ip \<in> {4, 16} \<and> list_all (\<lambda>b. b < 256) ip"

definition host_net :: "ip \<Rightarrow> ipnet" where
  "host_net ip = \<lparr>in_IP = ip, in_Mask = replicate (length ip) 255\<rparr>"

lemma canonical_is_ip: "is_ip ip \<Longrightarrow> is_ip (canonical ip) \<and> (length (canonical ip) = 16 \<longrightarrow> To4 (canonical ip) = None)"
  by (auto simp: is_ip_def canonical_def To4_def list_all_iff split: if_splits dest!: in_set_dropD dest: arg_cong [where f = length])

lemma and_byte: "b < 256 \<Longrightarrow> b AND 255 = (b :: nat)"
  using take_bit_nat_eq_self [of b 8] by (simp add: take_bit_eq_mask mask_eq_exp_minus_1)

lemma bytes_equal:
  fixes xs ys :: "nat list"
  shows "length xs = length ys \<Longrightarrow> list_all (\<lambda>b. b < 256) xs \<Longrightarrow> list_all (\<lambda>b. b < 256) ys \<Longrightarrow>
     list_all2 (\<lambda>(a, k) b. a AND k = b AND k) (zip xs (replicate (length xs) 255)) ys \<longleftrightarrow> xs = ys"
  by (induction xs ys rule: list_induct2) (auto simp: and_byte)

lemma host_net_exact:
  assumes "is_ip x" "length x = 16 \<longrightarrow> To4 x = None" "is_ip y"
  shows "Contains (host_net x) y \<longleftrightarrow> canonical y = x"
proof -
  have n: "network_and_mask (host_net x) = (x, replicate (length x) 255)"
    using assms(1,2) by (auto simp: network_and_mask_def host_net_def is_ip_def To4_def Let_def)
  have "is_ip (canonical y)" using canonical_is_ip [OF assms(3)] by blast
  then show ?thesis using bytes_equal [of x "canonical y"] assms(1)
    by (auto simp: Contains_def n canonical_def [symmetric] is_ip_def)
qed

lemma host_nets_allow:
  assumes "list_all is_ip ips" "is_ip ip" "set nets = (\<lambda>x. host_net (canonical x)) ` set ips"
  shows "allow \<lparr>po_Mode = ''allowed-cidrs'', po_CIDRs = nets\<rparr> ip \<longleftrightarrow> canonical ip \<in> canonical ` set ips"
proof -
  have e: "Contains (host_net (canonical x)) y \<longleftrightarrow> canonical y = canonical x" if "x \<in> set ips" "is_ip y" for x y
    using host_net_exact canonical_is_ip that assms(1) by (simp add: list_all_iff)
  have v4: "is_ip v \<and> canonical v = canonical ip" if "To4 ip = Some v" for v
    using that assms(2) by (auto simp: is_ip_def canonical_def To4_def list_all_iff split: if_splits dest!: in_set_dropD)
  show ?thesis using e assms(2) v4 by (auto simp: allow_def list_ex_iff assms(3) split: option.splits)
qed

lemma set_first_seen: "set (first_seen seen cs) = set cs - set seen"
  by (induction seen cs rule: first_seen.induct) auto

lemma parse_cidrs_all:
  "list_all (\<lambda>c. parseCIDR c \<noteq> None) cs \<Longrightarrow> parse_cidrs parseCIDR cs = Inr (map (the \<circ> parseCIDR) cs)"
  by (induction cs) auto

lemma server_ips_is_ip:
  "server_ips urlParse parseIP ss = Inr ips \<Longrightarrow> (\<And>h x. parseIP h = Some x \<Longrightarrow> is_ip x) \<Longrightarrow> list_all is_ip ips"
  by (induction ss arbitrary: ips) (auto split: sum.splits option.splits)

lemma cidr_text_canonical:
  "is_ip ip \<Longrightarrow> cidr_text showIP ip = showIP (canonical ip) @ (if length (canonical ip) = 4 then ''/32'' else ''/128'')"
  by (auto simp: cidr_text_def canonical_def is_ip_def To4_def)


section \<open>Properties\<close>


text \<open>
  C30: What discovery accepts is well formed, whatever an untrusted server answers: the names it returns are sorted, without
  repetition and at most \<^verbatim>\<open>MaxModels\<close>, and every one is a valid model name of valid UTF-8, free of control, format and separator
  characters, that the access lists do not read as a wildcard.
\<close>

theorem Fetch_well_formed:
  assumes "Fetch env network server = Inr ids"
  shows "sorted ids \<and> distinct ids \<and> list_all validModelID ids \<and> length ids \<le> 256"
  using assms ParseModels_sound [of _ _ MaxResponseBytes MaxModels ids]
  by (auto simp: Fetch_def fetch_answer_def Let_def MaxModels_def split: sum.splits if_splits option.splits)

text \<open>
  C31: The merge is exact. \<^verbatim>\<open>Aggregate\<close> accepts exactly one complete result per server, within the bounds, with no repeated or
  empty name; then every model is routed to precisely the servers that expose it, in the order the servers were given, and the
  names it renders are the exposed ones, sorted.
\<close>
theorem Aggregate_exact:
  "case Aggregate ordered discovered of
     Inl _ \<Rightarrow> \<not> results_ok (map ds_Name ordered) discovered
   | Inr table \<Rightarrow>
       results_ok (map ds_Name ordered) discovered \<and>
       SortedModels table = sorted_list_of_set (exposed discovered (map ds_Name ordered)) \<and>
       (\<forall>i. map_of table i =
          (if i \<in> exposed discovered (map ds_Name ordered) then Some (filter (exposes discovered i) (map ds_Name ordered)) else None))"
proof (cases "Aggregate ordered discovered")
  case (Inr table)
  then have m: "merge_servers discovered (map ds_Name ordered) [] = Inr table" by (auto simp: Aggregate_def split: if_splits sum.splits)
  show ?thesis using Inr Aggregate_accepts [of ordered discovered] merge_content(1,3) [OF m] by auto
qed (use Aggregate_accepts [of ordered discovered] in auto)

text \<open>
  C32: The derived policy is exact. The egress policy for a list of servers is accepted by the backend client; it allows the
  loopback addresses when every server is one, and otherwise exactly the addresses of the servers, whatever form they are
  written in. \<open>parseIP\<close> yields addresses, and \<open>parseCIDR\<close> reads the text of an address with its full length as that one host.
\<close>

theorem derived_policy_exact:
  assumes ip: "\<And>h x. parseIP h = Some x \<Longrightarrow> is_ip x"
    and cidr: "\<And>x. is_ip x \<Longrightarrow> length x = 16 \<longrightarrow> To4 x = None \<Longrightarrow>
      parseCIDR (showIP x @ (if length x = 4 then ''/32'' else ''/128'')) = Some (host_net x)"
    and ok: "DerivePolicy urlParse parseIP showIP servers = Inr network"
  shows "\<exists>pol ips. PolicyFromConfig parseCIDR network = Inr pol \<and> server_ips urlParse parseIP servers = Inr ips \<and>
    (\<forall>x. is_ip x \<longrightarrow> allow pol x = (if list_all IsLoopback ips then IsLoopback x else canonical x \<in> canonical ` set ips))"
proof -
  have result: ?thesis if "PolicyFromConfig parseCIDR network = Inr pol" "server_ips urlParse parseIP servers = Inr ips"
      "\<And>x. is_ip x \<Longrightarrow> allow pol x = (if list_all IsLoopback ips then IsLoopback x else canonical x \<in> canonical ` set ips)" for pol ips
    using that by blast
  from ok obtain ips where i: "servers \<noteq> []" "server_ips urlParse parseIP servers = Inr ips"
    by (auto simp: DerivePolicy_def split: if_splits sum.splits)
  show ?thesis
  proof (cases "list_all IsLoopback ips")
    case True
    then have "PolicyFromConfig parseCIDR network = Inr \<lparr>po_Mode = ''loopback-only'', po_CIDRs = []\<rparr>"
      using ok i by (auto simp: DerivePolicy_def PolicyFromConfig_def parsePolicy_def)
    from result [OF this i(2)] True show ?thesis by (simp add: allow_def)
  next
    case False
    define cs where "cs = sort (first_seen [] (map (cidr_text showIP) ips))"
    have n: "network = \<lparr>bn_Mode = ''allowed-cidrs'', bn_CIDRs = cs\<rparr>" using ok i False by (auto simp: DerivePolicy_def cs_def)
    have w: "list_all is_ip ips" by (rule server_ips_is_ip [OF i(2) ip])
    have c: "parseCIDR (cidr_text showIP x) = Some (host_net (canonical x))" if "x \<in> set ips" for x
      using that w canonical_is_ip [of x] cidr [of "canonical x"] by (simp add: list_all_iff cidr_text_canonical)
    have s: "set cs = cidr_text showIP ` set ips" by (simp add: cs_def set_first_seen)
    define nets where "nets = map (the \<circ> parseCIDR) cs"
    have p: "parse_cidrs parseCIDR cs = Inr nets" unfolding nets_def by (rule parse_cidrs_all) (use s c in \<open>auto simp: list_all_iff\<close>)
    have "set nets = (\<lambda>x. host_net (canonical x)) ` set ips" unfolding nets_def using s c by (auto simp: image_iff)
    moreover have "nets \<noteq> []" using False s by (auto simp: nets_def)
    ultimately show ?thesis using result [of "\<lparr>po_Mode = ''allowed-cidrs'', po_CIDRs = nets\<rparr>" ips] host_nets_allow [OF w] i(2) p False n
      by (simp add: PolicyFromConfig_def parsePolicy_def)
  qed
qed

subsection \<open>Witnesses\<close>

lemma ex_model_name: "validModelID ''m''"
  by (simp add: validModelID_def MaxModelIDBytes_def ValidateModelName_def ModelWildcard_def decode1 byte_of_def RuneError_def is_control_def
      is_Cf_def is_space_def in_ranges_def)

lemma ex_listing:
  "hs_startedUnix ex_http = 7" "filter (Allows ex_key) (order (px_router (hs_proxy ex_http))) = [''m'']"
  "wr_body (handleModels [] ex_http ex_key) = compact (models_json 7 [''m''])"
  by (simp_all add: handleModels_def Router_List_def ex_http_def ex_proxy_def ex_router_def Allows_def ModelWildcard_def ex_key_def)


definition ex_host :: url where
  "ex_host = \<lparr>u_Scheme = ''http'', u_User = False, u_Host = ''10.0.0.1'', u_Path = [], u_RawQuery = [], u_Fragment = []\<rparr>"

definition ex_server :: disc_server where
  "ex_server = \<lparr>ds_Name = ''gpu'', ds_BaseURL = ''http://10.0.0.1''\<rparr>"

definition ex_fetch :: fetch_env where
  "ex_fetch =
     \<lparr>fe_parseCIDR = (\<lambda>_. None), fe_urlParse = (\<lambda>_. Some ex_host),
      fe_do = (\<lambda>_ _. Inr \<lparr>hr_Status = 200, hr_Header = [], hr_Body = compact (models_json 7 [''m'']), hr_End = None\<rparr>),
      fe_ctxRequest = None, fe_ctxParse = None, fe_headersLate = (\<lambda>_. False), fe_mediaType = (\<lambda>_. None)\<rparr>"

lemma ex_host_ok: "parseBaseURL (\<lambda>_. Some ex_host) raw = Inr ex_host" "Hostname ex_host = ''10.0.0.1''"
  by (simp_all add: parseBaseURL_def ex_host_def Hostname_def url_split_def validOptionalPort_def net_SplitHostPort_def has_prefix_def)

lemma ex_listing_small: "length (compact (models_json 7 [''m''])) \<le> 1000"
  by (simp add: models_json_def model_json_def encode_string_def int_literal_def quote_ascii_def safe_byte_def byte_of_def nat_digits.simps)

theorem Fetch_well_formed_witness:
  "Fetch ex_fetch \<lparr>bn_Mode = ''loopback-only'', bn_CIDRs = []\<rparr> ex_server = Inr [''m''] \<and> validModelID ''m''"
proof -
  have "parseModelList MaxModels (compact (models_json 7 [''m''])) = Inr [''m'']"
    by (rule parseModelList_compact) (simp_all add: ex_model_name MaxModels_def)
  then have "ParseModels (compact (models_json 7 [''m''])) None MaxResponseBytes MaxModels = Inr [''m'']"
    using ex_listing_small unfolding ParseModels_def read_limited_def by (simp only: MaxResponseBytes_def MaxModels_def) simp
  then have f: "Fetch ex_fetch \<lparr>bn_Mode = ''loopback-only'', bn_CIDRs = []\<rparr> ex_server = Inr [''m'']"
    by (simp only: Fetch_def ex_fetch_def PolicyFromConfig_def parsePolicy_def fetch_answer_def) (simp add: ex_host_ok hdr_get_def hdr_values_def)
  then show ?thesis using Fetch_well_formed [OF f] by simp
qed

text \<open>Addresses written as their bytes, and networks read back from that.\<close>

definition ex_showIP :: "ip \<Rightarrow> string" where "ex_showIP x = map char_of x"
definition ex_parseIP :: "string \<Rightarrow> ip option" where "ex_parseIP h = (if h = ''10.0.0.1'' then Some [10, 0, 0, 1] else None)"
definition ex_parseCIDR :: "string \<Rightarrow> ipnet option" where
  "ex_parseCIDR s = Some (host_net (map byte_of (take (if length s = 7 then 4 else 16) s)))"

theorem derived_policy_exact_witness:
  "DerivePolicy (\<lambda>_. Some ex_host) ex_parseIP ex_showIP [ex_server] = Inr \<lparr>bn_Mode = ''allowed-cidrs'', bn_CIDRs = [ex_showIP [10, 0, 0, 1] @ ''/32'']\<rparr> \<and>
   (\<exists>pol. PolicyFromConfig ex_parseCIDR \<lparr>bn_Mode = ''allowed-cidrs'', bn_CIDRs = [ex_showIP [10, 0, 0, 1] @ ''/32'']\<rparr> = Inr pol \<and>
      allow pol [10, 0, 0, 1] \<and> \<not> allow pol [10, 0, 0, 2] \<and> \<not> allow pol [127, 0, 0, 1])"
proof -
  let ?n = "\<lparr>bn_Mode = ''allowed-cidrs'', bn_CIDRs = [ex_showIP [10, 0, 0, 1] @ ''/32'']\<rparr>"
  have i: "server_ips (\<lambda>_. Some ex_host) ex_parseIP [ex_server] = Inr [[10, 0, 0, 1]]" by (simp add: ex_host_ok ex_parseIP_def)
  have l: "\<not> list_all IsLoopback [[10, 0, 0, 1]]" by (simp add: IsLoopback_def To4_def)
  have d: "DerivePolicy (\<lambda>_. Some ex_host) ex_parseIP ex_showIP [ex_server] = Inr ?n"
    by (simp only: DerivePolicy_def i l) (simp add: cidr_text_def To4_def IsLoopback_def)
  have p: "is_ip x" if "ex_parseIP h = Some x" for h x using that by (auto simp: ex_parseIP_def is_ip_def split: if_splits)
  have c: "ex_parseCIDR (ex_showIP x @ (if length x = 4 then ''/32'' else ''/128'')) = Some (host_net x)" if "is_ip x" for x
  proof -
    have "map (\<lambda>b. byte_of (char_of b)) x = x" using that by (auto simp: is_ip_def list_all_iff byte_of_def intro!: map_idI)
    then show ?thesis using that by (auto simp: ex_parseCIDR_def ex_showIP_def is_ip_def comp_def)
  qed
  have w: "is_ip [10, 0, 0, 1]" "is_ip [10, 0, 0, 2]" "is_ip [127, 0, 0, 1]" by (simp_all add: is_ip_def)
  have k: "canonical [10, 0, 0, 1] = [10, 0, 0, 1]" "canonical [10, 0, 0, 2] = [10, 0, 0, 2]" "canonical [127, 0, 0, 1] = [127, 0, 0, 1]"
    by (simp_all add: canonical_def To4_def)
  have "\<exists>pol. PolicyFromConfig ex_parseCIDR ?n = Inr pol \<and> (\<forall>x. is_ip x \<longrightarrow> allow pol x = (canonical x \<in> canonical ` {[10, 0, 0, 1]}))"
    using derived_policy_exact [of ex_parseIP ex_parseCIDR ex_showIP "\<lambda>_. Some ex_host" "[ex_server]" ?n] p c d i l by (simp only: i) auto
  then show ?thesis using d w k by auto
qed

end
